(* ===== verification/Prelude.thy ===== *)
theory Prelude
  imports Main "HOL-Library.Word"
begin

text \<open>
  Shared vocabulary of the development: the names of Go's machine types, the collections of
  rewrite rules the component theories fill (\<open>go_defs\<close> for the plain definitions of the
  modelled operations, \<open>go_state\<close> for the equations that describe what an operation leaves of
  the state), and the generic facts on lists, maps and 64-bit counters that several components
  need.
\<close>

unbundle bit_operations_syntax

section \<open>Types\<close>

text \<open>
  Go strings and byte slices are byte sequences; an Isabelle \<^typ>\<open>char\<close> is one byte.  Durations
  and instants are counted in nanoseconds; \<open>time.Duration\<close> is an \<open>int64\<close>, and
  no operation of the program does arithmetic on durations near the ends of that range, so they are
  kept as unbounded integers.  \<open>uint64\<close> values keep their width.
\<close>

type_synonym bytes = string
type_synonym uint64 = "64 word"
type_synonym duration = int
type_synonym instant = int

abbreviation Second :: duration where
  "Second \<equiv> 1000000000"

abbreviation Millisecond :: duration where
  "Millisecond \<equiv> 1000000"

named_theorems go_defs \<open>definitions of the modelled operations\<close>
named_theorems go_state \<open>what an operation leaves of the state\<close>

section \<open>Maps\<close>

lemma map_le_SomeD: "f \<subseteq>\<^sub>m g \<Longrightarrow> f k = Some v \<Longrightarrow> g k = Some v"
  by (metis domI map_le_def)

section \<open>Counters modulo the number of nodes\<close>

text \<open>A slot computed from a 64-bit counter is in range.\<close>

lemma word_mod_less_length:
  assumes "0 < n" and "n < 2 ^ 64"
  shows "unat ((c :: uint64) mod of_nat n) < n"
proof -
  have n: "unat (of_nat n :: uint64) = n"
    using assms(2) by (simp add: unat_of_nat take_bit_nat_eq_self)
  then show ?thesis
    using assms(1) by (simp add: unat_mod_distrib)
qed

text \<open>Away from wrap-around the slot is the counter's value modulo the number of nodes.\<close>

lemma word_slot:
  assumes "0 < n" and "n < 2 ^ 64" and "unat c + i < 2 ^ 64"
  shows "unat (((c :: uint64) + of_nat i) mod of_nat n) = (unat c + i) mod n"
proof -
  have i: "unat (of_nat i :: uint64) = i"
    using assms(3) by (simp add: unat_of_nat take_bit_nat_eq_self)
  have n: "unat (of_nat n :: uint64) = n"
    using assms(2) by (simp add: unat_of_nat take_bit_nat_eq_self)
  have "unat (c + of_nat i) = unat c + i"
    using assms(3) by (simp add: unat_word_ariths i take_bit_nat_eq_self)
  then show ?thesis
    by (simp add: unat_mod_distrib n)
qed

text \<open>\<open>n\<close> consecutive counter values visit every slot.\<close>

lemma slots_cover:
  assumes "j < (n :: nat)"
  shows "\<exists>i < n. (c + i) mod n = j"
proof -
  let ?i = "(n - c mod n + j) mod n"
  have "0 < n" using assms by simp
  have "(c + ?i) mod n = (c mod n + (n - c mod n + j)) mod n"
    by (simp add: mod_simps)
  also have "c mod n + (n - c mod n + j) = n + j"
    using mod_less_divisor [OF \<open>0 < n\<close>, of c] by arith
  also have "(n + j) mod n = j"
    using assms by simp
  finally show ?thesis
    using mod_less_divisor [OF \<open>0 < n\<close>, of "n - c mod n + j"] by blast
qed

end
