(* ===== verification/GoStrings.thy ===== *)
theory GoStrings
  imports Prelude
begin

text \<open>
  The parts of Go's \<open>strings\<close> and \<open>strconv\<close> packages the program calls, as functions on byte
  strings: prefix and substring tests, splitting, trimming of (UTF-8) white space, and the parsing
  and printing of integers in a given base.  The round trips of the integer functions are proved
  here once and used by the block-number parsers.
\<close>

section \<open>Package strings\<close>

definition HasPrefix :: "string \<Rightarrow> string \<Rightarrow> bool" where
  "HasPrefix s p \<longleftrightarrow> take (length p) s = p"

fun Contains :: "string \<Rightarrow> string \<Rightarrow> bool" where
  "Contains [] p = (p = [])"
| "Contains (c # s) p = (HasPrefix (c # s) p \<or> Contains s p)"

text \<open>\<open>strings.Index\<close> for a one-byte needle; \<open>None\<close> is Go's \<open>-1\<close>.\<close>

fun IndexByte :: "char \<Rightarrow> string \<Rightarrow> nat option" where
  "IndexByte b [] = None"
| "IndexByte b (c # s) = (if c = b then Some 0 else map_option Suc (IndexByte b s))"

text \<open>\<open>strings.Split\<close> for a one-byte separator: never empty.\<close>

fun Split :: "char \<Rightarrow> string \<Rightarrow> string list" where
  "Split b [] = [[]]"
| "Split b (c # s) =
     (if c = b then [] # Split b s
      else (case Split b s of [] \<Rightarrow> [[c]] | p # ps \<Rightarrow> (c # p) # ps))"

text \<open>
  \<open>strings.TrimSpace\<close> removes every rune of \<open>unicode.IsSpace\<close>: the ASCII blanks, and the
  UTF-8 encodings of U+0085, U+00A0, U+1680, U+2000..U+200A, U+2028, U+2029, U+202F, U+205F, U+3000.
\<close>

definition ascii_space :: "char \<Rightarrow> bool" where
  "ascii_space c \<longleftrightarrow> (let n = of_char c :: int in n = 32 \<or> 9 \<le> n \<and> n \<le> 13)"

definition utf8_spaces :: "string list" where
  "utf8_spaces =
     [[CHR 0xC2, CHR 0x85], [CHR 0xC2, CHR 0xA0], [CHR 0xE1, CHR 0x9A, CHR 0x80],
      [CHR 0xE2, CHR 0x80, CHR 0xA8], [CHR 0xE2, CHR 0x80, CHR 0xA9],
      [CHR 0xE2, CHR 0x80, CHR 0xAF], [CHR 0xE2, CHR 0x81, CHR 0x9F],
      [CHR 0xE3, CHR 0x80, CHR 0x80]]
     @ map (\<lambda>i. [CHR 0xE2, CHR 0x80, char_of (0x80 + i)]) [0 ..< 11]"

fun strip_space :: "string list \<Rightarrow> string \<Rightarrow> string" where
  "strip_space ps [] = []"
| "strip_space ps (c # s) =
     (if (of_char c :: int) < 128 then (if ascii_space c then strip_space ps s else c # s)
      else (case find (\<lambda>p. p \<noteq> [] \<and> HasPrefix (c # s) p) ps of
              None \<Rightarrow> c # s
            | Some p \<Rightarrow> strip_space ps (drop (length p - 1) s)))"

definition TrimSpace :: "string \<Rightarrow> string" where
  "TrimSpace s =
     rev (strip_space (map rev utf8_spaces) (rev (strip_space utf8_spaces s)))"

lemma HasPrefix_append [simp]: "HasPrefix (p @ s) p"
  by (simp add: HasPrefix_def)

lemma HasPrefix_iff: "HasPrefix s p \<longleftrightarrow> (\<exists>t. s = p @ t)"
  by (metis HasPrefix_append HasPrefix_def append_take_drop_id)

lemma HasPrefix_Nil [simp]: "HasPrefix s []"
  by (simp add: HasPrefix_def)

lemma HasPrefix_Cons [simp]: "HasPrefix (c # s) (d # p) \<longleftrightarrow> c = d \<and> HasPrefix s p"
  by (auto simp: HasPrefix_def)

lemma HasPrefix_of_Nil [simp]: "HasPrefix [] p \<longleftrightarrow> p = []"
  by (auto simp: HasPrefix_def)

lemma IndexByte_None [simp]: "IndexByte b s = None \<longleftrightarrow> b \<notin> set s"
  by (induction s) auto

lemma IndexByte_append:
  "b \<notin> set s \<Longrightarrow> IndexByte b (s @ b # t) = Some (length s)"
  by (induction s) auto

lemma Split_nonempty [simp]: "Split b s \<noteq> []"
  by (induction s) (auto split: list.splits)

lemma Split_no_sep: "b \<notin> set s \<Longrightarrow> Split b s = [s]"
  by (induction s) auto

lemma Split_join: "b \<notin> set s \<Longrightarrow> Split b (s @ b # t) = s # Split b t"
  by (induction s) auto

lemma strip_space_noop:
  "s = [] \<or> (of_char (hd s) :: int) < 128 \<and> \<not> ascii_space (hd s) \<Longrightarrow> strip_space ps s = s"
  by (cases s) auto

lemma TrimSpace_noop:
  assumes "\<And>c. c \<in> set s \<Longrightarrow> (of_char c :: int) < 128 \<and> \<not> ascii_space c"
  shows "TrimSpace s = s"
proof -
  have "strip_space utf8_spaces s = s"
    by (rule strip_space_noop) (use assms in \<open>auto simp: hd_in_set\<close>)
  moreover have "strip_space (map rev utf8_spaces) (rev s) = rev s"
    by (rule strip_space_noop) (use assms hd_in_set [of "rev s"] in \<open>auto\<close>)
  ultimately show ?thesis
    by (simp add: TrimSpace_def)
qed

section \<open>Package strconv\<close>

text \<open>The value of a digit in bases up to 36.\<close>

definition digit_val :: "char \<Rightarrow> int option" where
  "digit_val c =
     (let n = of_char c :: int in
      if 48 \<le> n \<and> n \<le> 57 then Some (n - 48)
      else if 97 \<le> n \<and> n \<le> 122 then Some (n - 87)
      else if 65 \<le> n \<and> n \<le> 90 then Some (n - 55)
      else None)"

fun digits_val :: "int \<Rightarrow> int \<Rightarrow> string \<Rightarrow> int option" where
  "digits_val b acc [] = Some acc"
| "digits_val b acc (c # s) =
     (case digit_val c of
        None \<Rightarrow> None
      | Some d \<Rightarrow> if d < b then digits_val b (b * acc + d) s else None)"

text \<open>
  \<open>strconv.ParseUint(s, base, 64)\<close> for an explicit base: the empty string, a foreign character
  (an underscore or a sign included) and a value of \<open>2^64\<close> or more are errors.
\<close>

definition ParseUint :: "int \<Rightarrow> string \<Rightarrow> uint64 option" where
  "ParseUint b s =
     (if s = [] then None
      else (case digits_val b 0 s of
              None \<Rightarrow> None
            | Some n \<Rightarrow> if n < 2 ^ 64 then Some (word_of_int n) else None))"

text \<open>\<open>strconv.ParseInt(s, 10, 64)\<close>, which is also what \<open>strconv.Atoi\<close> computes.\<close>

definition ParseInt :: "string \<Rightarrow> int option" where
  "ParseInt s =
     (let neg = HasPrefix s ''-'';
          t = (if neg \<or> HasPrefix s ''+'' then tl s else s)
      in if t = [] then None
         else (case digits_val 10 0 t of
                 None \<Rightarrow> None
               | Some n \<Rightarrow>
                   if neg then (if n \<le> 2 ^ 63 then Some (- n) else None)
                   else (if n < 2 ^ 63 then Some n else None)))"

definition digit_char :: "int \<Rightarrow> char" where
  "digit_char d = char_of (if d < 10 then 48 + d else 87 + d)"

text \<open>\<open>strconv.FormatUint\<close>: the digits of a non-negative number, most significant first.\<close>

function FormatUint :: "int \<Rightarrow> int \<Rightarrow> string" where
  "FormatUint b n =
     (if b < 2 \<or> n < b then [digit_char n] else FormatUint b (n div b) @ [digit_char (n mod b)])"
  by pat_completeness auto
termination
  by (relation "measure (\<lambda>(b, n). nat n)") (auto intro: int_div_less_self)

declare FormatUint.simps [simp del]

definition Itoa :: "int \<Rightarrow> string" where
  "Itoa i = (if i < 0 then CHR ''-'' # FormatUint 10 (- i) else FormatUint 10 i)"

lemma digit_val_digit_char [simp]:
  assumes "0 \<le> d" and "d < 36"
  shows "digit_val (digit_char d) = Some d"
proof -
  have "(of_char (char_of n :: char) :: int) = n" if "0 \<le> n" "n < 256" for n :: int
    using that by (simp add: take_bit_int_eq_self)
  then show ?thesis
    using assms by (auto simp: digit_val_def digit_char_def Let_def)
qed

lemma digits_val_append:
  "digits_val b acc (s @ t) =
     (case digits_val b acc s of None \<Rightarrow> None | Some a \<Rightarrow> digits_val b a t)"
  by (induction b acc s rule: digits_val.induct) (auto split: option.splits)

lemma digits_val_nonneg:
  "digits_val b acc s = Some n \<Longrightarrow> 0 \<le> b \<Longrightarrow> 0 \<le> acc \<Longrightarrow> 0 \<le> n"
  by (induction b acc s rule: digits_val.induct)
    (auto simp: digit_val_def Let_def split: option.splits if_splits)

lemma FormatUint_nonempty [simp]: "FormatUint b n \<noteq> []"
  by (subst FormatUint.simps) simp

lemma digits_val_FormatUint:
  assumes "2 \<le> b" and "b \<le> 36" and "0 \<le> n"
  shows "digits_val b 0 (FormatUint b n) = Some n"
  using assms
proof (induction b n rule: FormatUint.induct)
  case (1 b n)
  show ?case
  proof (cases "n < b")
    case True
    with "1.prems" show ?thesis
      by (subst FormatUint.simps) simp
  next
    case False
    then have IH: "digits_val b 0 (FormatUint b (n div b)) = Some (n div b)"
      using "1.IH" "1.prems" by (simp add: pos_imp_zdiv_nonneg_iff)
    have "0 \<le> n mod b" and "n mod b < b"
      using "1.prems" by simp_all
    moreover from this have "digit_val (digit_char (n mod b)) = Some (n mod b)"
      using "1.prems"(2) by (intro digit_val_digit_char) linarith+
    ultimately show ?thesis
      using False IH "1.prems"
      by (subst FormatUint.simps) (simp add: digits_val_append)
  qed
qed

text \<open>Printing a 64-bit number and parsing it back in the same base is the identity.\<close>

lemma ParseUint_FormatUint:
  assumes "2 \<le> b" and "b \<le> 36"
  shows "ParseUint b (FormatUint b (uint (w :: uint64))) = Some w"
proof -
  have "uint w < 2 ^ 64"
    using uint_lt2p [of w] by simp
  with assms show ?thesis
    by (simp add: ParseUint_def digits_val_FormatUint)
qed

end
