(* ===== verification/GoFloat.thy ===== *)
theory GoFloat
  imports GoStrings
begin

text \<open>
  What \<open>encoding/json\<close> does to a number that is decoded into an \<open>any\<close> and encoded again: the
  literal is read as a \<open>float64\<close> (\<open>strconv.ParseFloat\<close>, round to nearest, ties to even; out of
  range is an error) and printed with the fewest digits that read back as the same \<open>float64\<close>
  (\<open>strconv.AppendFloat\<close> with precision \<open>-1\<close>), in exponent notation below \<open>1e-6\<close> and from
  \<open>1e21\<close> on.  Everything is exact integer arithmetic.
\<close>

section \<open>Rounding to float64\<close>

text \<open>\<open>bit_len n\<close> is the number of binary digits of \<open>n\<close>.\<close>

function bit_len :: "int \<Rightarrow> int" where
  "bit_len n = (if n \<le> 0 then 0 else 1 + bit_len (n div 2))"
  by pat_completeness auto
termination
  by (relation "measure nat") auto

declare bit_len.simps [simp del]

text \<open>\<open>p / q\<close> rounded to an integer, ties to even.\<close>

definition round_even :: "int \<Rightarrow> int \<Rightarrow> int" where
  "round_even p q =
     (let d = p div q; r = p mod q in
      if 2 * r < q then d else if q < 2 * r then d + 1 else if even d then d else d + 1)"

text \<open>
  A non-negative \<open>float64\<close> is \<open>m * 2 ^ e\<close> with \<open>m < 2 ^ 53\<close> and \<open>-1074 \<le> e\<close>;
  \<open>scale2\<close> and \<open>scale10\<close> shift a fraction \<open>p / q\<close> by a power of two or ten.
\<close>

definition scale2 :: "int \<Rightarrow> int \<times> int \<Rightarrow> int \<times> int" where
  "scale2 e pq = (if 0 \<le> e then (fst pq * 2 ^ nat e, snd pq) else (fst pq, snd pq * 2 ^ nat (- e)))"

definition scale10 :: "int \<Rightarrow> int \<times> int \<Rightarrow> int \<times> int" where
  "scale10 e pq =
     (if 0 \<le> e then (fst pq * 10 ^ nat e, snd pq) else (fst pq, snd pq * 10 ^ nat (- e)))"

text \<open>The exponent at which \<open>p / q\<close> has a significand of 53 bits, or the subnormal one.\<close>

definition float_exp :: "int \<times> int \<Rightarrow> int" where
  "float_exp pq =
     (let e = bit_len (fst pq) - bit_len (snd pq) - 53;
          (p, q) = scale2 (- e) pq;
          e' = (if p div q < 2 ^ 52 then e - 1 else if p div q < 2 ^ 53 then e else e + 1)
      in max e' (- 1074))"

definition to_float :: "int \<times> int \<Rightarrow> (int \<times> int) option" where
  "to_float pq =
     (if fst pq = 0 then Some (0, - 1074)
      else
        (let e = float_exp pq;
             (p, q) = scale2 (- e) pq;
             m = round_even p q;
             (m', e') = (if m = 2 ^ 53 then (2 ^ 52, e + 1) else (m, e))
         in if 971 < e' then None else Some (m', e')))"

section \<open>Reading a literal\<close>

text \<open>A JSON number split into sign, digits, fraction digits and exponent.\<close>

definition is_digit :: "char \<Rightarrow> bool" where
  "is_digit c \<longleftrightarrow> (let n = of_char c :: int in 48 \<le> n \<and> n \<le> 57)"

definition dec_val :: "string \<Rightarrow> int" where
  "dec_val s = fold (\<lambda>c a. 10 * a + (of_char c - 48)) s 0"

definition parse_exp :: "string \<Rightarrow> int" where
  "parse_exp s =
     (case s of
        [] \<Rightarrow> 0
      | _ # t \<Rightarrow> if HasPrefix t ''-'' then - dec_val (tl t)
                 else if HasPrefix t ''+'' then dec_val (tl t) else dec_val t)"

definition literal_fraction :: "string \<Rightarrow> bool \<times> (int \<times> int)" where
  "literal_fraction s =
     (let neg = HasPrefix s ''-'';
          t = (if neg then tl s else s);
          ip = takeWhile is_digit t;
          t1 = dropWhile is_digit t;
          dot = HasPrefix t1 ''.'';
          fp = (if dot then takeWhile is_digit (tl t1) else []);
          t2 = (if dot then dropWhile is_digit (tl t1) else t1)
      in (neg, scale10 (parse_exp t2 - int (length fp)) (dec_val (ip @ fp), 1)))"

section \<open>Printing the shortest digits\<close>

definition float_fraction :: "int \<times> int \<Rightarrow> int \<times> int" where
  "float_fraction f = scale2 (snd f) (fst f, 1)"

text \<open>
  The decimal exponent of a positive fraction: the \<open>k\<close> with \<open>10 ^ k \<le> p / q < 10 ^ (k + 1)\<close>,
  found from an estimate of the number of digits.
\<close>

definition dec_exp :: "int \<times> int \<Rightarrow> int" where
  "dec_exp pq =
     (let k = int (length (FormatUint 10 (fst pq))) - int (length (FormatUint 10 (snd pq)));
          (p, q) = scale10 (- k) pq
      in if p < q then k - 1 else k)"

text \<open>
  The candidates with \<open>n\<close> significant digits next to \<open>p / q\<close>, the nearer one first, as
  \<open>(digits, exponent)\<close>; the first that reads back as the same float is the answer.
\<close>

definition candidates :: "int \<times> int \<Rightarrow> nat \<Rightarrow> (int \<times> int) list" where
  "candidates pq n =
     (let k = dec_exp pq - int (n - 1);
          (p, q) = scale10 (- k) pq;
          lo = (p div q, k);
          hi = (p div q + 1, k)
      in if 2 * (p mod q) < q then [lo, hi]
         else if q < 2 * (p mod q) then [hi, lo]
         else if even (p div q) then [lo, hi] else [hi, lo])"

fun shortest_from :: "nat \<Rightarrow> nat \<Rightarrow> int \<times> int \<Rightarrow> int \<times> int" where
  "shortest_from 0 n f = f"
| "shortest_from (Suc i) n f =
     (let pq = float_fraction f in
      case find (\<lambda>(d, k). to_float (scale10 k (d, 1)) = Some f) (candidates pq n) of
        Some r \<Rightarrow> r
      | None \<Rightarrow> shortest_from i (Suc n) f)"

text \<open>Seventeen significant digits always identify a \<open>float64\<close>.\<close>

definition shortest :: "int \<times> int \<Rightarrow> int \<times> int" where
  "shortest f = shortest_from 17 1 f"

fun strip_zeros :: "nat \<Rightarrow> int \<times> int \<Rightarrow> int \<times> int" where
  "strip_zeros 0 r = r"
| "strip_zeros (Suc i) (d, k) =
     (if d mod 10 = 0 \<and> d \<noteq> 0 then strip_zeros i (d div 10, k + 1) else (d, k))"

text \<open>
  \<open>floatEncoder\<close>: format \<open>e\<close> when the value is below \<open>1e-6\<close> or at least \<open>1e21\<close> (with
  a one-digit negative exponent losing its leading zero), format \<open>f\<close> otherwise.
\<close>

definition exp_digits :: "int \<Rightarrow> string" where
  "exp_digits x =
     (let n = \<bar>x\<bar>; ds = FormatUint 10 n in
      (if x < 0 then ''-'' else ''+'') @ (if n < 10 \<and> 0 \<le> x then ''0'' else []) @ ds)"

definition format_digits :: "int \<times> int \<Rightarrow> string" where
  "format_digits r =
     (let (d, k) = strip_zeros 20 r;
          ds = FormatUint 10 d;
          x = k + int (length ds) - 1
      in if d = 0 then ''0''
         else if x < - 6 \<or> 21 \<le> x then
           hd ds # (if tl ds = [] then [] else CHR ''.'' # tl ds) @ ''e'' @ exp_digits x
         else if 0 \<le> k then ds @ replicate (nat k) (CHR ''0'')
         else if 0 \<le> x then take (Suc (nat x)) ds @ ''.'' @ drop (Suc (nat x)) ds
         else ''0.'' @ replicate (nat (- x - 1)) (CHR ''0'') @ ds)"

text \<open>Literal to literal: \<open>None\<close> when the value is out of range of \<open>float64\<close>.\<close>

definition number_any :: "string \<Rightarrow> string option" where
  "number_any s =
     (let (neg, pq) = literal_fraction s in
      case to_float pq of
        None \<Rightarrow> None
      | Some f \<Rightarrow>
          Some ((if neg then ''-'' else []) @
                format_digits (if fst f = 0 then (0, 0) else shortest f)))"

end
