(* ===== verification/GoJson.thy ===== *)
theory GoJson
  imports GoFloat
begin

text \<open>
  The parts of \<open>encoding/json\<close> the program uses, on bytes.  \<open>json_parse\<close> accepts exactly the
  texts \<open>json.Unmarshal\<close>'s syntax check accepts and yields the value; every array element and
  object member also carries the bytes it was written with, because the program keeps many of them
  unparsed (\<open>json.RawMessage\<close>).  On top of it: decoding an object into a struct (field names
  match exactly or up to case, a later member overrides an earlier one, \<open>null\<close> leaves scalars
  alone, a member of the wrong type makes the whole call fail), \<open>json.Compact\<close> as
  \<open>json.Marshal\<close> applies it to raw messages, the encoding of strings, and the canonical text of
  a value decoded into an \<open>any\<close>.
\<close>

section \<open>Values\<close>

datatype json =
    JNull
  | JBool bool
  | JNum string
  | JStr string
  | JArr "(bytes \<times> json) list"
  | JObj "(string \<times> bytes \<times> json) list"

definition is_ws :: "char \<Rightarrow> bool" where
  "is_ws c \<longleftrightarrow> c = CHR '' '' \<or> c = CHR 0x09 \<or> c = CHR 0x0A \<or> c = CHR 0x0D"

definition skip_ws :: "string \<Rightarrow> string" where
  "skip_ws s = dropWhile is_ws s"

section \<open>Strings and UTF-8\<close>

text \<open>The length of the valid UTF-8 sequence a string starts with, 0 if there is none.\<close>

definition is_cont :: "int \<Rightarrow> bool" where
  "is_cont n \<longleftrightarrow> 0x80 \<le> n \<and> n < 0xC0"

definition utf8_size :: "string \<Rightarrow> nat" where
  "utf8_size s =
     (case map of_char (take 4 s) :: int list of
        [] \<Rightarrow> 0
      | b0 # bs \<Rightarrow>
          if b0 < 0x80 then 1
          else if 0xC2 \<le> b0 \<and> b0 < 0xE0 then
            (case bs of b1 # _ \<Rightarrow> if is_cont b1 then 2 else 0 | _ \<Rightarrow> 0)
          else if 0xE0 \<le> b0 \<and> b0 < 0xF0 then
            (case bs of
               b1 # b2 # _ \<Rightarrow>
                 if (if b0 = 0xE0 then 0xA0 \<le> b1 \<and> b1 < 0xC0
                     else if b0 = 0xED then 0x80 \<le> b1 \<and> b1 < 0xA0 else is_cont b1) \<and> is_cont b2
                 then 3 else 0
             | _ \<Rightarrow> 0)
          else if 0xF0 \<le> b0 \<and> b0 < 0xF5 then
            (case bs of
               b1 # b2 # b3 # _ \<Rightarrow>
                 if (if b0 = 0xF0 then 0x90 \<le> b1 \<and> b1 < 0xC0
                     else if b0 = 0xF4 then 0x80 \<le> b1 \<and> b1 < 0x90 else is_cont b1) \<and>
                    is_cont b2 \<and> is_cont b3
                 then 4 else 0
             | _ \<Rightarrow> 0)
          else 0)"

definition utf8_encode :: "int \<Rightarrow> string" where
  "utf8_encode n =
     (if n < 0x80 then [char_of n]
      else if n < 0x800 then [char_of (0xC0 + n div 64), char_of (0x80 + n mod 64)]
      else if n < 0x10000 then
        [char_of (0xE0 + n div 4096), char_of (0x80 + n div 64 mod 64), char_of (0x80 + n mod 64)]
      else
        [char_of (0xF0 + n div 262144), char_of (0x80 + n div 4096 mod 64),
         char_of (0x80 + n div 64 mod 64), char_of (0x80 + n mod 64)])"

text \<open>U+FFFD, the replacement of what is not valid UTF-8.\<close>

abbreviation replacement :: string where
  "replacement \<equiv> [CHR 0xEF, CHR 0xBF, CHR 0xBD]"

text \<open>A string literal is scanned into bytes and escaped code units, then decoded.\<close>

datatype sunit = SByte char | SRune int

definition hex4 :: "char \<Rightarrow> char \<Rightarrow> char \<Rightarrow> char \<Rightarrow> int option" where
  "hex4 a b c d = digits_val 16 0 [a, b, c, d]"

definition simple_escape :: "char \<Rightarrow> char option" where
  "simple_escape c =
     (if c = CHR 0x22 \<or> c = CHR 0x5C \<or> c = CHR ''/'' then Some c
      else if c = CHR ''b'' then Some (CHR 0x08)
      else if c = CHR ''f'' then Some (CHR 0x0C)
      else if c = CHR ''n'' then Some (CHR 0x0A)
      else if c = CHR ''r'' then Some (CHR 0x0D)
      else if c = CHR ''t'' then Some (CHR 0x09)
      else None)"

text \<open>Scan after the opening quote, up to and over the closing one.\<close>

fun scan_string :: "string \<Rightarrow> (sunit list \<times> string) option" where
  "scan_string [] = None"
| "scan_string (c # s) =
     (if c = CHR 0x22 then Some ([], s)
      else if c = CHR 0x5C then
        (case s of
           [] \<Rightarrow> None
         | e # s1 \<Rightarrow>
             if e = CHR ''u'' then
               (case s1 of
                  h1 # h2 # h3 # h4 # s2 \<Rightarrow>
                    (case hex4 h1 h2 h3 h4 of
                       None \<Rightarrow> None
                     | Some n \<Rightarrow> map_option (\<lambda>(us, r). (SRune n # us, r)) (scan_string s2))
                | _ \<Rightarrow> None)
             else
               (case simple_escape e of
                  None \<Rightarrow> None
                | Some d \<Rightarrow> map_option (\<lambda>(us, r). (SRune (of_char d) # us, r)) (scan_string s1)))
      else if (of_char c :: int) < 0x20 then None
      else map_option (\<lambda>(us, r). (SByte c # us, r)) (scan_string s))"

definition hi_surrogate :: "int \<Rightarrow> bool" where
  "hi_surrogate n \<longleftrightarrow> 0xD800 \<le> n \<and> n < 0xDC00"

definition lo_surrogate :: "int \<Rightarrow> bool" where
  "lo_surrogate n \<longleftrightarrow> 0xDC00 \<le> n \<and> n < 0xE000"

fun lead_bytes :: "sunit list \<Rightarrow> string" where
  "lead_bytes (SByte c # us) = c # lead_bytes us"
| "lead_bytes _ = []"

fun unquote :: "sunit list \<Rightarrow> string" where
  "unquote [] = []"
| "unquote (SRune a # us) =
     (if hi_surrogate a then
        (case us of
           SRune b # us' \<Rightarrow>
             if lo_surrogate b
             then utf8_encode ((a - 0xD800) * 1024 + (b - 0xDC00) + 0x10000) @ unquote us'
             else replacement @ unquote us
         | _ \<Rightarrow> replacement @ unquote us)
      else if lo_surrogate a then replacement @ unquote us
      else utf8_encode a @ unquote us)"
| "unquote (SByte c # us) =
     (if (of_char c :: int) < 0x80 then c # unquote us
      else
        (let bs = c # lead_bytes us; k = utf8_size bs in
         if k = 0 then replacement @ unquote us
         else take k bs @ unquote (drop (k - 1) us)))"

section \<open>Numbers\<close>

definition scan_digits :: "string \<Rightarrow> string \<times> string" where
  "scan_digits s = (takeWhile is_digit s, dropWhile is_digit s)"

text \<open>The longest number literal at the head of the input.\<close>

definition scan_int :: "string \<Rightarrow> (string \<times> string) option" where
  "scan_int s =
     (case s of
        [] \<Rightarrow> None
      | c # r \<Rightarrow>
          if c = CHR ''0'' then Some (''0'', r)
          else if is_digit c then Some (scan_digits s)
          else None)"

definition scan_frac :: "string \<Rightarrow> (string \<times> string) option" where
  "scan_frac s =
     (if HasPrefix s ''.'' then
        (let (ds, r) = scan_digits (tl s) in
         if ds = [] then None else Some (CHR ''.'' # ds, r))
      else Some ([], s))"

definition scan_exp :: "string \<Rightarrow> (string \<times> string) option" where
  "scan_exp s =
     (if HasPrefix s ''e'' \<or> HasPrefix s ''E'' then
        (let t = tl s;
             sg = (if HasPrefix t ''+'' \<or> HasPrefix t ''-'' then take 1 t else []);
             (ds, r) = scan_digits (drop (length sg) t)
         in if ds = [] then None else Some (hd s # sg @ ds, r))
      else Some ([], s))"

definition scan_number :: "string \<Rightarrow> (string \<times> string) option" where
  "scan_number s =
     (let neg = HasPrefix s ''-''; t = (if neg then tl s else s) in
      case scan_int t of
        None \<Rightarrow> None
      | Some (ip, r) \<Rightarrow>
          (case scan_frac r of
             None \<Rightarrow> None
           | Some (fp, r') \<Rightarrow>
               (case scan_exp r' of
                  None \<Rightarrow> None
                | Some (ep, r'') \<Rightarrow> Some ((if neg then ''-'' else []) @ ip @ fp @ ep, r''))))"

section \<open>Parsing\<close>

text \<open>
  \<open>d\<close> is the nesting depth, which \<open>encoding/json\<close> limits to 10000.  The first argument is
  fuel; \<open>json_parse\<close> supplies enough (lemma \<open>pval_fuel\<close> below).
\<close>

definition literals :: "(string \<times> json) list" where
  "literals = [(''null'', JNull), (''true'', JBool True), (''false'', JBool False)]"

definition raw_of :: "string \<Rightarrow> string \<Rightarrow> bytes" where
  "raw_of s r = take (length s - length r) s"

definition scan_scalar :: "string \<Rightarrow> (json \<times> string) option" where
  "scan_scalar s =
     (case s of
        [] \<Rightarrow> None
      | c # r \<Rightarrow>
          if c = CHR 0x22 then map_option (\<lambda>(us, q). (JStr (unquote us), q)) (scan_string r)
          else
            (case find (\<lambda>(w, v). HasPrefix s w) literals of
               Some (w, v) \<Rightarrow> Some (v, drop (length w) s)
             | None \<Rightarrow> map_option (\<lambda>(l, q). (JNum l, q)) (scan_number s)))"

fun pval :: "nat \<Rightarrow> nat \<Rightarrow> string \<Rightarrow> (json \<times> string) option"
  and parr :: "nat \<Rightarrow> nat \<Rightarrow> string \<Rightarrow> ((bytes \<times> json) list \<times> string) option"
  and pobj :: "nat \<Rightarrow> nat \<Rightarrow> string \<Rightarrow> ((string \<times> bytes \<times> json) list \<times> string) option" where
  "pval 0 d s = None"
| "pval (Suc f) d s =
     (if HasPrefix s ''['' then
        (let r = skip_ws (tl s) in
         if 10000 \<le> d then None
         else if HasPrefix r '']'' then Some (JArr [], tl r)
         else map_option (\<lambda>(vs, q). (JArr vs, q)) (parr f (Suc d) r))
      else if HasPrefix s ''{'' then
        (let r = skip_ws (tl s) in
         if 10000 \<le> d then None
         else if HasPrefix r ''}'' then Some (JObj [], tl r)
         else map_option (\<lambda>(ms, q). (JObj ms, q)) (pobj f (Suc d) r))
      else scan_scalar s)"
| "parr 0 d s = None"
| "parr (Suc f) d s =
     (case pval f d s of
        None \<Rightarrow> None
      | Some (v, r) \<Rightarrow>
          (let r' = skip_ws r in
           if HasPrefix r' '','' then
             map_option (\<lambda>(vs, q). ((raw_of s r, v) # vs, q)) (parr f d (skip_ws (tl r')))
           else if HasPrefix r' '']'' then Some ([(raw_of s r, v)], tl r')
           else None))"
| "pobj 0 d s = None"
| "pobj (Suc f) d s =
     (if HasPrefix s [CHR 0x22] then
        (case scan_string (tl s) of
           None \<Rightarrow> None
         | Some (us, r) \<Rightarrow>
             (let r1 = skip_ws r in
              if HasPrefix r1 '':'' then
                (let s2 = skip_ws (tl r1) in
                 case pval f d s2 of
                   None \<Rightarrow> None
                 | Some (v, r2) \<Rightarrow>
                     (let r3 = skip_ws r2; m = (unquote us, raw_of s2 r2, v) in
                      if HasPrefix r3 '','' then
                        map_option (\<lambda>(ms, q). (m # ms, q)) (pobj f d (skip_ws (tl r3)))
                      else if HasPrefix r3 ''}'' then Some ([m], tl r3)
                      else None))
              else None))
      else None)"

definition json_parse :: "bytes \<Rightarrow> json option" where
  "json_parse s =
     (let s' = skip_ws s in
      case pval (2 * length s' + 1) 0 s' of
        None \<Rightarrow> None
      | Some (v, r) \<Rightarrow> if skip_ws r = [] then Some v else None)"

subsection \<open>The fuel is enough\<close>

lemma length_skip_ws: "length (skip_ws s) \<le> length s"
  by (simp add: skip_ws_def length_dropWhile_le)

lemma scan_string_length: "scan_string s = Some (us, r) \<Longrightarrow> length r < length s"
proof (induction s arbitrary: us r rule: scan_string.induct)
  case 1
  then show ?case by simp
next
  case (2 c s)
  show ?case
  proof (cases "c = CHR 0x5C")
    case True
    with "2.prems" obtain e s1 where s: "s = e # s1"
      by (auto split: list.splits)
    show ?thesis
    proof (cases "e = CHR ''u''")
      case e: True
      with True s "2.prems" obtain h1 h2 h3 h4 s2 n us' where s1: "s1 = h1 # h2 # h3 # h4 # s2"
        and n: "hex4 h1 h2 h3 h4 = Some n" and "scan_string s2 = Some (us', r)"
        by (auto split: list.splits option.splits)
      with "2.IH"(1) True s e have "length r < length s2" by auto
      with s s1 show ?thesis by simp
    next
      case e: False
      with True s "2.prems" obtain x us' where "simple_escape e = Some x"
        and "scan_string s1 = Some (us', r)"
        by (auto split: option.splits)
      with "2.IH"(2) True s e have "length r < length s1" by auto
      with s show ?thesis by simp
    qed
  next
    case False
    show ?thesis
    proof (cases "c = CHR 0x22")
      case True
      with "2.prems" show ?thesis by simp
    next
      case quote: False
      with False "2.prems" obtain us' where "scan_string s = Some (us', r)"
        and "\<not> (of_char c :: int) < 0x20"
        by (auto split: if_splits)
      with "2.IH"(3) False quote have "length r < length s" by auto
      then show ?thesis by simp
    qed
  qed
qed

lemma scan_number_length: "scan_number s = Some (l, r) \<Longrightarrow> length r < length s"
proof -
  assume *: "scan_number s = Some (l, r)"
  have frac: "length r' \<le> length t" if "scan_frac t = Some (x, r')" for t x r'
    using that length_dropWhile_le [of is_digit "tl t"]
    by (auto simp: scan_frac_def scan_digits_def Let_def split: if_splits)
  have exp: "length r' \<le> length t" if "scan_exp t = Some (x, r')" for t x r'
  proof -
    have "length (dropWhile is_digit (drop k (tl t))) \<le> length t" for k
      by (rule le_trans [OF length_dropWhile_le]) simp
    from this [of 0] this that show ?thesis
      by (auto simp: scan_exp_def scan_digits_def Let_def split: if_splits)
  qed
  have int: "length r' < length t" if "scan_int t = Some (x, r')" for t x r'
    using that length_dropWhile_le [of is_digit "tl t"]
    by (auto simp: scan_int_def scan_digits_def split: list.splits if_splits)
  let ?t = "if HasPrefix s ''-'' then tl s else s"
  from * obtain ip r1 fp r2 ep where
      "scan_int ?t = Some (ip, r1)" "scan_frac r1 = Some (fp, r2)" "scan_exp r2 = Some (ep, r)"
    by (auto simp: scan_number_def Let_def split: option.splits)
  then have "length r < length ?t"
    using int frac exp by fastforce
  also have "length ?t \<le> length s"
    by simp
  finally show ?thesis .
qed

lemma scan_scalar_length:
  assumes "scan_scalar s = Some (v, r)"
  shows "length r < length s"
proof -
  obtain c t where s: "s = c # t"
    using assms by (auto simp: scan_scalar_def split: list.splits)
  show ?thesis
  proof (cases "c = CHR 0x22")
    case True
    with assms s show ?thesis
      by (auto simp: scan_scalar_def dest!: scan_string_length)
  next
    case False
    then have "length r \<le> length t \<or> (\<exists>l. scan_number s = Some (l, r))"
      using assms s
      by (auto simp: scan_scalar_def literals_def split: option.splits if_splits)
    then show ?thesis
      using s scan_number_length [of s] by auto
  qed
qed

lemma HasPrefix_length: "HasPrefix s [c] \<Longrightarrow> length (tl s) < length s"
  by (cases s) auto

lemma pval_parr_pobj_length:
  "pval f d s = Some (v, r) \<Longrightarrow> length r < length s"
  "parr f d s = Some (vs, r) \<Longrightarrow> length r < length s"
  "pobj f d s = Some (ms, r) \<Longrightarrow> length r < length s"
proof (induction f arbitrary: d s v vs ms r)
  case 0
  {
    case 1
    then show ?case by simp
  next
    case 2
    then show ?case by simp
  next
    case 3
    then show ?case by simp
  }
next
  case (Suc f)
  {
    case 1
    let ?r = "skip_ws (tl s)"
    have r: "length ?r < length s" if "HasPrefix s [c]" for c
      using HasPrefix_length [OF that] length_skip_ws [of "tl s"] by simp
    from 1 consider c where "HasPrefix s [c]" "r = tl ?r"
      | c vs where "HasPrefix s [c]" "parr f (Suc d) ?r = Some (vs, r)"
      | c ms where "HasPrefix s [c]" "pobj f (Suc d) ?r = Some (ms, r)"
      | "scan_scalar s = Some (v, r)"
      by (auto simp: Let_def split: if_splits)
    then show ?case
    proof cases
      case 1
      with r [OF 1(1)] show ?thesis by simp
    next
      case 2
      from Suc.IH(2) [OF 2(2)] r [OF 2(1)] show ?thesis by simp
    next
      case 3
      from Suc.IH(3) [OF 3(2)] r [OF 3(1)] show ?thesis by simp
    next
      case 4
      then show ?thesis by (rule scan_scalar_length)
    qed
  next
    case 2
    then obtain v r1 where v: "pval f d s = Some (v, r1)"
      by (auto split: option.splits)
    let ?t = "tl (skip_ws r1)"
    have len: "length ?t < length s" "length (skip_ws ?t) < length s"
      using Suc.IH(1) [OF v] length_skip_ws [of r1] length_skip_ws [of ?t] by simp_all
    from 2 v consider "r = ?t" | vs where "parr f d (skip_ws ?t) = Some (vs, r)"
      by (auto simp: Let_def split: if_splits)
    then show ?case
    proof cases
      case 1
      with len(1) show ?thesis by simp
    next
      case 2
      from Suc.IH(2) [OF this] len(2) show ?thesis by simp
    qed
  next
    case 3
    then obtain us r1 where us: "scan_string (tl s) = Some (us, r1)" and s: "HasPrefix s [CHR 0x22]"
      by (auto split: option.splits if_splits)
    let ?s2 = "skip_ws (tl (skip_ws r1))"
    from 3 us s obtain v r2 where v: "pval f d ?s2 = Some (v, r2)"
      by (auto simp: Let_def split: option.splits if_splits)
    have r2: "length r2 < length s"
      using Suc.IH(1) [OF v] scan_string_length [OF us] HasPrefix_length [OF s]
        length_skip_ws [of r1] length_skip_ws [of "tl (skip_ws r1)"] length_tl [of "skip_ws r1"]
      by linarith
    let ?t = "tl (skip_ws r2)"
    have len: "length ?t < length s" "length (skip_ws ?t) < length s"
      using r2 length_skip_ws [of r2] length_skip_ws [of ?t] by simp_all
    from 3 us s v consider "r = ?t" | ms where "pobj f d (skip_ws ?t) = Some (ms, r)"
      by (auto simp: Let_def split: if_splits)
    then show ?case
    proof cases
      case 1
      with len(1) show ?thesis by simp
    next
      case 2
      from Suc.IH(3) [OF this] len(2) show ?thesis by simp
    qed
  }
qed

lemmas pval_length = pval_parr_pobj_length(1)

lemma pval_parr_pobj_fuel:
  "2 * length s < f \<Longrightarrow> pval (Suc f) d s = pval f d s"
  "2 * length s + 1 < f \<Longrightarrow> parr (Suc f) d s = parr f d s"
  "2 * length s + 1 < f \<Longrightarrow> pobj (Suc f) d s = pobj f d s"
proof (induction f arbitrary: d s)
  case 0
  {
    case 1
    then show ?case by simp
  next
    case 2
    then show ?case by simp
  next
    case 3
    then show ?case by simp
  }
next
  case (Suc f)
  {
    case 1
    let ?r = "skip_ws (tl s)"
    have "2 * length ?r + 1 < f" if "HasPrefix s [c]" for c
      using 1 HasPrefix_length [OF that] length_skip_ws [of "tl s"] by linarith
    then have "parr (Suc f) (Suc d) ?r = parr f (Suc d) ?r"
      "pobj (Suc f) (Suc d) ?r = pobj f (Suc d) ?r" if "HasPrefix s [c]" for c
      using that Suc.IH(2,3) by blast+
    then show ?case
      by (auto simp: Let_def pval.simps(2) [of "Suc f" d s] pval.simps(2) [of f d s]
          simp del: pval.simps parr.simps pobj.simps)
  next
    case 2
    have v: "pval (Suc f) d s = pval f d s"
      using 2 by (intro Suc.IH(1)) simp
    have "parr (Suc f) d (skip_ws (tl (skip_ws r))) = parr f d (skip_ws (tl (skip_ws r)))"
      if "pval f d s = Some (x, r)" for x r
      using 2 pval_parr_pobj_length(1) [OF that] length_skip_ws [of r]
        length_skip_ws [of "tl (skip_ws r)"] length_tl [of "skip_ws r"]
      by (intro Suc.IH(2)) linarith
    then show ?case
      unfolding parr.simps(2) [of "Suc f" d s] parr.simps(2) [of f d s] v
      by (auto simp: Let_def split: option.splits simp del: pval.simps parr.simps pobj.simps)
  next
    case 3
    show ?case
    proof (cases "HasPrefix s [CHR 0x22]")
      case False
      then show ?thesis by simp
    next
      case quote: True
      show ?thesis
      proof (cases "scan_string (tl s)")
        case None
        with quote show ?thesis by simp
      next
        case (Some p)
        obtain us r where p: "p = (us, r)" by (cases p)
        let ?s2 = "skip_ws (tl (skip_ws r))"
        have s2: "2 * length ?s2 + 2 \<le> 2 * length s"
          using scan_string_length [OF Some [unfolded p]] HasPrefix_length [OF quote]
            length_skip_ws [of r] length_skip_ws [of "tl (skip_ws r)"] length_tl [of "skip_ws r"]
          by linarith
        have v: "pval (Suc f) d ?s2 = pval f d ?s2"
          using 3 s2 by (intro Suc.IH(1)) linarith
        have "pobj (Suc f) d (skip_ws (tl (skip_ws q))) = pobj f d (skip_ws (tl (skip_ws q)))"
          if "pval f d ?s2 = Some (x, q)" for x q
          using 3 s2 pval_parr_pobj_length(1) [OF that] length_skip_ws [of q]
            length_skip_ws [of "tl (skip_ws q)"] length_tl [of "skip_ws q"]
          by (intro Suc.IH(3)) linarith
        with Some p quote v show ?thesis
          unfolding pobj.simps(2) [of "Suc f" d s] pobj.simps(2) [of f d s]
          by (auto simp: Let_def split: option.splits simp del: pval.simps parr.simps pobj.simps)
      qed
    qed
  }
qed

text \<open>More fuel than \<open>json_parse\<close> gives never changes the result.\<close>

lemma pval_fuel: "2 * length s + 1 \<le> f \<Longrightarrow> pval f d s = pval (2 * length s + 1) d s"
proof (induction f)
  case 0
  then show ?case by simp
next
  case (Suc f)
  show ?case
  proof (cases "Suc f = 2 * length s + 1")
    case True
    then show ?thesis by simp
  next
    case False
    with Suc.prems have "2 * length s + 1 \<le> f" by simp
    then show ?thesis
      using Suc.IH pval_parr_pobj_fuel(1) [of s f d] by simp
  qed
qed

text \<open>Symbolic execution of the parser: any number of further units of fuel may be spent.\<close>

lemma json_parse_more:
  "json_parse s =
     (case pval (k + (2 * length (skip_ws s) + 1)) 0 (skip_ws s) of
        None \<Rightarrow> None
      | Some (v, r) \<Rightarrow> if skip_ws r = [] then Some v else None)"
  using pval_fuel [of "skip_ws s" "k + (2 * length (skip_ws s) + 1)" 0]
  by (simp add: json_parse_def Let_def)

lemmas parser_defs = skip_ws_def is_ws_def Let_def scan_scalar_def literals_def

lemma scan_number_digit:
  assumes c: "is_digit c" "c \<noteq> CHR ''0''" "c \<noteq> CHR ''-''" and d: "d \<in> set '',]}''"
  shows "scan_number (c # d # r) = Some ([c], d # r)"
proof -
  have "\<not> is_digit d" "d \<noteq> CHR ''.''" "d \<noteq> CHR ''e''" "d \<noteq> CHR ''E''"
    using d by (auto simp: is_digit_def)
  with c show ?thesis
    by (simp add: scan_number_def scan_int_def scan_digits_def scan_frac_def scan_exp_def)
qed

subsection \<open>Plain strings\<close>

text \<open>A string of printable ASCII characters other than quote and backslash stands for itself.\<close>

definition plain_char :: "char \<Rightarrow> bool" where
  "plain_char c \<longleftrightarrow> c \<noteq> CHR 0x22 \<and> c \<noteq> CHR 0x5C \<and> 0x20 \<le> (of_char c :: int) \<and> (of_char c :: int) < 0x80"

lemma scan_string_plain:
  "list_all plain_char t \<Longrightarrow> scan_string (t @ CHR 0x22 # r) = Some (map SByte t, r)"
  by (induction t) (auto simp: plain_char_def)

lemma unquote_plain: "list_all plain_char t \<Longrightarrow> unquote (map SByte t) = t"
  by (induction t) (auto simp: plain_char_def)

lemma plain_char_digit:
  assumes "0 \<le> d" and "d < 36"
  shows "plain_char (digit_char d)"
proof -
  have of_char: "(of_char (char_of n :: char) :: int) = n" if "0 \<le> n" "n < 256" for n :: int
    using that by (simp add: take_bit_int_eq_self)
  have "(of_char (digit_char d) :: int) = (if d < 10 then 48 + d else 87 + d)"
    using assms of_char [of "if d < 10 then 48 + d else 87 + d"]
    by (simp add: digit_char_def del: of_char_of)
  moreover have "(of_char (CHR 0x22) :: int) = 34" "(of_char (CHR 0x5C) :: int) = 92"
    by simp_all
  ultimately show ?thesis
    using assms unfolding plain_char_def by (auto split: if_splits)
qed

lemma plain_FormatUint:
  assumes "2 \<le> b" and "b \<le> 36" and "0 \<le> n"
  shows "list_all plain_char (FormatUint b n)"
  using assms
proof (induction b n rule: FormatUint.induct)
  case (1 b n)
  show ?case
  proof (cases "n < b")
    case True
    with "1.prems" show ?thesis
      by (subst FormatUint.simps) (simp add: plain_char_digit)
  next
    case False
    moreover have "0 \<le> n mod b" "n mod b < b" using "1.prems" by simp_all
    moreover from this have "plain_char (digit_char (n mod b))"
      using "1.prems" by (intro plain_char_digit) linarith+
    ultimately show ?thesis
      using "1.IH" "1.prems"
      by (subst FormatUint.simps) (simp add: pos_imp_zdiv_nonneg_iff)
  qed
qed

section \<open>Decoding into structs\<close>

text \<open>
  A member is stored in the field whose name is its key, or else in the first field whose name
  equals it up to Unicode case folding; of the non-ASCII runes only the long s and the Kelvin sign
  fold into the ASCII letters field names are made of.
\<close>

fun fold_name :: "string \<Rightarrow> string" where
  "fold_name [] = []"
| "fold_name (c # s) =
     (if HasPrefix (c # s) [CHR 0xC5, CHR 0xBF] then CHR ''s'' # fold_name (drop 1 s)
      else if HasPrefix (c # s) [CHR 0xE2, CHR 0x84, CHR 0xAA] then CHR ''k'' # fold_name (drop 2 s)
      else
        (let n = of_char c :: int in if 65 \<le> n \<and> n \<le> 90 then char_of (n + 32) else c) # fold_name s)"

definition match_field :: "string list \<Rightarrow> string \<Rightarrow> string option" where
  "match_field fs k =
     (if k \<in> set fs then Some k else find (\<lambda>f. fold_name f = fold_name k) fs)"

text \<open>
  \<open>put f raw v x\<close> stores a member into field \<open>f\<close> of \<open>x\<close>, or fails on a type mismatch.
  \<open>json.Unmarshal\<close> goes on after a mismatch and reports it at the end; a caller that looks at the
  error discards the target then, so failing at once is the same.
\<close>

fun decode_members ::
  "string list \<Rightarrow> (string \<Rightarrow> bytes \<Rightarrow> json \<Rightarrow> 'a \<Rightarrow> 'a option) \<Rightarrow> (string \<times> bytes \<times> json) list \<Rightarrow> 'a \<Rightarrow> 'a option" where
  "decode_members fs put [] x = Some x"
| "decode_members fs put ((k, raw, v) # ms) x =
     (case match_field fs k of
        None \<Rightarrow> decode_members fs put ms x
      | Some f \<Rightarrow>
          (case put f raw v x of None \<Rightarrow> None | Some y \<Rightarrow> decode_members fs put ms y))"

definition decode_struct ::
  "string list \<Rightarrow> (string \<Rightarrow> bytes \<Rightarrow> json \<Rightarrow> 'a \<Rightarrow> 'a option) \<Rightarrow> json \<Rightarrow> 'a \<Rightarrow> 'a option" where
  "decode_struct fs put v x =
     (case v of JNull \<Rightarrow> Some x | JObj ms \<Rightarrow> decode_members fs put ms x | _ \<Rightarrow> None)"

definition Unmarshal_struct ::
  "string list \<Rightarrow> (string \<Rightarrow> bytes \<Rightarrow> json \<Rightarrow> 'a \<Rightarrow> 'a option) \<Rightarrow> bytes \<Rightarrow> 'a \<Rightarrow> 'a option" where
  "Unmarshal_struct fs put data x =
     (case json_parse data of None \<Rightarrow> None | Some v \<Rightarrow> decode_struct fs put v x)"

text \<open>
  A caller that ignores the error of \<open>json.Unmarshal\<close> sees what was stored in spite of it: nothing
  if the text is not JSON, and otherwise every member of the right type.
\<close>

fun store_members ::
  "string list \<Rightarrow> (string \<Rightarrow> bytes \<Rightarrow> json \<Rightarrow> 'a \<Rightarrow> 'a) \<Rightarrow> (string \<times> bytes \<times> json) list \<Rightarrow> 'a \<Rightarrow> 'a" where
  "store_members fs put [] x = x"
| "store_members fs put ((k, raw, v) # ms) x =
     (case match_field fs k of
        None \<Rightarrow> store_members fs put ms x
      | Some f \<Rightarrow> store_members fs put ms (put f raw v x))"

definition store_struct ::
  "string list \<Rightarrow> (string \<Rightarrow> bytes \<Rightarrow> json \<Rightarrow> 'a \<Rightarrow> 'a) \<Rightarrow> json \<Rightarrow> 'a \<Rightarrow> 'a" where
  "store_struct fs put v x = (case v of JObj ms \<Rightarrow> store_members fs put ms x | _ \<Rightarrow> x)"

definition Unmarshal_ignore ::
  "string list \<Rightarrow> (string \<Rightarrow> bytes \<Rightarrow> json \<Rightarrow> 'a \<Rightarrow> 'a) \<Rightarrow> bytes \<Rightarrow> 'a \<Rightarrow> 'a" where
  "Unmarshal_ignore fs put data x =
     (case json_parse data of None \<Rightarrow> x | Some v \<Rightarrow> store_struct fs put v x)"

text \<open>\<open>Decoder.Decode\<close> reads the first value of its input and does not look at the rest.\<close>

definition Decode_struct ::
  "string list \<Rightarrow> (string \<Rightarrow> bytes \<Rightarrow> json \<Rightarrow> 'a \<Rightarrow> 'a option) \<Rightarrow> bytes \<Rightarrow> 'a \<Rightarrow> 'a option" where
  "Decode_struct fs put data x =
     (case pval (2 * length (skip_ws data) + 1) 0 (skip_ws data) of
        None \<Rightarrow> None
      | Some (v, r) \<Rightarrow> decode_struct fs put v x)"

text \<open>Decoders of single values; the second argument is the value the target holds already.\<close>

definition decode_string :: "json \<Rightarrow> string \<Rightarrow> string option" where
  "decode_string v old = (case v of JStr s \<Rightarrow> Some s | JNull \<Rightarrow> Some old | _ \<Rightarrow> None)"

definition decode_int :: "json \<Rightarrow> int \<Rightarrow> int option" where
  "decode_int v old = (case v of JNum l \<Rightarrow> ParseInt l | JNull \<Rightarrow> Some old | _ \<Rightarrow> None)"

definition store_string :: "json \<Rightarrow> string \<Rightarrow> string" where
  "store_string v old = (case decode_string v old of None \<Rightarrow> old | Some s \<Rightarrow> s)"

definition store_int :: "json \<Rightarrow> int \<Rightarrow> int" where
  "store_int v old = (case decode_int v old of None \<Rightarrow> old | Some n \<Rightarrow> n)"

definition Unmarshal_string :: "bytes \<Rightarrow> string option" where
  "Unmarshal_string data =
     (case json_parse data of None \<Rightarrow> None | Some v \<Rightarrow> decode_string v [])"

definition Unmarshal_raw_array :: "bytes \<Rightarrow> bytes list option" where
  "Unmarshal_raw_array data =
     (case json_parse data of
        Some (JArr vs) \<Rightarrow> Some (map fst vs)
      | Some JNull \<Rightarrow> Some []
      | _ \<Rightarrow> None)"

section \<open>Encoding\<close>

definition u_escape :: "int \<Rightarrow> string" where
  "u_escape n =
     [CHR 0x5C, CHR ''u'', digit_char (n div 4096), digit_char (n div 256 mod 16),
      digit_char (n div 16 mod 16), digit_char (n mod 16)]"

definition html_char :: "char \<Rightarrow> bool" where
  "html_char c \<longleftrightarrow> c = CHR ''<'' \<or> c = CHR ''>'' \<or> c = CHR ''&''"

definition line_seps :: "string list" where
  "line_seps = [[CHR 0xE2, CHR 0x80, CHR 0xA8], [CHR 0xE2, CHR 0x80, CHR 0xA9]]"

definition encode_ascii :: "char \<Rightarrow> string" where
  "encode_ascii c =
     (if c = CHR 0x22 \<or> c = CHR 0x5C then [CHR 0x5C, c]
      else if c = CHR 0x08 then [CHR 0x5C, CHR ''b'']
      else if c = CHR 0x0C then [CHR 0x5C, CHR ''f'']
      else if c = CHR 0x0A then [CHR 0x5C, CHR ''n'']
      else if c = CHR 0x0D then [CHR 0x5C, CHR ''r'']
      else if c = CHR 0x09 then [CHR 0x5C, CHR ''t'']
      else if (of_char c :: int) < 0x20 \<or> html_char c then u_escape (of_char c)
      else [c])"

fun encode_chars :: "string \<Rightarrow> string" where
  "encode_chars [] = []"
| "encode_chars (c # s) =
     (if (of_char c :: int) < 0x80 then encode_ascii c @ encode_chars s
      else
        (let k = utf8_size (c # s) in
         if k = 0 then u_escape 0xFFFD @ encode_chars s
         else if HasPrefix (c # s) (line_seps ! 0) then u_escape 0x2028 @ encode_chars (drop 2 s)
         else if HasPrefix (c # s) (line_seps ! 1) then u_escape 0x2029 @ encode_chars (drop 2 s)
         else take k (c # s) @ encode_chars (drop (k - 1) s)))"

definition encode_string :: "string \<Rightarrow> bytes" where
  "encode_string s = CHR 0x22 # encode_chars s @ [CHR 0x22]"

text \<open>
  A raw message is encoded compacted: white space outside strings is dropped, and the bytes that are
  special to HTML or JavaScript are escaped; an empty (nil) message is \<open>null\<close>, an invalid
  one an error.  The first argument says whether the position is inside a string.
\<close>

fun squeeze :: "bool \<Rightarrow> string \<Rightarrow> string" where
  "squeeze q [] = []"
| "squeeze q (c # s) =
     (if \<not> q \<and> is_ws c then squeeze q s
      else if html_char c then u_escape (of_char c) @ squeeze q s
      else if HasPrefix (c # s) (line_seps ! 0) then u_escape 0x2028 @ squeeze q (drop 2 s)
      else if HasPrefix (c # s) (line_seps ! 1) then u_escape 0x2029 @ squeeze q (drop 2 s)
      else if c = CHR 0x22 then c # squeeze (\<not> q) s
      else if q \<and> c = CHR 0x5C then c # take 1 s @ squeeze q (drop 1 s)
      else c # squeeze q s)"

definition Marshal_raw :: "bytes \<Rightarrow> bytes option" where
  "Marshal_raw raw =
     (if raw = [] then Some ''null''
      else if json_parse raw = None then None
      else Some (squeeze False raw))"

section \<open>The canonical text of a value\<close>

text \<open>
  \<open>json.Marshal\<close> of what \<open>json.Unmarshal\<close> puts into an \<open>any\<close>: numbers pass through
  \<open>float64\<close>, objects are maps, which are printed in the order of their keys.
\<close>

fun str_less :: "string \<Rightarrow> string \<Rightarrow> bool" where
  "str_less [] t = (t \<noteq> [])"
| "str_less (c # s) [] = False"
| "str_less (c # s) (d # t) =
     ((of_char c :: int) < of_char d \<or> c = d \<and> str_less s t)"

fun ins_key :: "string \<Rightarrow> 'v \<Rightarrow> (string \<times> 'v) list \<Rightarrow> (string \<times> 'v) list" where
  "ins_key k v [] = [(k, v)]"
| "ins_key k v ((k', v') # xs) =
     (if k = k' then (k, v) # xs
      else if str_less k k' then (k, v) # (k', v') # xs
      else (k', v') # ins_key k v xs)"

definition go_map :: "(string \<times> 'v) list \<Rightarrow> (string \<times> 'v) list" where
  "go_map ms = fold (\<lambda>(k, v). ins_key k v) ms []"

fun join :: "string \<Rightarrow> string list \<Rightarrow> string" where
  "join sep [] = []"
| "join sep [x] = x"
| "join sep (x # y # xs) = x @ sep @ join sep (y # xs)"

fun any_text :: "json \<Rightarrow> bytes option"
  and any_elems :: "(bytes \<times> json) list \<Rightarrow> bytes list option"
  and any_members :: "(string \<times> bytes \<times> json) list \<Rightarrow> (string \<times> bytes) list option" where
  "any_text JNull = Some ''null''"
| "any_text (JBool b) = Some (if b then ''true'' else ''false'')"
| "any_text (JNum l) = number_any l"
| "any_text (JStr s) = Some (encode_string s)"
| "any_text (JArr vs) = map_option (\<lambda>xs. ''['' @ join '','' xs @ '']'') (any_elems vs)"
| "any_text (JObj ms) =
     map_option
       (\<lambda>xs. ''{'' @ join '','' (map (\<lambda>(k, x). encode_string k @ '':'' @ x) (go_map xs)) @ ''}'')
       (any_members ms)"
| "any_elems [] = Some []"
| "any_elems ((r, v) # vs) =
     (case any_text v of None \<Rightarrow> None | Some x \<Rightarrow> map_option (\<lambda>xs. x # xs) (any_elems vs))"
| "any_members [] = Some []"
| "any_members ((k, r, v) # ms) =
     (case any_text v of None \<Rightarrow> None | Some x \<Rightarrow> map_option (\<lambda>xs. (k, x) # xs) (any_members ms))"

section \<open>Maps\<close>

abbreviation on_values :: "('a \<Rightarrow> 'b) \<Rightarrow> (string \<times> 'a) list \<Rightarrow> (string \<times> 'b) list" where
  "on_values g \<equiv> map (\<lambda>(k, v). (k, g v))"

lemma ins_key_map: "ins_key k (g v) (on_values g ms) = on_values g (ins_key k v ms)"
  by (induction ms) auto

lemma go_map_map: "go_map (on_values g ms) = on_values g (go_map ms)"
proof -
  have "fold (\<lambda>(k, v). ins_key k v) (on_values g ms) (on_values g acc) =
      on_values g (fold (\<lambda>(k, v). ins_key k v) ms acc)" for acc
    by (induction ms arbitrary: acc) (auto simp: ins_key_map)
  from this [of "[]"] show ?thesis by (simp add: go_map_def)
qed

lemma set_ins_key: "set (ins_key k v ms) \<subseteq> insert (k, v) (set ms)"
  by (induction ms) (auto split: if_splits)

lemma set_go_map: "set (go_map ms) \<subseteq> set ms"
proof -
  have "set (fold (\<lambda>(k, v). ins_key k v) ms acc) \<subseteq> set ms \<union> set acc" for acc :: "(string \<times> 'a) list"
  proof (induction ms arbitrary: acc)
    case (Cons m ms)
    obtain k v where m: "m = (k, v)" by fastforce
    show ?case using Cons [of "ins_key k v acc"] set_ins_key [of k v acc] by (auto simp: m)
  qed simp
  from this [of "[]"] show ?thesis by (simp add: go_map_def)
qed

lemma map_of_ins_key: "map_of (ins_key k v ms) = (map_of ms)(k \<mapsto> v)"
  by (induction ms) (auto simp: fun_eq_iff)

text \<open>Of several members with one name a map keeps the last.\<close>

lemma map_of_go_map: "map_of (go_map ms) = map_of (rev ms)"
proof -
  have "map_of (fold (\<lambda>(k, v). ins_key k v) ms acc) = map_of acc ++ map_of (rev ms)" for acc :: "(string \<times> 'a) list"
    by (induction ms arbitrary: acc) (auto simp: map_of_ins_key fun_eq_iff map_add_def split: option.splits)
  from this [of "[]"] show ?thesis by (simp add: go_map_def)
qed

end
