(* ===== verification/Models.thy ===== *)
theory Models
  imports GoJson
begin

text \<open>
  The JSON-RPC envelopes of internal/models/rpc.go and their decoding and encoding by
  \<open>encoding/json\<close>.  A nil \<open>json.RawMessage\<close> is the empty byte string.
\<close>

record RPCRequest =
  rq_JSONRPC :: string
  rq_Method :: string
  rq_Params :: bytes
  rq_ID :: bytes

record RPCError =
  er_Code :: int
  er_Message :: string
  er_Data :: bytes

record RPCResponse =
  rs_JSONRPC :: string
  rs_Result :: bytes
  rs_Error :: "RPCError option"
  rs_ID :: bytes

definition zero_RPCRequest :: RPCRequest where
  "zero_RPCRequest = \<lparr>rq_JSONRPC = [], rq_Method = [], rq_Params = [], rq_ID = []\<rparr>"

definition zero_RPCError :: RPCError where
  "zero_RPCError = \<lparr>er_Code = 0, er_Message = [], er_Data = []\<rparr>"

definition zero_RPCResponse :: RPCResponse where
  "zero_RPCResponse = \<lparr>rs_JSONRPC = [], rs_Result = [], rs_Error = None, rs_ID = []\<rparr>"

definition put_RPCRequest :: "string \<Rightarrow> bytes \<Rightarrow> json \<Rightarrow> RPCRequest \<Rightarrow> RPCRequest option" where
  "put_RPCRequest f raw v x =
     (if f = ''jsonrpc'' then
        map_option (\<lambda>s. x\<lparr>rq_JSONRPC := s\<rparr>) (decode_string v (rq_JSONRPC x))
      else if f = ''method'' then
        map_option (\<lambda>s. x\<lparr>rq_Method := s\<rparr>) (decode_string v (rq_Method x))
      else if f = ''params'' then Some (x\<lparr>rq_Params := raw\<rparr>)
      else Some (x\<lparr>rq_ID := raw\<rparr>))"

definition Unmarshal_RPCRequest :: "bytes \<Rightarrow> RPCRequest option" where
  "Unmarshal_RPCRequest data =
     Unmarshal_struct [''jsonrpc'', ''method'', ''params'', ''id''] put_RPCRequest data
       zero_RPCRequest"

definition put_RPCError :: "string \<Rightarrow> bytes \<Rightarrow> json \<Rightarrow> RPCError \<Rightarrow> RPCError option" where
  "put_RPCError f raw v x =
     (if f = ''code'' then map_option (\<lambda>n. x\<lparr>er_Code := n\<rparr>) (decode_int v (er_Code x))
      else if f = ''message'' then
        map_option (\<lambda>s. x\<lparr>er_Message := s\<rparr>) (decode_string v (er_Message x))
      else Some (x\<lparr>er_Data := raw\<rparr>))"

text \<open>A pointer field: \<open>null\<close> makes it nil, an object fills the (possibly new) target.\<close>

definition decode_RPCError :: "json \<Rightarrow> RPCError option \<Rightarrow> RPCError option option" where
  "decode_RPCError v old =
     (case v of
        JNull \<Rightarrow> Some None
      | JObj ms \<Rightarrow>
          map_option Some
            (decode_members [''code'', ''message'', ''data''] put_RPCError ms
               (case old of None \<Rightarrow> zero_RPCError | Some e \<Rightarrow> e))
      | _ \<Rightarrow> None)"

definition put_RPCResponse :: "string \<Rightarrow> bytes \<Rightarrow> json \<Rightarrow> RPCResponse \<Rightarrow> RPCResponse option" where
  "put_RPCResponse f raw v x =
     (if f = ''jsonrpc'' then
        map_option (\<lambda>s. x\<lparr>rs_JSONRPC := s\<rparr>) (decode_string v (rs_JSONRPC x))
      else if f = ''result'' then Some (x\<lparr>rs_Result := raw\<rparr>)
      else if f = ''error'' then
        map_option (\<lambda>e. x\<lparr>rs_Error := e\<rparr>) (decode_RPCError v (rs_Error x))
      else Some (x\<lparr>rs_ID := raw\<rparr>))"

definition Unmarshal_RPCResponse :: "bytes \<Rightarrow> RPCResponse option" where
  "Unmarshal_RPCResponse data =
     Unmarshal_struct [''jsonrpc'', ''result'', ''error'', ''id''] put_RPCResponse data
       zero_RPCResponse"

text \<open>Encoding, with \<open>omitempty\<close> on \<open>result\<close>, \<open>error\<close> and \<open>data\<close>.\<close>

definition json_member :: "string \<Rightarrow> bytes \<Rightarrow> bytes" where
  "json_member k v = encode_string k @ '':'' @ v"

definition opt_raw_member :: "string \<Rightarrow> bytes \<Rightarrow> bytes list option" where
  "opt_raw_member k raw =
     (if raw = [] then Some [] else map_option (\<lambda>v. [json_member k v]) (Marshal_raw raw))"

definition Marshal_RPCError :: "RPCError \<Rightarrow> bytes option" where
  "Marshal_RPCError e =
     (case opt_raw_member ''data'' (er_Data e) of
        None \<Rightarrow> None
      | Some d \<Rightarrow>
          Some (''{'' @ join '',''
            ([json_member ''code'' (Itoa (er_Code e)),
              json_member ''message'' (encode_string (er_Message e))] @ d) @ ''}''))"

definition Marshal_RPCResponse :: "RPCResponse \<Rightarrow> bytes option" where
  "Marshal_RPCResponse r =
     (case opt_raw_member ''result'' (rs_Result r) of
        None \<Rightarrow> None
      | Some res \<Rightarrow>
          (case (case rs_Error r of
                   None \<Rightarrow> Some []
                 | Some e \<Rightarrow> map_option (\<lambda>v. [json_member ''error'' v]) (Marshal_RPCError e)) of
             None \<Rightarrow> None
           | Some err \<Rightarrow>
               (case Marshal_raw (rs_ID r) of
                  None \<Rightarrow> None
                | Some i \<Rightarrow>
                    Some (''{'' @ join '',''
                      ([json_member ''jsonrpc'' (encode_string (rs_JSONRPC r))] @ res @ err @
                       [json_member ''id'' i]) @ ''}''))))"

end
