(* ===== verification/WsSession.thy ===== *)
theory WsSession
  imports Models "HOL-Library.AList" "HOL-Library.Multiset"
begin

text \<open>
  The state of one virtual WebSocket session and the handlers that change it
  (internal/proxy/ws.go): tracking of subscriptions, rewriting of subscription ids in both
  directions, and the replay of subscriptions on a fresh upstream connection.  The three Go maps are
  association lists with distinct keys; the subscription objects are reached through \<open>subs\<close> alone,
  so they are stored in it.  What is written to a connection is a result of the handlers; whether
  the write succeeds is the environment's choice (theory \<open>WsRun\<close>).
\<close>

section \<open>State\<close>

record subscription =
  sub_params :: bytes
  sub_clientID :: string
  sub_upstreamID :: string

record frame =
  fr_mt :: int
  fr_msg :: bytes

record wsSession =
  ws_subs :: "(string \<times> subscription) list"
  ws_upToClient :: "(string \<times> string) list"
  ws_pending :: "(string \<times> bytes) list"
  ws_pingPeriod :: duration
  ws_pongWait :: duration
  ws_replayPendingCap :: int

definition upstreamPingPeriod :: duration where
  "upstreamPingPeriod = 30 * Second"

definition upstreamPongWait :: duration where
  "upstreamPongWait = 10 * Second"

definition newWSSession :: "int \<Rightarrow> wsSession" where
  "newWSSession cap =
     \<lparr>ws_subs = [], ws_upToClient = [], ws_pending = [], ws_pingPeriod = upstreamPingPeriod,
      ws_pongWait = upstreamPongWait, ws_replayPendingCap = cap\<rparr>"

definition maxPendingSubscribes :: int where
  "maxPendingSubscribes = 1024"

section \<open>Client to upstream\<close>

record ws_request =
  wq_ID :: bytes
  wq_Method :: string
  wq_Params :: bytes

definition put_ws_request :: "string \<Rightarrow> bytes \<Rightarrow> json \<Rightarrow> ws_request \<Rightarrow> ws_request option" where
  "put_ws_request f raw v x =
     (if f = ''id'' then Some (x\<lparr>wq_ID := raw\<rparr>)
      else if f = ''method'' then
        map_option (\<lambda>s. x\<lparr>wq_Method := s\<rparr>) (decode_string v (wq_Method x))
      else Some (x\<lparr>wq_Params := raw\<rparr>))"

definition Unmarshal_ws_request :: "bytes \<Rightarrow> ws_request option" where
  "Unmarshal_ws_request msg =
     Unmarshal_struct [''id'', ''method'', ''params''] put_ws_request msg
       \<lparr>wq_ID = [], wq_Method = [], wq_Params = []\<rparr>"

definition buildErrorResponse :: "bytes \<Rightarrow> string \<Rightarrow> bytes" where
  "buildErrorResponse i message =
     (case Marshal_raw (if i = [] then ''null'' else i) of
        None \<Rightarrow>
          ''{\"jsonrpc\":\"2.0\",\"id\":null,\"error\":{\"code\":-32000,\"message\":\"internal error\"}}''
      | Some v \<Rightarrow>
          ''{\"error\":{\"code\":-32000,\"message\":'' @ encode_string message @ ''},\"id\":'' @ v @
          '',\"jsonrpc\":\"2.0\"}'')"

text \<open>The request an \<open>eth_unsubscribe\<close> is decoded into; \<open>params\<close> is a slice of strings.\<close>

record ws_unsubscribe =
  un_JSONRPC :: string
  un_ID :: bytes
  un_Method :: string
  un_Params :: "string list"

fun decode_strings :: "(bytes \<times> json) list \<Rightarrow> string list \<Rightarrow> string list option" where
  "decode_strings [] old = Some []"
| "decode_strings ((raw, v) # vs) old =
     (case decode_string v (case old of [] \<Rightarrow> [] | s # _ \<Rightarrow> s) of
        None \<Rightarrow> None
      | Some s \<Rightarrow> map_option (\<lambda>ss. s # ss) (decode_strings vs (drop 1 old)))"

definition decode_string_slice :: "json \<Rightarrow> string list \<Rightarrow> string list option" where
  "decode_string_slice v old =
     (case v of JNull \<Rightarrow> Some [] | JArr vs \<Rightarrow> decode_strings vs old | _ \<Rightarrow> None)"

definition put_ws_unsubscribe :: "string \<Rightarrow> bytes \<Rightarrow> json \<Rightarrow> ws_unsubscribe \<Rightarrow> ws_unsubscribe option" where
  "put_ws_unsubscribe f raw v x =
     (if f = ''jsonrpc'' then
        map_option (\<lambda>s. x\<lparr>un_JSONRPC := s\<rparr>) (decode_string v (un_JSONRPC x))
      else if f = ''id'' then Some (x\<lparr>un_ID := raw\<rparr>)
      else if f = ''method'' then
        map_option (\<lambda>s. x\<lparr>un_Method := s\<rparr>) (decode_string v (un_Method x))
      else map_option (\<lambda>ps. x\<lparr>un_Params := ps\<rparr>) (decode_string_slice v (un_Params x)))"

definition Unmarshal_ws_unsubscribe :: "bytes \<Rightarrow> ws_unsubscribe option" where
  "Unmarshal_ws_unsubscribe msg =
     Unmarshal_struct [''jsonrpc'', ''id'', ''method'', ''params''] put_ws_unsubscribe msg
       \<lparr>un_JSONRPC = [], un_ID = [], un_Method = [], un_Params = []\<rparr>"

definition Marshal_ws_unsubscribe :: "ws_unsubscribe \<Rightarrow> bytes option" where
  "Marshal_ws_unsubscribe x =
     map_option
       (\<lambda>i. ''{'' @ join '',''
          [json_member ''jsonrpc'' (encode_string (un_JSONRPC x)), json_member ''id'' i,
           json_member ''method'' (encode_string (un_Method x)),
           json_member ''params'' (''['' @ join '','' (map encode_string (un_Params x)) @ '']'')] @ ''}'')
       (Marshal_raw (un_ID x))"

definition rewriteUnsubscribe :: "bytes \<Rightarrow> wsSession \<Rightarrow> bytes \<times> wsSession" where
  "rewriteUnsubscribe msg s =
     (case Unmarshal_ws_unsubscribe msg of
        None \<Rightarrow> (msg, s)
      | Some req \<Rightarrow>
          if un_Params req = [] then (msg, s)
          else
            (let clientID = hd (un_Params req) in
             case map_of (ws_subs s) clientID of
               None \<Rightarrow> (msg, s)
             | Some sub \<Rightarrow>
                 (let s' = s\<lparr>ws_upToClient := AList.delete (sub_upstreamID sub) (ws_upToClient s),
                             ws_subs := AList.delete clientID (ws_subs s)\<rparr> in
                  if sub_upstreamID sub = clientID then (msg, s')
                  else
                    (case Marshal_ws_unsubscribe
                            (req\<lparr>un_Params := sub_upstreamID sub # tl (un_Params req)\<rparr>) of
                       None \<Rightarrow> (msg, s')
                     | Some rewritten \<Rightarrow> (rewritten, s')))))"

text \<open>Where a frame of the client goes: to the upstream, or an answer straight back.\<close>

datatype routed = ToUpstream frame | ToClient frame

definition forwardToUpstream :: "frame \<Rightarrow> wsSession \<Rightarrow> routed \<times> wsSession" where
  "forwardToUpstream f s =
     (case Unmarshal_ws_request (fr_msg f) of
        None \<Rightarrow> (ToUpstream f, s)
      | Some req \<Rightarrow>
          if wq_Method req = ''eth_subscribe'' then
            (if maxPendingSubscribes \<le> int (length (ws_pending s)) then
               (ToClient \<lparr>fr_mt = fr_mt f,
                          fr_msg = buildErrorResponse (wq_ID req) ''too many pending subscriptions''\<rparr>, s)
             else (ToUpstream f, s\<lparr>ws_pending := AList.update (wq_ID req) (wq_Params req) (ws_pending s)\<rparr>))
          else if wq_Method req = ''eth_unsubscribe'' then
            (let (msg, s') = rewriteUnsubscribe (fr_msg f) s in (ToUpstream (f\<lparr>fr_msg := msg\<rparr>), s'))
          else (ToUpstream f, s))"

section \<open>Upstream to client\<close>

record ws_envelope =
  we_ID :: bytes
  we_Result :: bytes
  we_Method :: string
  we_Params :: "string option"

definition put_ws_params :: "string \<Rightarrow> bytes \<Rightarrow> json \<Rightarrow> string \<Rightarrow> string option" where
  "put_ws_params f raw v x = decode_string v x"

definition put_ws_envelope :: "string \<Rightarrow> bytes \<Rightarrow> json \<Rightarrow> ws_envelope \<Rightarrow> ws_envelope option" where
  "put_ws_envelope f raw v x =
     (if f = ''id'' then Some (x\<lparr>we_ID := raw\<rparr>)
      else if f = ''result'' then Some (x\<lparr>we_Result := raw\<rparr>)
      else if f = ''method'' then
        map_option (\<lambda>s. x\<lparr>we_Method := s\<rparr>) (decode_string v (we_Method x))
      else
        (case v of
           JNull \<Rightarrow> Some (x\<lparr>we_Params := None\<rparr>)
         | JObj ms \<Rightarrow>
             map_option (\<lambda>p. x\<lparr>we_Params := Some p\<rparr>)
               (decode_members [''subscription''] put_ws_params ms
                  (case we_Params x of None \<Rightarrow> [] | Some p \<Rightarrow> p))
         | _ \<Rightarrow> None))"

definition Unmarshal_ws_envelope :: "bytes \<Rightarrow> ws_envelope option" where
  "Unmarshal_ws_envelope msg =
     Unmarshal_struct [''id'', ''result'', ''method'', ''params''] put_ws_envelope msg
       \<lparr>we_ID = [], we_Result = [], we_Method = [], we_Params = None\<rparr>"

text \<open>A \<open>map[string]json.RawMessage\<close>; \<open>None\<close> inside is the nil map a JSON \<open>null\<close> leaves.\<close>

definition Unmarshal_raw_map :: "bytes \<Rightarrow> (string \<times> bytes) list option option" where
  "Unmarshal_raw_map data =
     (case json_parse data of
        Some (JObj ms) \<Rightarrow> Some (Some (go_map (map (\<lambda>(k, raw, v). (k, raw)) ms)))
      | Some JNull \<Rightarrow> Some None
      | _ \<Rightarrow> None)"

fun raw_members :: "(string \<times> bytes) list \<Rightarrow> bytes list option" where
  "raw_members [] = Some []"
| "raw_members ((k, raw) # ms) =
     (case Marshal_raw raw of
        None \<Rightarrow> None
      | Some v \<Rightarrow> map_option (\<lambda>xs. json_member k v # xs) (raw_members ms))"

definition Marshal_raw_map :: "(string \<times> bytes) list \<Rightarrow> bytes option" where
  "Marshal_raw_map m = map_option (\<lambda>xs. ''{'' @ join '','' xs @ ''}'') (raw_members m)"

text \<open>
  The subscription id of a notification is replaced; \<open>None\<close> is the run-time panic of an assignment to
  a nil map.
\<close>

definition rewriteNotification :: "bytes \<Rightarrow> string \<Rightarrow> bytes option" where
  "rewriteNotification msg clientID =
     (case Unmarshal_raw_map msg of
        Some (Some notif) \<Rightarrow>
          (case Unmarshal_raw_map (case map_of notif ''params'' of None \<Rightarrow> [] | Some raw \<Rightarrow> raw) of
             None \<Rightarrow> Some msg
           | Some None \<Rightarrow> None
           | Some (Some params) \<Rightarrow>
               (let params' = ins_key ''subscription'' (encode_string clientID) params;
                    raw' = (case Marshal_raw_map params' of None \<Rightarrow> [] | Some r \<Rightarrow> r) in
                case Marshal_raw_map (ins_key ''params'' raw' notif) of
                  None \<Rightarrow> Some msg
                | Some rewritten \<Rightarrow> Some rewritten))
      | Some None \<Rightarrow> Some msg
      | None \<Rightarrow> Some msg)"

definition register :: "string \<Rightarrow> bytes \<Rightarrow> wsSession \<Rightarrow> wsSession" where
  "register upstreamID params s =
     s\<lparr>ws_subs := AList.update upstreamID
          \<lparr>sub_params = params, sub_clientID = upstreamID, sub_upstreamID = upstreamID\<rparr> (ws_subs s),
       ws_upToClient := AList.update upstreamID upstreamID (ws_upToClient s)\<rparr>"

definition settle :: "bytes \<Rightarrow> bytes \<Rightarrow> wsSession \<Rightarrow> wsSession" where
  "settle rawID result s =
     (case map_of (ws_pending s) rawID of
        None \<Rightarrow> s
      | Some params \<Rightarrow>
          (let s' = s\<lparr>ws_pending := AList.delete rawID (ws_pending s)\<rparr> in
           case Unmarshal_string result of
             None \<Rightarrow> s'
           | Some upstreamID \<Rightarrow> if upstreamID = [] then s' else register upstreamID params s'))"

text \<open>The frame written to the client (\<open>None\<close> after a panic) and the new state.\<close>

definition forwardToClient :: "frame \<Rightarrow> wsSession \<Rightarrow> frame option \<times> wsSession" where
  "forwardToClient f s =
     (case Unmarshal_ws_envelope (fr_msg f) of
        None \<Rightarrow> (Some f, s)
      | Some envelope \<Rightarrow>
          (case (we_Method envelope = ''eth_subscription'', we_Params envelope) of
             (True, Some upID) \<Rightarrow>
               (case map_of (ws_upToClient s) upID of
                  None \<Rightarrow> (Some f, s)
                | Some clientID \<Rightarrow>
                    if clientID = upID then (Some f, s)
                    else
                      (map_option (\<lambda>msg. f\<lparr>fr_msg := msg\<rparr>) (rewriteNotification (fr_msg f) clientID), s))
           | _ \<Rightarrow>
               if we_ID envelope \<noteq> [] then (Some f, settle (we_ID envelope) (we_Result envelope) s)
               else (Some f, s)))"

section \<open>Replay\<close>

definition replay_id :: "string \<Rightarrow> string" where
  "replay_id clientID = ''replay:'' @ clientID"

text \<open>\<open>json.Marshal\<close> of a map prints the keys in order.\<close>

definition replay_request :: "subscription \<Rightarrow> bytes option" where
  "replay_request sub =
     map_option
       (\<lambda>ps. ''{'' @ join '',''
          [json_member ''id'' (encode_string (replay_id (sub_clientID sub))),
           json_member ''jsonrpc'' (encode_string ''2.0''),
           json_member ''method'' (encode_string ''eth_subscribe''), json_member ''params'' ps] @ ''}'')
       (Marshal_raw (sub_params sub))"

record ws_reply =
  wr_ID :: bytes
  wr_Result :: string
  wr_Err :: bytes

definition put_ws_reply :: "string \<Rightarrow> bytes \<Rightarrow> json \<Rightarrow> ws_reply \<Rightarrow> ws_reply option" where
  "put_ws_reply f raw v x =
     (if f = ''id'' then Some (x\<lparr>wr_ID := raw\<rparr>)
      else if f = ''result'' then
        map_option (\<lambda>s. x\<lparr>wr_Result := s\<rparr>) (decode_string v (wr_Result x))
      else Some (x\<lparr>wr_Err := raw\<rparr>))"

definition Unmarshal_ws_reply :: "bytes \<Rightarrow> ws_reply option" where
  "Unmarshal_ws_reply msg =
     Unmarshal_struct [''id'', ''result'', ''error''] put_ws_reply msg
       \<lparr>wr_ID = [], wr_Result = [], wr_Err = []\<rparr>"

datatype replay_error =
    MarshalReplay string
  | WriteReplay
  | ReadReplay
  | ReplayRejected string bytes
  | ReplayUnexpected bytes

definition stash :: "wsSession \<Rightarrow> frame \<Rightarrow> frame list \<Rightarrow> frame list" where
  "stash s f pendingFrames =
     (if ws_replayPendingCap s \<le> int (length pendingFrames) then pendingFrames
      else pendingFrames @ [f])"

definition remap :: "subscription \<Rightarrow> string \<Rightarrow> wsSession \<Rightarrow> wsSession" where
  "remap sub newID s =
     s\<lparr>ws_upToClient :=
          AList.update newID (sub_clientID sub) (AList.delete (sub_upstreamID sub) (ws_upToClient s)),
       ws_subs := AList.update (sub_clientID sub) (sub\<lparr>sub_upstreamID := newID\<rparr>) (ws_subs s)\<rparr>"

text \<open>Sending: \<open>ok\<close> says which of the writes to the upstream succeed.\<close>

fun replay_send :: "bool list \<Rightarrow> subscription list \<Rightarrow> (string \<times> subscription) list \<Rightarrow> bytes list \<Rightarrow>
    replay_error + ((string \<times> subscription) list \<times> bytes list)" where
  "replay_send ok [] pendingReplay sent = Inr (pendingReplay, sent)"
| "replay_send ok (sub # subs) pendingReplay sent =
     (case replay_request sub of
        None \<Rightarrow> Inl (MarshalReplay (sub_clientID sub))
      | Some req \<Rightarrow>
          (case ok of
             True # ok' \<Rightarrow>
               replay_send ok' subs (AList.update (replay_id (sub_clientID sub)) sub pendingReplay)
                 (sent @ [req])
           | _ \<Rightarrow> Inl WriteReplay))"

text \<open>Receiving: the frames the upstream delivers; at the end of the list reading fails.\<close>

fun replay_recv :: "frame list \<Rightarrow> (string \<times> subscription) list \<Rightarrow> frame list \<Rightarrow> wsSession \<Rightarrow>
    (replay_error + frame list) \<times> wsSession" where
  "replay_recv fs pendingReplay pendingFrames s =
     (if pendingReplay = [] then (Inr pendingFrames, s)
      else
        (case fs of
           [] \<Rightarrow> (Inl ReadReplay, s)
         | f # fs' \<Rightarrow>
             (case Unmarshal_ws_reply (fr_msg f) of
                None \<Rightarrow> replay_recv fs' pendingReplay (stash s f pendingFrames) s
              | Some resp \<Rightarrow>
                  (case Unmarshal_string (wr_ID resp) of
                     None \<Rightarrow> replay_recv fs' pendingReplay (stash s f pendingFrames) s
                   | Some idStr \<Rightarrow>
                       (case map_of pendingReplay idStr of
                          None \<Rightarrow> replay_recv fs' pendingReplay (stash s f pendingFrames) s
                        | Some sub \<Rightarrow>
                            if wr_Err resp \<noteq> [] \<and> wr_Err resp \<noteq> ''null''
                            then (Inl (ReplayRejected (sub_clientID sub) (wr_Err resp)), s)
                            else if wr_Result resp = [] then (Inl (ReplayUnexpected (fr_msg f)), s)
                            else
                              replay_recv fs' (AList.delete idStr pendingReplay) pendingFrames
                                (remap sub (wr_Result resp) s))))))"

declare replay_recv.simps [simp del]

text \<open>\<open>order\<close> is the order in which the range statement yields the subscriptions.\<close>

definition replaySubscriptions :: "subscription list \<Rightarrow> bool list \<Rightarrow> frame list \<Rightarrow> wsSession \<Rightarrow>
    (replay_error + frame list) \<times> wsSession" where
  "replaySubscriptions order ok fs s =
     (if order = [] then (Inr [], s)
      else
        (case replay_send ok order [] [] of
           Inl e \<Rightarrow> (Inl e, s)
         | Inr (pendingReplay, sent) \<Rightarrow> replay_recv fs pendingReplay [] s))"

definition replay_order :: "wsSession \<Rightarrow> subscription list \<Rightarrow> bool" where
  "replay_order s order \<longleftrightarrow> mset order = mset (map snd (ws_subs s))"

definition httpToWS :: "string \<Rightarrow> string" where
  "httpToWS u =
     (if HasPrefix u ''https://'' then ''wss://'' @ drop 8 u
      else if HasPrefix u ''http://'' then ''ws://'' @ drop 7 u
      else u)"

section \<open>Invariant\<close>

text \<open>
  Keys are distinct, a subscription is stored under the id its client knows, and the number of
  subscribe requests without an answer is bounded.
\<close>

definition ws_inv :: "wsSession \<Rightarrow> bool" where
  "ws_inv s \<longleftrightarrow>
     distinct (map fst (ws_subs s)) \<and> distinct (map fst (ws_upToClient s)) \<and>
     distinct (map fst (ws_pending s)) \<and>
     (\<forall>(k, sub) \<in> set (ws_subs s). sub_clientID sub = k) \<and>
     int (length (ws_pending s)) \<le> maxPendingSubscribes"

lemma set_update_subset: "set (AList.update k v al) \<subseteq> insert (k, v) (set al)"
  by (induction al) auto

lemma set_delete_subset: "set (AList.delete k al) \<subseteq> set al"
  by (auto simp: AList.delete_eq)

lemma length_update:
  "length (AList.update k v al) \<le> Suc (length al)"
  by (induction al) auto

lemma newWSSession_inv: "ws_inv (newWSSession cap)"
  by (simp add: ws_inv_def newWSSession_def maxPendingSubscribes_def)

lemma ws_inv_subs_delete:
  assumes "ws_inv s"
  shows "ws_inv (s\<lparr>ws_upToClient := AList.delete u (ws_upToClient s),
                   ws_subs := AList.delete c (ws_subs s)\<rparr>)"
  using assms set_delete_subset [of c "ws_subs s"]
  by (auto simp: ws_inv_def distinct_delete)

lemma ws_inv_pending_delete:
  assumes "ws_inv s"
  shows "ws_inv (s\<lparr>ws_pending := AList.delete r (ws_pending s)\<rparr>)"
  using assms length_delete_le [of r "ws_pending s"]
  by (auto simp: ws_inv_def distinct_delete)

lemma ws_inv_register: "ws_inv s \<Longrightarrow> ws_inv (register u ps s)"
  using set_update_subset [of u _ "ws_subs s"]
  by (fastforce simp: ws_inv_def register_def distinct_update)

lemma ws_inv_remap:
  assumes "ws_inv s"
  shows "ws_inv (remap sub n s)"
  using assms set_update_subset [of "sub_clientID sub" _ "ws_subs s"]
  by (fastforce simp: ws_inv_def remap_def distinct_update distinct_delete)

lemma ws_inv_settle: "ws_inv s \<Longrightarrow> ws_inv (settle r res s)"
  by (auto simp: settle_def Let_def ws_inv_pending_delete ws_inv_register split: option.splits)

lemma forwardToClient_inv: "ws_inv s \<Longrightarrow> ws_inv (snd (forwardToClient f s))"
  by (auto simp: forwardToClient_def ws_inv_settle split: option.splits bool.splits)

lemma rewriteUnsubscribe_inv: "ws_inv s \<Longrightarrow> ws_inv (snd (rewriteUnsubscribe msg s))"
  by (auto simp: rewriteUnsubscribe_def Let_def ws_inv_subs_delete split: option.splits)

lemma forwardToUpstream_inv:
  assumes "ws_inv s"
  shows "ws_inv (snd (forwardToUpstream f s))"
proof -
  have "ws_inv (s\<lparr>ws_pending := AList.update i ps (ws_pending s)\<rparr>)"
    if "int (length (ws_pending s)) < maxPendingSubscribes" for i ps
    using assms that length_update [of i ps "ws_pending s"]
    by (auto simp: ws_inv_def distinct_update)
  then show ?thesis
    using assms rewriteUnsubscribe_inv [OF assms]
    by (auto simp: forwardToUpstream_def split: option.splits prod.splits)
       (metis snd_conv)
qed

lemma remap_cap [simp]: "ws_replayPendingCap (remap sub n s) = ws_replayPendingCap s"
  by (simp add: remap_def)

section \<open>Replay\<close>

lemma replay_id_inj [simp]: "replay_id c = replay_id c' \<longleftrightarrow> c = c'"
  by (simp add: replay_id_def)

lemma update_fresh: "k \<notin> fst ` set al \<Longrightarrow> AList.update k v al = al @ [(k, v)]"
  by (induction al) auto

lemma replay_send_pending:
  assumes "replay_send ok order pr sent = Inr (pr', sent')"
    and "distinct (map sub_clientID order)"
    and "\<forall>sub \<in> set order. replay_id (sub_clientID sub) \<notin> fst ` set pr"
  shows "pr' = pr @ map (\<lambda>sub. (replay_id (sub_clientID sub), sub)) order"
  using assms
proof (induction ok order pr sent rule: replay_send.induct)
  case (1 ok pr sent)
  then show ?case by simp
next
  case (2 ok sub order pr sent)
  from "2.prems"(1) obtain req ok' where req: "replay_request sub = Some req" "ok = True # ok'"
      and rest: "replay_send ok' order (AList.update (replay_id (sub_clientID sub)) sub pr)
        (sent @ [req]) = Inr (pr', sent')"
    by (auto split: option.splits list.splits bool.splits)
  have up: "AList.update (replay_id (sub_clientID sub)) sub pr =
      pr @ [(replay_id (sub_clientID sub), sub)]"
    using "2.prems"(3) by (simp add: update_fresh)
  have "pr' = AList.update (replay_id (sub_clientID sub)) sub pr @
      map (\<lambda>sub. (replay_id (sub_clientID sub), sub)) order"
  proof (rule "2.IH" [OF req(1,2) _ rest])
    show "\<forall>x \<in> set order. replay_id (sub_clientID x) \<notin>
        fst ` set (AList.update (replay_id (sub_clientID sub)) sub pr)"
      using "2.prems"(2,3) by (auto simp: up image_iff)
  qed (use "2.prems"(2) in simp_all)
  with up show ?case by simp
qed

text \<open>A property that survives every accepted reply holds at the end.\<close>

lemma replay_recv_invariant:
  assumes "replay_recv fs pr pf s = (res, s')" and "P pr s"
    and "\<And>pr s i sub n. P pr s \<Longrightarrow> map_of pr i = Some sub \<Longrightarrow> n \<noteq> [] \<Longrightarrow>
           P (AList.delete i pr) (remap sub n s)"
  shows "\<exists>pr'. P pr' s' \<and> (\<forall>frames. res = Inr frames \<longrightarrow> pr' = [])"
  using assms(1,2)
proof (induction fs pr pf s rule: replay_recv.induct)
  case (1 fs pr pf s)
  show ?case
  proof (cases "pr = []")
    case True
    with "1.prems" show ?thesis by (subst (asm) replay_recv.simps) auto
  next
    case False
    with 1 assms(3) show ?thesis
      by (subst (asm) (3) replay_recv.simps) (auto split: list.splits option.splits if_splits)
  qed
qed

text \<open>
  During the replay: the subscriptions still waiting are those in \<open>pr\<close>, as they were at its start
  (state \<open>s0\<close>); for the others the new id leads to the client's, unless the upstream gave an id
  twice or gave an id that another subscription had before.
\<close>

definition replied :: "(string \<times> subscription) list \<Rightarrow> string \<Rightarrow> bool" where
  "replied pr c \<longleftrightarrow> replay_id c \<notin> fst ` set pr"

definition fresh_ids :: "wsSession \<Rightarrow> (string \<times> subscription) list \<Rightarrow> wsSession \<Rightarrow> bool" where
  "fresh_ids s0 pr s \<longleftrightarrow>
     (\<forall>c sub c' sub'. map_of (ws_subs s) c = Some sub \<longrightarrow> replied pr c \<longrightarrow> c' \<noteq> c \<longrightarrow>
        (map_of (ws_subs s0) c' = Some sub' \<longrightarrow> sub_upstreamID sub \<noteq> sub_upstreamID sub') \<and>
        (map_of (ws_subs s) c' = Some sub' \<longrightarrow> replied pr c' \<longrightarrow>
           sub_upstreamID sub \<noteq> sub_upstreamID sub'))"

lemma fresh_idsD:
  assumes "fresh_ids s0 pr s" and "map_of (ws_subs s) c = Some sub" and "replied pr c" and "c' \<noteq> c"
  shows "map_of (ws_subs s0) c' = Some sub' \<Longrightarrow> sub_upstreamID sub \<noteq> sub_upstreamID sub'"
    and "map_of (ws_subs s) c' = Some sub' \<Longrightarrow> replied pr c' \<Longrightarrow>
           sub_upstreamID sub \<noteq> sub_upstreamID sub'"
  using assms unfolding fresh_ids_def by blast+

definition replay_inv :: "wsSession \<Rightarrow> (string \<times> subscription) list \<Rightarrow> wsSession \<Rightarrow> bool" where
  "replay_inv s0 pr s \<longleftrightarrow>
     (\<forall>(r, sub) \<in> set pr. r = replay_id (sub_clientID sub) \<and>
        map_of (ws_subs s) (sub_clientID sub) = Some sub \<and>
        map_of (ws_subs s0) (sub_clientID sub) = Some sub) \<and>
     (\<forall>c. map_option sub_params (map_of (ws_subs s) c) =
          map_option sub_params (map_of (ws_subs s0) c)) \<and>
     (fresh_ids s0 pr s \<longrightarrow>
        (\<forall>c sub. map_of (ws_subs s) c = Some sub \<longrightarrow> replied pr c \<longrightarrow>
           map_of (ws_upToClient s) (sub_upstreamID sub) = Some c))"

lemma remap_subs:
  "map_of (ws_subs (remap sub n s)) =
     (map_of (ws_subs s))(sub_clientID sub \<mapsto> sub\<lparr>sub_upstreamID := n\<rparr>)"
  "map_of (ws_upToClient (remap sub n s)) =
     ((map_of (ws_upToClient s))(sub_upstreamID sub := None))(n \<mapsto> sub_clientID sub)"
  by (simp_all add: remap_def update_conv' delete_conv')

lemma replied_delete:
  "replied (AList.delete (replay_id c) pr) c' \<longleftrightarrow> c' = c \<or> replied pr c'"
  by (auto simp: replied_def AList.delete_eq)

lemma replay_inv_remap:
  assumes inv: "replay_inv s0 pr s" and i: "map_of pr i = Some sub"
  shows "replay_inv s0 (AList.delete i pr) (remap sub n s)"
proof -
  let ?c = "sub_clientID sub" and ?s = "remap sub n s" and ?pr = "AList.delete i pr"
  have "(i, sub) \<in> set pr" using i by (rule map_of_SomeD)
  with inv have ri: "i = replay_id ?c" and cur: "map_of (ws_subs s) ?c = Some sub"
      and old: "map_of (ws_subs s0) ?c = Some sub"
    by (auto simp: replay_inv_def)
  have waiting: "\<not> replied pr ?c"
    using \<open>(i, sub) \<in> set pr\<close> ri by (force simp: replied_def)
  have "fst x \<noteq> i" if "x \<in> set ?pr" for x
    using that by (auto simp: AList.delete_eq)
  then have 1: "r = replay_id (sub_clientID x) \<and> map_of (ws_subs ?s) (sub_clientID x) = Some x \<and>
      map_of (ws_subs s0) (sub_clientID x) = Some x" if "(r, x) \<in> set ?pr" for r x
    using that inv set_delete_subset [of i pr] ri by (fastforce simp: replay_inv_def remap_subs)
  have 2: "map_option sub_params (map_of (ws_subs ?s) c) =
      map_option sub_params (map_of (ws_subs s0) c)" for c
    using inv cur old by (simp add: replay_inv_def remap_subs)
  have 3: "map_of (ws_upToClient ?s) (sub_upstreamID x) = Some c"
    if fresh: "fresh_ids s0 ?pr ?s" and c: "map_of (ws_subs ?s) c = Some x" "replied ?pr c" for c x
  proof (cases "c = ?c")
    case True
    with c show ?thesis by (auto simp: remap_subs)
  next
    case False
    have "fresh_ids s0 pr s"
      unfolding fresh_ids_def
    proof (intro allI impI)
      fix d y d' y'
      assume d: "map_of (ws_subs s) d = Some y" "replied pr d" and "d' \<noteq> d"
      with waiting have "d \<noteq> ?c" by auto
      with d have d2: "map_of (ws_subs ?s) d = Some y" "replied ?pr d"
        by (simp_all add: remap_subs ri replied_delete)
      have "map_of (ws_subs s) d' = Some y' \<Longrightarrow> replied pr d' \<Longrightarrow>
          map_of (ws_subs ?s) d' = Some y' \<and> replied ?pr d'"
        using waiting by (auto simp: remap_subs ri replied_delete)
      with fresh_idsD [OF fresh d2 \<open>d' \<noteq> d\<close>] show "(map_of (ws_subs s0) d' = Some y' \<longrightarrow>
            sub_upstreamID y \<noteq> sub_upstreamID y') \<and>
          (map_of (ws_subs s) d' = Some y' \<longrightarrow> replied pr d' \<longrightarrow>
            sub_upstreamID y \<noteq> sub_upstreamID y')"
        by blast
    qed
    moreover have "map_of (ws_subs s) c = Some x" "replied pr c"
      using c False by (simp_all add: remap_subs ri replied_delete)
    ultimately have before: "map_of (ws_upToClient s) (sub_upstreamID x) = Some c"
      using inv by (simp add: replay_inv_def)
    have "sub_upstreamID x \<noteq> sub_upstreamID sub"
      using fresh_idsD(1) [OF fresh c _ old] False by simp
    moreover have "sub_upstreamID x \<noteq> n"
    proof -
      have "map_of (ws_subs ?s) ?c = Some (sub\<lparr>sub_upstreamID := n\<rparr>)" "replied ?pr ?c"
        by (simp_all add: remap_subs ri replied_delete)
      then have "sub_upstreamID x \<noteq> sub_upstreamID (sub\<lparr>sub_upstreamID := n\<rparr>)"
        using fresh_idsD(2) [OF fresh c] False by metis
      then show ?thesis by simp
    qed
    ultimately show ?thesis using before by (simp add: remap_subs)
  qed
  from 1 2 3 show ?thesis by (auto simp: replay_inv_def)
qed

lemma replay_inv_start:
  assumes "ws_inv s" and "replay_order s order"
  shows "replay_inv s (map (\<lambda>sub. (replay_id (sub_clientID sub), sub)) order) s \<and>
         distinct (map sub_clientID order)"
proof -
  have set: "set order = snd ` set (ws_subs s)"
    using assms(2) by (metis replay_order_def set_map set_mset_mset)
  have key: "map_of (ws_subs s) (sub_clientID sub) = Some sub" if sub: "sub \<in> set order" for sub
  proof -
    obtain k where "(k, sub) \<in> set (ws_subs s)" using sub set by auto
    with assms(1) show ?thesis by (auto simp: ws_inv_def)
  qed
  have "map sub_clientID (map snd (ws_subs s)) = map fst (ws_subs s)"
    using assms(1) by (auto simp: ws_inv_def)
  moreover have "mset (map sub_clientID order) = mset (map sub_clientID (map snd (ws_subs s)))"
    unfolding mset_map using assms(2) by (simp add: replay_order_def)
  ultimately have "distinct (map sub_clientID order)"
    using assms(1) by (metis mset_eq_imp_distinct_iff ws_inv_def)
  moreover have "\<not> replied (map (\<lambda>sub. (replay_id (sub_clientID sub), sub)) order) c"
    if "map_of (ws_subs s) c = Some sub" for c sub
  proof -
    have c: "(c, sub) \<in> set (ws_subs s)" using that by (rule map_of_SomeD)
    then have "sub \<in> set order" unfolding set by (rule image_eqI [rotated]) simp
    moreover have "sub_clientID sub = c" using c assms(1) by (auto simp: ws_inv_def)
    ultimately show ?thesis by (auto simp: replied_def image_iff)
  qed
  ultimately show ?thesis using key by (auto simp: replay_inv_def)
qed

lemma replaySubscriptions_ids:
  assumes "ws_inv s" and "replay_order s order"
    and "replaySubscriptions order ok fs s = (Inr frames, s')"
  shows "replay_inv s [] s'"
proof (cases "order = []")
  case True
  with assms have "s' = s" by (simp add: replaySubscriptions_def)
  with replay_inv_start [OF assms(1,2)] True show ?thesis by simp
next
  case False
  with assms(3) obtain pr sent where "replay_send ok order [] [] = Inr (pr, sent)"
      and recv: "replay_recv fs pr [] s = (Inr frames, s')"
    by (auto simp: replaySubscriptions_def split: sum.splits)
  then have "pr = map (\<lambda>sub. (replay_id (sub_clientID sub), sub)) order"
    using replay_send_pending [of ok order "[]" "[]" pr sent] replay_inv_start [OF assms(1,2)]
    by simp
  with replay_inv_start [OF assms(1,2)] have "replay_inv s pr s" by simp
  from replay_recv_invariant [where P = "replay_inv s", OF recv this] replay_inv_remap
  show ?thesis by blast
qed

section \<open>Properties\<close>

text \<open>
  Property C5.  After a successful replay on a new upstream the client's subscriptions live on
  under the ids the client knows and with the parameters they were made with; and if the upstream
  gave every subscription an id of its own that no other subscription had on the old connection,
  every notification under a new id reaches the client under the id it knows: verbatim if the two
  ids are equal, with the id replaced otherwise.
\<close>

theorem replay_keeps_subscriptions:
  assumes "ws_inv s" and "replay_order s order"
    and "replaySubscriptions order ok fs s = (Inr frames, s')"
  shows "(\<forall>c. map_option sub_params (map_of (ws_subs s') c) =
              map_option sub_params (map_of (ws_subs s) c)) \<and>
         (fresh_ids s [] s' \<longrightarrow>
            (\<forall>c sub f env. map_of (ws_subs s') c = Some sub \<longrightarrow>
               Unmarshal_ws_envelope (fr_msg f) = Some env \<longrightarrow>
               we_Method env = ''eth_subscription'' \<longrightarrow> we_Params env = Some (sub_upstreamID sub) \<longrightarrow>
               forwardToClient f s' =
                 (if c = sub_upstreamID sub then Some f
                  else map_option (\<lambda>msg. f\<lparr>fr_msg := msg\<rparr>) (rewriteNotification (fr_msg f) c), s')))"
proof -
  have inv: "replay_inv s [] s'" by (rule replaySubscriptions_ids [OF assms])
  have "map_of (ws_upToClient s') (sub_upstreamID sub) = Some c"
    if "fresh_ids s [] s'" "map_of (ws_subs s') c = Some sub" for c sub
    using inv that by (simp add: replay_inv_def replied_def)
  then show ?thesis
    using inv by (auto simp: replay_inv_def forwardToClient_def)
qed

text \<open>Two subscriptions, and replies of a new upstream.\<close>

definition two_subs :: wsSession where
  "two_subs = register ''0x2'' ''[\"logs\"]'' (register ''0x1'' ''[\"newHeads\"]'' (newWSSession 8))"

definition replay_answer :: "string \<Rightarrow> string \<Rightarrow> frame" where
  "replay_answer c n =
     \<lparr>fr_mt = 1, fr_msg = ''{\"id\":\"replay:'' @ c @ ''\",\"result\":\"'' @ n @ ''\"}''\<rparr>"

definition notification :: "string \<Rightarrow> frame" where
  "notification u =
     \<lparr>fr_mt = 1,
      fr_msg = ''{\"method\":\"eth_subscription\",\"params\":{\"subscription\":\"'' @ u @ ''\",\"result\":7}}''\<rparr>"

theorem replay_keeps_subscriptions_witness:
  "forwardToClient (notification ''0x9'') (snd (replaySubscriptions (map snd (ws_subs two_subs)) [True, True]
     [replay_answer ''0x1'' ''0x8'', replay_answer ''0x2'' ''0x9''] two_subs)) =
   (Some \<lparr>fr_mt = 1, fr_msg =
      ''{\"method\":\"eth_subscription\",\"params\":{\"result\":7,\"subscription\":\"0x2\"}}''\<rparr>,
    snd (replaySubscriptions (map snd (ws_subs two_subs)) [True, True]
      [replay_answer ''0x1'' ''0x8'', replay_answer ''0x2'' ''0x9''] two_subs))"
proof -
  let ?sub = "\<lambda>c u p. \<lparr>sub_params = p, sub_clientID = c, sub_upstreamID = u\<rparr>"
  let ?r = "replaySubscriptions (map snd (ws_subs two_subs)) [True, True]
     [replay_answer ''0x1'' ''0x8'', replay_answer ''0x2'' ''0x9''] two_subs"
  obtain res s' where r: "?r = (res, s')" by fastforce
  have "fst ?r = Inr []"
    and "ws_subs (snd ?r) = [(''0x1'', ?sub ''0x1'' ''0x8'' ''[\"newHeads\"]''),
      (''0x2'', ?sub ''0x2'' ''0x9'' ''[\"logs\"]'')]"
    by code_simp+
  with r have res: "?r = (Inr [], s')" and
    s': "ws_subs s' = [(''0x1'', ?sub ''0x1'' ''0x8'' ''[\"newHeads\"]''), (''0x2'', ?sub ''0x2'' ''0x9'' ''[\"logs\"]'')]"
    by simp_all
  have "ws_inv two_subs"
    by (simp add: two_subs_def ws_inv_register newWSSession_inv)
  moreover have "replay_order two_subs (map snd (ws_subs two_subs))"
    by (simp add: replay_order_def)
  moreover have "fresh_ids two_subs [] s'"
    by (auto simp: fresh_ids_def s' two_subs_def register_def newWSSession_def)
  moreover have "Unmarshal_ws_envelope (fr_msg (notification ''0x9'')) =
      Some \<lparr>we_ID = [], we_Result = [], we_Method = ''eth_subscription'', we_Params = Some ''0x9''\<rparr>"
    and "rewriteNotification (fr_msg (notification ''0x9'')) ''0x2'' =
      Some ''{\"method\":\"eth_subscription\",\"params\":{\"result\":7,\"subscription\":\"0x2\"}}''"
    by code_simp+
  moreover have "map_of (ws_subs s') ''0x2'' = Some (?sub ''0x2'' ''0x9'' ''[\"logs\"]'')"
    by (simp add: s')
  ultimately have "forwardToClient (notification ''0x9'') s' =
      (map_option (\<lambda>msg. (notification ''0x9'')\<lparr>fr_msg := msg\<rparr>)
         (rewriteNotification (fr_msg (notification ''0x9'')) ''0x2''), s')"
    using replay_keeps_subscriptions [OF _ _ res] by simp
  with r \<open>rewriteNotification (fr_msg (notification ''0x9'')) ''0x2'' = _\<close> show ?thesis
    by (simp add: notification_def)
qed


text \<open>A notification whose lower-case \<open>params\<close> member is \<open>null\<close> makes the handler panic.\<close>

lemma notification_panics:
  "fst (forwardToClient
     \<lparr>fr_mt = 1, fr_msg =
        ''{\"method\":\"eth_subscription\",\"params\":null,\"Params\":{\"subscription\":\"0x9\"}}''\<rparr>
     (two_subs\<lparr>ws_upToClient := [(''0x9'', ''0x1'')]\<rparr>)) = None"
  by code_simp

text \<open>
  Property C25.  The life of a subscription: a subscribe request is passed on and remembered unless
  the limit of unanswered requests is reached, in which case the client gets an error and the
  upstream nothing; the answer with its id registers the subscription with the parameters of the
  request; and an unsubscribe request reaches the upstream with the upstream's own id and removes
  the subscription and nothing else.
\<close>

theorem subscription_lifecycle:
  assumes "ws_inv s"
  shows "(\<forall>q req. Unmarshal_ws_request (fr_msg q) = Some req \<longrightarrow> wq_Method req = ''eth_subscribe'' \<longrightarrow>
            (if maxPendingSubscribes \<le> int (length (ws_pending s))
             then \<exists>e. forwardToUpstream q s = (ToClient e, s)
             else fst (forwardToUpstream q s) = ToUpstream q \<and>
                  map_of (ws_pending (snd (forwardToUpstream q s))) (wq_ID req) =
                    Some (wq_Params req))) \<and>
         (\<forall>f env ps u. Unmarshal_ws_envelope (fr_msg f) = Some env \<longrightarrow>
            we_Method env \<noteq> ''eth_subscription'' \<longrightarrow> we_ID env \<noteq> [] \<longrightarrow>
            map_of (ws_pending s) (we_ID env) = Some ps \<longrightarrow>
            Unmarshal_string (we_Result env) = Some u \<longrightarrow> u \<noteq> [] \<longrightarrow>
            fst (forwardToClient f s) = Some f \<and>
            map_of (ws_subs (snd (forwardToClient f s))) u =
              Some \<lparr>sub_params = ps, sub_clientID = u, sub_upstreamID = u\<rparr> \<and>
            map_of (ws_upToClient (snd (forwardToClient f s))) u = Some u \<and>
            map_of (ws_pending (snd (forwardToClient f s))) (we_ID env) = None) \<and>
         (\<forall>msg req c sub. Unmarshal_ws_unsubscribe msg = Some req \<longrightarrow> un_Params req \<noteq> [] \<longrightarrow>
            c = hd (un_Params req) \<longrightarrow> map_of (ws_subs s) c = Some sub \<longrightarrow>
            map_of (ws_subs (snd (rewriteUnsubscribe msg s))) = (map_of (ws_subs s))(c := None) \<and>
            map_of (ws_upToClient (snd (rewriteUnsubscribe msg s))) =
              (map_of (ws_upToClient s))(sub_upstreamID sub := None) \<and>
            (sub_upstreamID sub = c \<longrightarrow> fst (rewriteUnsubscribe msg s) = msg) \<and>
            (\<forall>m. sub_upstreamID sub \<noteq> c \<longrightarrow>
               Marshal_ws_unsubscribe (req\<lparr>un_Params := sub_upstreamID sub # tl (un_Params req)\<rparr>) = Some m \<longrightarrow>
               fst (rewriteUnsubscribe msg s) = m))"
proof (intro conjI allI impI)
  fix q :: frame and req
  assume "Unmarshal_ws_request (fr_msg q) = Some req" and "wq_Method req = ''eth_subscribe''"
  then show "if maxPendingSubscribes \<le> int (length (ws_pending s))
             then \<exists>e. forwardToUpstream q s = (ToClient e, s)
             else fst (forwardToUpstream q s) = ToUpstream q \<and>
                  map_of (ws_pending (snd (forwardToUpstream q s))) (wq_ID req) = Some (wq_Params req)"
    by (simp add: forwardToUpstream_def update_conv')
qed (auto simp: forwardToClient_def settle_def register_def rewriteUnsubscribe_def Let_def update_conv' delete_conv'
     split: option.splits)

theorem subscription_lifecycle_witness:
  "map_of (ws_subs (snd (forwardToClient \<lparr>fr_mt = 1, fr_msg = ''{\"id\":1,\"result\":\"0xabc\"}''\<rparr>
     ((newWSSession 8)\<lparr>ws_pending := [(''1'', ''[]'')]\<rparr>)))) ''0xabc'' =
     Some \<lparr>sub_params = ''[]'', sub_clientID = ''0xabc'', sub_upstreamID = ''0xabc''\<rparr>"
proof -
  let ?s = "(newWSSession 8)\<lparr>ws_pending := [(''1'', ''[]'')]\<rparr>"
  let ?f = "\<lparr>fr_mt = 1, fr_msg = ''{\"id\":1,\"result\":\"0xabc\"}''\<rparr>"
  let ?env = "\<lparr>we_ID = ''1'', we_Result = ''\"0xabc\"'', we_Method = [], we_Params = None\<rparr>"
  have "ws_inv ?s" by (simp add: ws_inv_def newWSSession_def maxPendingSubscribes_def)
  moreover have "Unmarshal_ws_envelope (fr_msg ?f) = Some ?env"
    and "Unmarshal_string (we_Result ?env) = Some ''0xabc''"
    by code_simp+
  moreover have "map_of (ws_pending ?s) (we_ID ?env) = Some ''[]''" by simp
  ultimately show ?thesis
    using subscription_lifecycle [of ?s] by (metis (no_types) list.distinct(1) ws_envelope.select_convs(1,3))
qed

end
