(* ===== verification/Capability.thy ===== *)
theory Capability
  imports GoStrings
begin

text \<open>
  Node capabilities (internal/capability/capability.go and prober.go): a 16-bit mask, its membership
  test, its printed form and the interface of a prober.
\<close>

type_synonym Capability = "16 word"

text \<open>The interface \<open>capability.Prober\<close>, which each chain implements: a table with its one method.\<close>

record 'e Prober =
  pb_Probe :: "string \<Rightarrow> 'e + Capability"

definition CapBasic :: Capability where "CapBasic = 1"
definition CapHistorical :: Capability where "CapHistorical = 2"
definition CapDebug :: Capability where "CapDebug = 4"
definition CapTrace :: Capability where "CapTrace = 8"

definition cap_names :: "(Capability \<times> string) list" where
  "cap_names =
     [(CapBasic, ''basic''), (CapHistorical, ''historical''), (CapDebug, ''debug''),
      (CapTrace, ''trace'')]"

lemmas cap_defs = CapBasic_def CapHistorical_def CapDebug_def CapTrace_def

fun cap_String_loop :: "Capability \<Rightarrow> (Capability \<times> string) list \<Rightarrow> string \<Rightarrow> string" where
  "cap_String_loop c [] result = result"
| "cap_String_loop c ((b, n) # ns) result =
     cap_String_loop c ns
       (if c AND b \<noteq> 0 then (if result \<noteq> [] then result @ '','' else result) @ n else result)"

definition cap_String :: "Capability \<Rightarrow> string" where
  "cap_String c = (if c = 0 then ''none'' else cap_String_loop c cap_names [])"

definition Has :: "Capability \<Rightarrow> Capability \<Rightarrow> bool" where
  "Has c other \<longleftrightarrow> c AND other = other"

lemma Has_bits: "Has c other \<longleftrightarrow> (\<forall>n. bit other n \<longrightarrow> bit c n)"
proof
  assume "Has c other"
  then have "bit (c AND other) n \<longleftrightarrow> bit other n" for n
    by (simp add: Has_def)
  then show "\<forall>n. bit other n \<longrightarrow> bit c n"
    unfolding bit_and_iff by blast
next
  assume "\<forall>n. bit other n \<longrightarrow> bit c n"
  then show "Has c other"
    unfolding Has_def by (intro bit_eqI) (auto simp: bit_and_iff)
qed

lemma Has_refl [simp]: "Has c c"
  by (simp add: Has_def)

lemma Has_or [simp]: "Has (c OR d) d" "Has (c OR d) c"
  by (auto simp: Has_bits bit_simps)

lemma Has_trans: "Has a b \<Longrightarrow> Has b c \<Longrightarrow> Has a c"
  by (auto simp: Has_bits)

lemma Has_or_iff: "Has c (d OR e) \<longleftrightarrow> Has c d \<and> Has c e"
  by (auto simp: Has_bits bit_simps)

end
