(* ===== verification/GoUrl.thy ===== *)
theory GoUrl
  imports GoStrings
begin

text \<open>
  The parts of \<open>net/url\<close> the program uses: \<open>url.Parse\<close>, \<open>URL.String\<close>,
  \<open>URL.Hostname\<close> and \<open>URL.Port\<close>, on bytes.
\<close>

record URL =
  u_Scheme :: string
  u_Opaque :: string
  u_User :: "(string \<times> string option) option"
  u_Host :: string
  u_Path :: string
  u_RawPath :: string
  u_OmitHost :: bool
  u_ForceQuery :: bool
  u_RawQuery :: string
  u_Fragment :: string
  u_RawFragment :: string

section \<open>Escaping\<close>

datatype encoding = encodePath | encodeHost | encodeZone | encodeUserPassword | encodeFragment

definition is_alpha :: "char \<Rightarrow> bool" where
  "is_alpha c \<longleftrightarrow> (let n = of_char c :: int in 97 \<le> n \<and> n \<le> 122 \<or> 65 \<le> n \<and> n \<le> 90)"

definition is_num :: "char \<Rightarrow> bool" where
  "is_num c \<longleftrightarrow> (let n = of_char c :: int in 48 \<le> n \<and> n \<le> 57)"

definition shouldEscape :: "encoding \<Rightarrow> char \<Rightarrow> bool" where
  "shouldEscape m c \<longleftrightarrow>
     (if is_alpha c \<or> is_num c then False
      else if (m = encodeHost \<or> m = encodeZone) \<and>
        c \<in> set (''!$&()*+,;=:[]<>'' @ [CHR 0x27, CHR 0x22]) then False
      else if c \<in> set ''-_.~'' then False
      else if c \<in> set ''$&+,/:;=?@'' then
        (case m of
           encodePath \<Rightarrow> c = CHR ''?''
         | encodeUserPassword \<Rightarrow> c \<in> set ''@/?:''
         | encodeFragment \<Rightarrow> False
         | _ \<Rightarrow> True)
      else if m = encodeFragment \<and> c \<in> set ''!()*'' then False
      else True)"

definition hex_upper :: "int \<Rightarrow> char" where
  "hex_upper d = char_of (if d < 10 then 48 + d else 55 + d)"

fun escape :: "encoding \<Rightarrow> string \<Rightarrow> string" where
  "escape m [] = []"
| "escape m (c # s) =
     (if shouldEscape m c
      then [CHR ''%'', hex_upper (of_char c div 16), hex_upper (of_char c mod 16)] @ escape m s
      else c # escape m s)"

fun unescape :: "encoding \<Rightarrow> string \<Rightarrow> string option" where
  "unescape m [] = Some []"
| "unescape m (c # s) =
     (if c = CHR ''%'' then
        (case s of
           h1 # h2 # s' \<Rightarrow>
             (case digits_val 16 0 [h1, h2] of
                None \<Rightarrow> None
              | Some n \<Rightarrow>
                  if m = encodeHost \<and> n < 128 \<and> [h1, h2] \<noteq> ''25'' then None
                  else if m = encodeZone \<and> [h1, h2] \<noteq> ''25'' \<and> n \<noteq> 32 \<and>
                    shouldEscape encodeHost (char_of n) then None
                  else map_option (\<lambda>t. char_of n # t) (unescape m s'))
         | _ \<Rightarrow> None)
      else if (m = encodeHost \<or> m = encodeZone) \<and> (of_char c :: int) < 128 \<and> shouldEscape m c
      then None
      else map_option (\<lambda>t. c # t) (unescape m s))"

definition validEncoded :: "encoding \<Rightarrow> string \<Rightarrow> bool" where
  "validEncoded m s \<longleftrightarrow>
     list_all (\<lambda>c. c \<in> set (''!$&()*+,;=:@[]%'' @ [CHR 0x27]) \<or> \<not> shouldEscape m c) s"

section \<open>Parsing\<close>

definition Cut :: "char \<Rightarrow> string \<Rightarrow> string \<times> string" where
  "Cut b s = (case IndexByte b s of None \<Rightarrow> (s, []) | Some i \<Rightarrow> (take i s, drop (Suc i) s))"

text \<open>Split at the last occurrence of a byte; the second part starts with it.\<close>

definition cut_last :: "char \<Rightarrow> string \<Rightarrow> (string \<times> string) option" where
  "cut_last b s =
     (case IndexByte b (rev s) of
        None \<Rightarrow> None
      | Some i \<Rightarrow> Some (take (length s - Suc i) s, drop (length s - Suc i) s))"

text \<open>\<open>getScheme\<close>: \<open>None\<close> is the error "missing protocol scheme".\<close>

definition getScheme :: "string \<Rightarrow> (string \<times> string) option" where
  "getScheme s =
     (let p = takeWhile (\<lambda>c. is_alpha c \<or> is_num c \<or> c \<in> set ''+-.'') s;
          r = drop (length p) s
      in if HasPrefix r '':''
         then (if p = [] then None
               else if is_alpha (hd p) then Some (p, tl r) else Some ([], s))
         else Some ([], s))"

definition lower_ascii :: "string \<Rightarrow> string" where
  "lower_ascii s =
     map (\<lambda>c. let n = of_char c :: int in if 65 \<le> n \<and> n \<le> 90 then char_of (n + 32) else c) s"

definition validOptionalPort :: "string \<Rightarrow> bool" where
  "validOptionalPort p \<longleftrightarrow> p = [] \<or> hd p = CHR '':'' \<and> list_all is_num (tl p)"

fun index_25 :: "string \<Rightarrow> nat option" where
  "index_25 [] = None"
| "index_25 (c # s) = (if HasPrefix (c # s) ''%25'' then Some 0 else map_option Suc (index_25 s))"

definition parseHost :: "string \<Rightarrow> string option" where
  "parseHost host =
     (if HasPrefix host ''['' then
        (case cut_last (CHR '']'') host of
           None \<Rightarrow> None
         | Some (pre, post) \<Rightarrow>
             if \<not> validOptionalPort (tl post) then None
             else
               (case index_25 pre of
                  None \<Rightarrow> unescape encodeHost host
                | Some z \<Rightarrow>
                    (case (unescape encodeHost (take z pre), unescape encodeZone (drop z pre),
                           unescape encodeHost post) of
                       (Some a, Some b, Some c) \<Rightarrow> Some (a @ b @ c)
                     | _ \<Rightarrow> None)))
      else
        (case cut_last (CHR '':'') host of
           Some (pre, port) \<Rightarrow>
             if \<not> validOptionalPort port then None else unescape encodeHost host
         | None \<Rightarrow> unescape encodeHost host))"

definition validUserinfo :: "string \<Rightarrow> bool" where
  "validUserinfo s \<longleftrightarrow>
     list_all (\<lambda>c. is_alpha c \<or> is_num c \<or> c \<in> set (''-._:~!$&()*+,;=%@'' @ [CHR 0x27])) s"

definition parseAuthority ::
  "string \<Rightarrow> ((string \<times> string option) option \<times> string) option" where
  "parseAuthority a =
     (case cut_last (CHR ''@'') a of
        None \<Rightarrow> map_option (\<lambda>h. (None, h)) (parseHost a)
      | Some (ui, h) \<Rightarrow>
          (case parseHost (tl h) of
             None \<Rightarrow> None
           | Some host \<Rightarrow>
               if \<not> validUserinfo ui then None
               else if CHR '':'' \<notin> set ui then
                 map_option (\<lambda>u. (Some (u, None), host)) (unescape encodeUserPassword ui)
               else
                 (let (u, p) = Cut (CHR '':'') ui in
                  case (unescape encodeUserPassword u, unescape encodeUserPassword p) of
                    (Some u', Some p') \<Rightarrow> Some (Some (u', Some p'), host)
                  | _ \<Rightarrow> None)))"

definition empty_URL :: URL where
  "empty_URL =
     \<lparr>u_Scheme = [], u_Opaque = [], u_User = None, u_Host = [], u_Path = [], u_RawPath = [],
      u_OmitHost = False, u_ForceQuery = False, u_RawQuery = [], u_Fragment = [],
      u_RawFragment = []\<rparr>"

definition setPath :: "string \<Rightarrow> URL \<Rightarrow> URL option" where
  "setPath p u =
     map_option
       (\<lambda>path. u\<lparr>u_Path := path, u_RawPath := if p = escape encodePath path then [] else p\<rparr>)
       (unescape encodePath p)"

definition setFragment :: "string \<Rightarrow> URL \<Rightarrow> URL option" where
  "setFragment f u =
     map_option
       (\<lambda>fr. u\<lparr>u_Fragment := fr, u_RawFragment := if f = escape encodeFragment fr then [] else f\<rparr>)
       (unescape encodeFragment f)"

definition has_ctl_byte :: "string \<Rightarrow> bool" where
  "has_ctl_byte s \<longleftrightarrow> list_ex (\<lambda>c. (of_char c :: int) < 32 \<or> c = CHR 0x7F) s"

definition parse_no_fragment :: "string \<Rightarrow> URL option" where
  "parse_no_fragment raw =
     (if has_ctl_byte raw then None
      else if raw = ''*'' then Some (empty_URL\<lparr>u_Path := ''*''\<rparr>)
      else
        (case getScheme raw of
           None \<Rightarrow> None
         | Some (sch, rest0) \<Rightarrow>
             (let scheme = lower_ascii sch;
                  force = rest0 \<noteq> [] \<and> last rest0 = CHR ''?'' \<and> CHR ''?'' \<notin> set (butlast rest0);
                  (rest, query) = (if force then (butlast rest0, []) else Cut (CHR ''?'') rest0);
                  u = empty_URL\<lparr>u_Scheme := scheme, u_ForceQuery := force, u_RawQuery := query\<rparr>
              in if \<not> HasPrefix rest ''/'' \<and> scheme \<noteq> [] then Some (u\<lparr>u_Opaque := rest\<rparr>)
                 else if \<not> HasPrefix rest ''/'' \<and> CHR '':'' \<in> set (fst (Cut (CHR ''/'') rest))
                 then None
                 else if (scheme \<noteq> [] \<or> \<not> HasPrefix rest ''///'') \<and> HasPrefix rest ''//'' then
                   (let a = drop 2 rest;
                        (authority, path) =
                          (case IndexByte (CHR ''/'') a of
                             None \<Rightarrow> (a, []) | Some i \<Rightarrow> (take i a, drop i a))
                    in case parseAuthority authority of
                         None \<Rightarrow> None
                       | Some (user, host) \<Rightarrow> setPath path (u\<lparr>u_User := user, u_Host := host\<rparr>))
                 else setPath rest (u\<lparr>u_OmitHost := scheme \<noteq> [] \<and> HasPrefix rest ''/''\<rparr>))))"

definition url_Parse :: "string \<Rightarrow> URL option" where
  "url_Parse raw =
     (let (u, frag) = Cut (CHR ''#'') raw in
      case parse_no_fragment u of
        None \<Rightarrow> None
      | Some url \<Rightarrow> if frag = [] then Some url else setFragment frag url)"

section \<open>Printing and accessors\<close>

definition EscapedPath :: "URL \<Rightarrow> string" where
  "EscapedPath u =
     (if u_RawPath u \<noteq> [] \<and> validEncoded encodePath (u_RawPath u) \<and>
         unescape encodePath (u_RawPath u) = Some (u_Path u)
      then u_RawPath u
      else if u_Path u = ''*'' then ''*'' else escape encodePath (u_Path u))"

definition EscapedFragment :: "URL \<Rightarrow> string" where
  "EscapedFragment u =
     (if u_RawFragment u \<noteq> [] \<and> validEncoded encodeFragment (u_RawFragment u) \<and>
         unescape encodeFragment (u_RawFragment u) = Some (u_Fragment u)
      then u_RawFragment u else escape encodeFragment (u_Fragment u))"

definition userinfo_String :: "string \<times> string option \<Rightarrow> string" where
  "userinfo_String ui =
     (if fst ui \<noteq> [] \<or> snd ui \<noteq> None then
        escape encodeUserPassword (fst ui) @
        (case snd ui of None \<Rightarrow> [] | Some p \<Rightarrow> '':'' @ escape encodeUserPassword p)
      else [])"

definition URL_String :: "URL \<Rightarrow> string" where
  "URL_String u =
     (let scheme = (if u_Scheme u = [] then [] else u_Scheme u @ '':'');
          authority =
            (if (u_Scheme u \<noteq> [] \<or> u_Host u \<noteq> [] \<or> u_User u \<noteq> None) \<and>
                \<not> (u_OmitHost u \<and> u_Host u = [] \<and> u_User u = None)
             then (if u_Host u \<noteq> [] \<or> u_Path u \<noteq> [] \<or> u_User u \<noteq> None then ''//'' else []) @
                  (case u_User u of None \<Rightarrow> [] | Some ui \<Rightarrow> userinfo_String ui @ ''@'') @
                  escape encodeHost (u_Host u)
             else []);
          path = EscapedPath u;
          slash = (if path \<noteq> [] \<and> hd path \<noteq> CHR ''/'' \<and> u_Host u \<noteq> [] then ''/'' else []);
          dot = (if scheme = [] \<and> authority = [] \<and> slash = [] \<and>
                    CHR '':'' \<in> set (fst (Cut (CHR ''/'') path)) then ''./'' else [])
      in scheme @
         (if u_Opaque u \<noteq> [] then u_Opaque u else authority @ slash @ dot @ path) @
         (if u_ForceQuery u \<or> u_RawQuery u \<noteq> [] then ''?'' @ u_RawQuery u else []) @
         (if u_Fragment u \<noteq> [] then ''#'' @ EscapedFragment u else []))"

definition splitHostPort :: "string \<Rightarrow> string \<times> string" where
  "splitHostPort hp =
     (let (host, port) =
        (case cut_last (CHR '':'') hp of
           Some (h, p) \<Rightarrow> if validOptionalPort p then (h, tl p) else (hp, [])
         | None \<Rightarrow> (hp, []))
      in (if HasPrefix host ''['' \<and> host \<noteq> [] \<and> last host = CHR '']'' \<and> 1 < length host
          then butlast (tl host) else host, port))"

definition Hostname :: "URL \<Rightarrow> string" where
  "Hostname u = fst (splitHostPort (u_Host u))"

definition Port :: "URL \<Rightarrow> string" where
  "Port u = snd (splitHostPort (u_Host u))"

end
