(* ===== verification/Upstream.thy ===== *)
theory Upstream
  imports Capability GoUrl
begin

text \<open>
  Upstream nodes, the pool and its round-robin selection, the lag check and annotated URLs
  (internal/upstream/upstream.go).  A \<open>*Upstream\<close> taken from a pool is its index in the node
  list, which never changes length; getters and setters take the node's lock and are atomic.
\<close>

section \<open>Nodes\<close>

record Upstream =
  n_URL :: URL
  n_blockHeight :: uint64
  n_healthy :: bool
  n_capabilities :: Capability

definition SetHealthy :: "bool \<Rightarrow> Upstream \<Rightarrow> Upstream" where
  "SetHealthy b u = u\<lparr>n_healthy := b\<rparr>"

definition IsHealthy :: "Upstream \<Rightarrow> bool" where
  "IsHealthy u = n_healthy u"

definition SetBlockHeight :: "uint64 \<Rightarrow> Upstream \<Rightarrow> Upstream" where
  "SetBlockHeight h u = u\<lparr>n_blockHeight := h\<rparr>"

definition BlockHeight :: "Upstream \<Rightarrow> uint64" where
  "BlockHeight u = n_blockHeight u"

definition SetCapabilities :: "Capability \<Rightarrow> Upstream \<Rightarrow> Upstream" where
  "SetCapabilities c u = u\<lparr>n_capabilities := c\<rparr>"

definition Capabilities :: "Upstream \<Rightarrow> Capability" where
  "Capabilities u = n_capabilities u"

lemmas node_defs [go_defs] =
  SetHealthy_def IsHealthy_def SetBlockHeight_def BlockHeight_def SetCapabilities_def
  Capabilities_def

section \<open>Annotated URLs\<close>

datatype url_error =
    MissingBracket string
  | EmptyBrackets string
  | UnknownCapability string string
  | InvalidURL string

fun annotation_caps :: "string \<Rightarrow> Capability \<Rightarrow> string list \<Rightarrow> url_error + Capability" where
  "annotation_caps raw caps [] = Inr caps"
| "annotation_caps raw caps (c # cs) =
     (let t = TrimSpace c in
      if t = ''basic'' then annotation_caps raw (caps OR CapBasic) cs
      else if t = ''historical'' then annotation_caps raw (caps OR CapHistorical) cs
      else if t = ''debug'' then annotation_caps raw (caps OR CapDebug) cs
      else if t = ''trace'' then annotation_caps raw (caps OR CapTrace) cs
      else Inl (UnknownCapability c raw))"

definition ParseAnnotatedURL :: "string \<Rightarrow> url_error + (string \<times> Capability)" where
  "ParseAnnotatedURL raw =
     (case IndexByte (CHR ''['') raw of
        None \<Rightarrow> Inr (raw, 0)
      | Some startIdx \<Rightarrow>
          (case IndexByte (CHR '']'') raw of
             None \<Rightarrow> Inl (MissingBracket raw)
           | Some endIdx \<Rightarrow>
               if endIdx < startIdx then Inl (MissingBracket raw)
               else
                 (let capStr = drop (startIdx + 1) (take endIdx raw) in
                  if TrimSpace capStr = [] then Inl (EmptyBrackets raw)
                  else
                    (case annotation_caps raw CapBasic (Split (CHR '','') capStr) of
                       Inl e \<Rightarrow> Inl e
                     | Inr caps \<Rightarrow> Inr (take startIdx raw, caps)))))"

definition NewUpstream :: "string \<Rightarrow> url_error + Upstream" where
  "NewUpstream raw =
     (case ParseAnnotatedURL raw of
        Inl e \<Rightarrow> Inl e
      | Inr (cleanURL, caps) \<Rightarrow>
          (case url_Parse cleanURL of
             None \<Rightarrow> Inl (InvalidURL cleanURL)
           | Some u \<Rightarrow>
               Inr \<lparr>n_URL = u, n_blockHeight = 0, n_healthy = True,
                    n_capabilities = if caps = 0 then CapBasic else caps\<rparr>))"

section \<open>Pool\<close>

record Pool =
  p_nodes :: "Upstream list"
  p_counter :: uint64

fun NewPool_loop :: "string list \<Rightarrow> url_error + Upstream list" where
  "NewPool_loop [] = Inr []"
| "NewPool_loop (raw # urls) =
     (case NewUpstream raw of
        Inl e \<Rightarrow> Inl e
      | Inr node \<Rightarrow> (case NewPool_loop urls of Inl e \<Rightarrow> Inl e | Inr ns \<Rightarrow> Inr (node # ns)))"

definition NewPool :: "string list \<Rightarrow> url_error + Pool" where
  "NewPool urls =
     (case NewPool_loop urls of Inl e \<Rightarrow> Inl e | Inr ns \<Rightarrow> Inr \<lparr>p_nodes = ns, p_counter = 0\<rparr>)"

text \<open>The slot of a counter value.\<close>

definition slot :: "Pool \<Rightarrow> uint64 \<Rightarrow> nat" where
  "slot p c = unat (c mod of_nat (length (p_nodes p)))"

definition bump :: "Pool \<Rightarrow> Pool" where
  "bump p = p\<lparr>p_counter := p_counter p + 1\<rparr>"

text \<open>\<open>Next\<close> reserves a new counter value in every iteration.\<close>

fun Next_loop :: "nat \<Rightarrow> Pool \<Rightarrow> nat option \<times> Pool" where
  "Next_loop 0 p = (None, p)"
| "Next_loop (Suc k) p =
     (let p' = bump p; idx = slot p (p_counter p' - 1) in
      if IsHealthy (p_nodes p ! idx) then (Some idx, p') else Next_loop k p')"

definition Next :: "Pool \<Rightarrow> nat option \<times> Pool" where
  "Next p = Next_loop (length (p_nodes p)) p"

text \<open>\<open>NextWithCapability\<close> reserves one and scans from there.\<close>

definition usable :: "Pool \<Rightarrow> Capability \<Rightarrow> nat \<Rightarrow> bool" where
  "usable p required idx \<longleftrightarrow>
     IsHealthy (p_nodes p ! idx) \<and> Has (Capabilities (p_nodes p ! idx)) required"

definition NextWithCapability :: "Pool \<Rightarrow> Capability \<Rightarrow> nat option \<times> Pool" where
  "NextWithCapability p required =
     (let p' = bump p; start = p_counter p' - 1 in
      (find (usable p required)
         (map (\<lambda>i. slot p (start + of_nat i)) [0 ..< length (p_nodes p)]), p'))"

definition best_height :: "Upstream list \<Rightarrow> uint64" where
  "best_height ns =
     fold (\<lambda>n m. if IsHealthy n \<and> m < BlockHeight n then BlockHeight n else m) ns 0"

definition markLaggingNodes :: "uint64 \<Rightarrow> Pool \<Rightarrow> uint64 \<times> Pool" where
  "markLaggingNodes threshold p =
     (let maxHeight = best_height (p_nodes p) in
      (maxHeight,
       p\<lparr>p_nodes :=
           map (\<lambda>n. if IsHealthy n \<and> threshold < maxHeight \<and> BlockHeight n < maxHeight - threshold
                    then SetHealthy False n else n) (p_nodes p)\<rparr>))"

section \<open>Selection\<close>

lemma slot_less:
  assumes "p_nodes p \<noteq> []" and "length (p_nodes p) < 2 ^ 64"
  shows "slot p c < length (p_nodes p)"
  using assms word_mod_less_length [of "length (p_nodes p)" c] by (simp add: slot_def)

lemma slot_add:
  assumes "p_nodes p \<noteq> []" and "length (p_nodes p) < 2 ^ 64" and "unat c + i < 2 ^ 64"
  shows "slot p (c + of_nat i) = (unat c + i) mod length (p_nodes p)"
  using assms word_slot [of "length (p_nodes p)" c i] by (simp add: slot_def)

lemma slot_bump [simp]: "slot (bump p) c = slot p c"
  by (simp add: slot_def bump_def)

lemma bump_sel [go_state, simp]:
  "p_nodes (bump p) = p_nodes p" "p_counter (bump p) = p_counter p + 1"
  by (simp_all add: bump_def)

lemma usable_bump [simp]: "usable (bump p) = usable p"
  by (simp add: usable_def fun_eq_iff)

text \<open>
  The order in which a selection starting at counter value \<open>c\<close> visits the nodes, as plain numbers.
\<close>

definition visit :: "Pool \<Rightarrow> nat \<Rightarrow> nat list" where
  "visit p c = map (\<lambda>i. (c + i) mod length (p_nodes p)) [0 ..< length (p_nodes p)]"

lemma set_visit: "set (visit p c) = {..< length (p_nodes p)}"
proof
  show "set (visit p c) \<subseteq> {..< length (p_nodes p)}"
  proof
    fix j
    assume "j \<in> set (visit p c)"
    then obtain i where "j = (c + i) mod length (p_nodes p)" and "i < length (p_nodes p)"
      by (auto simp: visit_def)
    then show "j \<in> {..< length (p_nodes p)}"
      by (auto intro: mod_less_divisor)
  qed
next
  show "{..< length (p_nodes p)} \<subseteq> set (visit p c)"
    using slots_cover [of _ "length (p_nodes p)" c] by (force simp: visit_def image_iff)
qed

text \<open>A pool whose counter is not about to wrap around.\<close>

definition roomy :: "Pool \<Rightarrow> bool" where
  "roomy p \<longleftrightarrow> length (p_nodes p) < 2 ^ 64 \<and> unat (p_counter p) + length (p_nodes p) < 2 ^ 64"

lemma NextWithCapability_find:
  assumes "roomy p"
  shows "NextWithCapability p required =
           (find (usable p required) (visit p (unat (p_counter p))), bump p)"
proof (cases "p_nodes p = []")
  case True
  then show ?thesis by (simp add: NextWithCapability_def visit_def Let_def)
next
  case False
  have "map (\<lambda>i. slot p (p_counter p + of_nat i)) [0 ..< length (p_nodes p)] =
      visit p (unat (p_counter p))"
    unfolding visit_def
    by (rule map_cong [OF refl]) (use False assms in \<open>auto simp: roomy_def intro!: slot_add\<close>)
  then show ?thesis
    by (simp add: NextWithCapability_def Let_def)
qed

lemma NextWithCapability_None:
  assumes "roomy p"
  shows "fst (NextWithCapability p required) = None \<longleftrightarrow>
           (\<forall>i < length (p_nodes p). \<not> usable p required i)"
  using assms set_visit [of p "unat (p_counter p)"]
  by (auto simp: NextWithCapability_find find_None_iff)

lemma NextWithCapability_usable:
  assumes "p_nodes p \<noteq> []" and "length (p_nodes p) < 2 ^ 64"
    and "fst (NextWithCapability p required) = Some i"
  shows "i < length (p_nodes p) \<and> usable p required i"
  using assms slot_less [OF assms(1,2)]
  by (auto simp: NextWithCapability_def Let_def find_Some_iff)

lemma NextWithCapability_first:
  assumes "roomy p" and "fst (NextWithCapability p required) = Some i"
  shows "\<exists>k < length (p_nodes p). i = (unat (p_counter p) + k) mod length (p_nodes p) \<and>
           usable p required i \<and>
           (\<forall>j < k. \<not> usable p required ((unat (p_counter p) + j) mod length (p_nodes p)))"
  using assms by (auto simp: NextWithCapability_find find_Some_iff visit_def)

lemma snd_NextWithCapability [go_state, simp]: "snd (NextWithCapability p required) = bump p"
  by (simp add: NextWithCapability_def Let_def)

lemma Next_loop_find:
  assumes "p_nodes p \<noteq> []" and "length (p_nodes p) < 2 ^ 64" and "unat (p_counter p) + k < 2 ^ 64"
  shows "fst (Next_loop k p) =
           find (\<lambda>i. IsHealthy (p_nodes p ! i))
             (map (\<lambda>i. (unat (p_counter p) + i) mod length (p_nodes p)) [0 ..< k])"
  using assms
proof (induction k arbitrary: p)
  case 0
  then show ?case by simp
next
  case (Suc k)
  let ?c = "unat (p_counter p)"
  have c: "unat (p_counter (bump p)) = Suc ?c"
    using Suc.prems(3) by (simp add: unat_word_ariths take_bit_nat_eq_self)
  have slot: "slot p (p_counter p) = ?c mod length (p_nodes p)"
    using slot_add [OF Suc.prems(1,2), of "p_counter p" 0] Suc.prems(3) by simp
  have IH: "fst (Next_loop k (bump p)) =
      find (\<lambda>i. IsHealthy (p_nodes p ! i))
        (map (\<lambda>i. (Suc ?c + i) mod length (p_nodes p)) [0 ..< k])"
    using Suc.IH [of "bump p"] Suc.prems c by simp
  have "[0 ..< Suc k] = 0 # map Suc [0 ..< k]"
    by (simp only: upt_conv_Cons map_Suc_upt zero_less_Suc)
  then have "map (\<lambda>i. (?c + i) mod length (p_nodes p)) [0 ..< Suc k] =
      ?c mod length (p_nodes p) # map (\<lambda>i. (Suc ?c + i) mod length (p_nodes p)) [0 ..< k]"
    by (simp only: list.map map_map comp_def) simp
  with slot IH show ?case
    by (simp add: Let_def del: upt_Suc)
qed

lemma Next_find:
  assumes "roomy p"
  shows "fst (Next p) = find (\<lambda>i. IsHealthy (p_nodes p ! i)) (visit p (unat (p_counter p)))"
proof (cases "p_nodes p = []")
  case True
  then show ?thesis by (simp add: Next_def visit_def)
next
  case False
  with assms Next_loop_find [of p "length (p_nodes p)"] show ?thesis
    by (simp add: Next_def visit_def roomy_def)
qed

lemma Next_None:
  assumes "roomy p"
  shows "fst (Next p) = None \<longleftrightarrow> (\<forall>i < length (p_nodes p). \<not> IsHealthy (p_nodes p ! i))"
  using assms set_visit [of p "unat (p_counter p)"]
  by (auto simp: Next_find find_None_iff)

lemma Next_loop_healthy:
  assumes "p_nodes p \<noteq> []" and "length (p_nodes p) < 2 ^ 64" and "fst (Next_loop k p) = Some i"
  shows "i < length (p_nodes p) \<and> IsHealthy (p_nodes p ! i)"
  using assms
proof (induction k arbitrary: p)
  case 0
  then show ?case by simp
next
  case (Suc k)
  then show ?case
    using slot_less [OF Suc.prems(1,2)] Suc.IH [of "bump p"]
    by (auto simp: Let_def split: if_splits)
qed

section \<open>Lagging nodes\<close>

abbreviation higher :: "Upstream \<Rightarrow> uint64 \<Rightarrow> uint64" where
  "higher n m \<equiv> (if IsHealthy n \<and> m < BlockHeight n then BlockHeight n else m)"

lemma fold_higher_ge:
  "m \<le> fold higher ns m \<and> (\<forall>n \<in> set ns. IsHealthy n \<longrightarrow> BlockHeight n \<le> fold higher ns m)"
proof (induction ns arbitrary: m)
  case Nil
  then show ?case by simp
next
  case (Cons a ns)
  have "m \<le> higher a m" "IsHealthy a \<longrightarrow> BlockHeight a \<le> higher a m"
    by auto
  with Cons.IH [of "higher a m"] show ?case
    by (auto intro: order_trans)
qed

lemma fold_higher_in:
  "fold higher ns m = m \<or> (\<exists>n \<in> set ns. IsHealthy n \<and> BlockHeight n = fold higher ns m)"
proof (induction ns arbitrary: m)
  case Nil
  then show ?case by simp
next
  case (Cons a ns)
  show ?case
    using Cons.IH [of "higher a m"] by (auto split: if_splits)
qed

lemma best_height_ge: "n \<in> set ns \<Longrightarrow> IsHealthy n \<Longrightarrow> BlockHeight n \<le> best_height ns"
  using fold_higher_ge [of 0 ns] by (simp add: best_height_def)

lemma best_height_attained:
  "best_height ns = 0 \<or> (\<exists>n \<in> set ns. IsHealthy n \<and> BlockHeight n = best_height ns)"
  using fold_higher_in [of ns 0] by (simp add: best_height_def)

lemma lagging_nat:
  "threshold < (m :: uint64) \<and> h < m - threshold \<longleftrightarrow> unat h + unat threshold < unat m"
  by (auto simp: word_less_nat_alt unat_sub word_le_nat_alt)

lemma unmarked:
  "(if IsHealthy n \<and> threshold < best \<and> BlockHeight n < best - threshold
    then SetHealthy False n else n) =
   n\<lparr>n_healthy := n_healthy n \<and> unat best \<le> unat (n_blockHeight n) + unat threshold\<rparr>"
  using lagging_nat [of threshold best "BlockHeight n"]
  by (cases "n_healthy n"; cases n) (auto simp: node_defs)

lemma markLaggingNodes_nth:
  assumes "markLaggingNodes threshold p = (best, p')"
  shows "best = best_height (p_nodes p)" and "length (p_nodes p') = length (p_nodes p)"
    and "p_counter p' = p_counter p"
    and "i < length (p_nodes p) \<Longrightarrow>
      p_nodes p' ! i =
        (p_nodes p ! i)\<lparr>n_healthy :=
           n_healthy (p_nodes p ! i) \<and>
           unat best \<le> unat (n_blockHeight (p_nodes p ! i)) + unat threshold\<rparr>"
  using assms unfolding markLaggingNodes_def Let_def unmarked by auto

lemma markLaggingNodes_best:
  assumes "markLaggingNodes threshold p = (best, p')"
  shows "best = 0 \<or> (\<exists>n \<in> set (p_nodes p'). IsHealthy n \<and> BlockHeight n = best)"
proof (cases "best = 0")
  case False
  then obtain i where i: "i < length (p_nodes p)" "IsHealthy (p_nodes p ! i)"
      "BlockHeight (p_nodes p ! i) = best"
    using best_height_attained [of "p_nodes p"] markLaggingNodes_nth(1) [OF assms]
    by (auto simp: in_set_conv_nth)
  then have "IsHealthy (p_nodes p' ! i) \<and> BlockHeight (p_nodes p' ! i) = best"
    using markLaggingNodes_nth(4) [OF assms i(1)] by (simp add: node_defs)
  with i(1) markLaggingNodes_nth(2) [OF assms] show ?thesis
    by (metis nth_mem)
qed simp

section \<open>Construction\<close>

lemma annotation_caps_Has:
  "annotation_caps raw caps cs = Inr c \<Longrightarrow> Has c caps"
proof (induction cs arbitrary: caps)
  case Nil
  then show ?case by simp
next
  case (Cons x cs)
  then show ?case
    by (auto simp: Let_def split: if_splits dest!: Cons.IH intro: Has_trans)
qed

lemma ParseAnnotatedURL_basic:
  "ParseAnnotatedURL raw = Inr (u, c) \<Longrightarrow> c = 0 \<or> Has c CapBasic"
  by (auto simp: ParseAnnotatedURL_def Let_def annotation_caps_Has
      split: option.splits if_splits sum.splits)

lemma NewUpstream_basic:
  assumes "NewUpstream raw = Inr n"
  shows "IsHealthy n \<and> BlockHeight n = 0 \<and> Has (Capabilities n) CapBasic"
  using assms ParseAnnotatedURL_basic
  by (fastforce simp: NewUpstream_def node_defs split: sum.splits option.splits)

lemma NewPool_loop_nodes:
  "NewPool_loop urls = Inr ns \<Longrightarrow>
     list_all2 (\<lambda>raw n. NewUpstream raw = Inr n) urls ns"
  by (induction urls arbitrary: ns) (auto split: sum.splits)

section \<open>Properties\<close>

text \<open>
  Property C12.  Capability-aware selection is sound, complete and rotates: away from counter
  wrap-around, \<open>NextWithCapability\<close> returns the first node at or cyclically after the reserved
  slot that is healthy and has every required capability; it returns nil exactly when there is no
  such node; and it advances the counter by one whatever the outcome.
\<close>

theorem next_with_capability_correct:
  assumes "roomy p"
  shows "(fst (NextWithCapability p required) = None \<longleftrightarrow>
            (\<forall>i < length (p_nodes p). \<not> usable p required i)) \<and>
         (\<forall>i. fst (NextWithCapability p required) = Some i \<longrightarrow>
            (\<exists>k < length (p_nodes p). i = (unat (p_counter p) + k) mod length (p_nodes p) \<and>
               usable p required i \<and>
               (\<forall>j < k. \<not> usable p required ((unat (p_counter p) + j) mod length (p_nodes p))))) \<and>
         snd (NextWithCapability p required) = p\<lparr>p_counter := p_counter p + 1\<rparr>"
  using NextWithCapability_None [OF assms] NextWithCapability_first [OF assms]
  by (simp add: bump_def [symmetric])

definition demo_node :: "bool \<Rightarrow> Capability \<Rightarrow> uint64 \<Rightarrow> Upstream" where
  "demo_node h c b =
     \<lparr>n_URL = empty_URL, n_blockHeight = b, n_healthy = h, n_capabilities = c\<rparr>"

theorem next_with_capability_correct_witness:
  "fst (NextWithCapability
     \<lparr>p_nodes = [demo_node True 1 0, demo_node True 5 0, demo_node False 5 0], p_counter = 2\<rparr>
     CapDebug) \<noteq> None"
proof -
  let ?p = "\<lparr>p_nodes = [demo_node True 1 0, demo_node True 5 0, demo_node False 5 0],
    p_counter = 2\<rparr>"
  have "roomy ?p" by (simp add: roomy_def)
  moreover have "usable ?p CapDebug 1"
    by (simp add: usable_def node_defs demo_node_def Has_def CapDebug_def)
  moreover have "1 < length (p_nodes ?p)" by simp
  ultimately show ?thesis
    using next_with_capability_correct [of ?p CapDebug] by blast
qed

text \<open>
  \<open>Next\<close> returns a healthy node whenever there is one, as long as the counter does
  not wrap around during the call; what it returns is always healthy and in range.
\<close>

theorem next_finds_healthy:
  assumes "roomy p"
  shows "(fst (Next p) = None \<longleftrightarrow> (\<forall>i < length (p_nodes p). \<not> IsHealthy (p_nodes p ! i))) \<and>
         (\<forall>i. fst (Next p) = Some i \<longrightarrow> i < length (p_nodes p) \<and> IsHealthy (p_nodes p ! i))"
proof -
  have "i < length (p_nodes p) \<and> IsHealthy (p_nodes p ! i)" if "fst (Next p) = Some i" for i
  proof -
    have "p_nodes p \<noteq> []" using that by (auto simp: Next_def)
    with that assms show ?thesis
      unfolding Next_def roomy_def by (intro Next_loop_healthy) auto
  qed
  with Next_None [OF assms] show ?thesis by blast
qed

theorem next_finds_healthy_witness:
  "fst (Next \<lparr>p_nodes = [demo_node False 1 0, demo_node True 1 0], p_counter = 4\<rparr>) \<noteq> None"
proof -
  let ?p = "\<lparr>p_nodes = [demo_node False 1 0, demo_node True 1 0], p_counter = 4\<rparr>"
  have "roomy ?p" by (simp add: roomy_def)
  moreover have "IsHealthy (p_nodes ?p ! 1)" and "1 < length (p_nodes ?p)"
    by (simp_all add: node_defs demo_node_def)
  ultimately show ?thesis
    using next_finds_healthy [of ?p] by blast
qed


text \<open>
  \<open>markLaggingNodes\<close> reports the best height among the healthy nodes (zero if there
  is none) and takes out of service exactly the healthy nodes that are more than \<open>threshold\<close> blocks
  behind it, computed without underflow; a node at the best height always stays, and unhealthy
  nodes, heights, capabilities and the counter are untouched.
\<close>

lemma mark_lagging_exact:
  assumes "markLaggingNodes threshold p = (best, p')"
  shows "best = best_height (p_nodes p) \<and> length (p_nodes p') = length (p_nodes p) \<and>
         p_counter p' = p_counter p \<and>
         (\<forall>i < length (p_nodes p).
            p_nodes p' ! i =
              (p_nodes p ! i)\<lparr>n_healthy :=
                 n_healthy (p_nodes p ! i) \<and>
                 unat best \<le> unat (n_blockHeight (p_nodes p ! i)) + unat threshold\<rparr>) \<and>
         (\<forall>n \<in> set (p_nodes p). IsHealthy n \<longrightarrow> BlockHeight n \<le> best) \<and>
         (best = 0 \<or> (\<exists>n \<in> set (p_nodes p'). IsHealthy n \<and> BlockHeight n = best))"
  using markLaggingNodes_nth [OF assms] markLaggingNodes_best [OF assms] best_height_ge
  by auto

text \<open>
  A pool is built from a list of URLs only if every one of them is accepted; its
  nodes are then in the order of the list, all healthy, at height zero, and all able to serve basic
  requests, annotated or not.
\<close>

theorem new_pool_nodes:
  assumes "NewPool urls = Inr p"
  shows "list_all2 (\<lambda>raw n. NewUpstream raw = Inr n) urls (p_nodes p) \<and> p_counter p = 0 \<and>
         (\<forall>n \<in> set (p_nodes p). IsHealthy n \<and> BlockHeight n = 0 \<and> Has (Capabilities n) CapBasic)"
proof -
  have nodes: "list_all2 (\<lambda>raw n. NewUpstream raw = Inr n) urls (p_nodes p)" "p_counter p = 0"
    using assms NewPool_loop_nodes by (auto simp: NewPool_def split: sum.splits)
  moreover have "\<exists>raw. NewUpstream raw = Inr n" if "n \<in> set (p_nodes p)" for n
    using nodes(1) that by (auto simp: list_all2_conv_all_nth in_set_conv_nth)
  ultimately show ?thesis
    using NewUpstream_basic by blast
qed

theorem new_pool_nodes_witness:
  "\<exists>p. NewPool [''http://a'', ''http://b[debug, trace]''] = Inr p \<and> p_counter p = 0"
proof -
  have "\<not> isl (NewPool [''http://a'', ''http://b[debug, trace]''])"
    by code_simp
  then obtain p where "NewPool [''http://a'', ''http://b[debug, trace]''] = Inr p"
    by (cases "NewPool [''http://a'', ''http://b[debug, trace]'']") auto
  with new_pool_nodes [OF this] show ?thesis by blast
qed

end
