(* ===== verification/WsRun.thy ===== *)
theory WsRun
  imports WsSession Upstream
begin

text \<open>
  The life of a WebSocket session (\<open>connectUpstream\<close>, \<open>run\<close> and \<open>pump\<close> of internal/proxy/ws.go) as a
  step relation.  The environment decides which dials, reads and writes succeed, which frames
  arrive and when a side disconnects.  A frame is handled in one step (theory \<open>WsFrames\<close> shows that the
  two critical sections of an answer may be taken as one), and so is an iteration of the replay loop.
  The reader goroutine of a connection that was given up after a failed write is not waited for and may
  go on handling frames for a while, also in the middle of a replay.
\<close>

section \<open>Connecting\<close>

text \<open>\<open>dial i url\<close>: whether the \<open>i\<close>-th attempt, to \<open>url\<close>, succeeds.\<close>

fun connect_loop :: "nat \<Rightarrow> (nat \<Rightarrow> string \<Rightarrow> bool) \<Rightarrow> nat \<Rightarrow> Pool \<Rightarrow> nat option \<times> Pool" where
  "connect_loop 0 dial a p = (None, p)"
| "connect_loop (Suc k) dial a p =
     (case Next p of
        (None, p') \<Rightarrow> (None, p')
      | (Some i, p') \<Rightarrow>
          if dial a (httpToWS (URL_String (n_URL (p_nodes p ! i)))) then (Some i, p')
          else connect_loop k dial (Suc a) p')"

definition connectUpstream :: "(nat \<Rightarrow> string \<Rightarrow> bool) \<Rightarrow> Pool \<Rightarrow> nat option \<times> Pool" where
  "connectUpstream dial p = connect_loop (length (p_nodes p)) dial 0 p"

section \<open>The replay, one frame at a time\<close>

text \<open>
  While the replay runs, the answer to an older subscribe request may arrive through the reader of a
  connection already given up; \<open>registers\<close> are the keys under which it puts a new subscription object
  into the table.
\<close>

definition registers :: "frame \<Rightarrow> wsSession \<Rightarrow> string list" where
  "registers f s =
     (case Unmarshal_ws_envelope (fr_msg f) of
        None \<Rightarrow> []
      | Some envelope \<Rightarrow>
          if we_Method envelope = ''eth_subscription'' \<and> we_Params envelope \<noteq> None then []
          else if we_ID envelope = [] \<or> map_of (ws_pending s) (we_ID envelope) = None then []
          else
            (case Unmarshal_string (we_Result envelope) of
               None \<Rightarrow> []
             | Some upstreamID \<Rightarrow> if upstreamID = [] then [] else [upstreamID]))"

text \<open>
  The loop holds pointers to the objects it found at its start.  One that has been replaced in the
  table meanwhile is still given the new id, but the table does not see it.
\<close>

definition remap_held :: "string list \<Rightarrow> subscription \<Rightarrow> string \<Rightarrow> wsSession \<Rightarrow> wsSession" where
  "remap_held replaced sub newID s =
     (if sub_clientID sub \<in> set replaced
      then s\<lparr>ws_upToClient :=
               AList.update newID (sub_clientID sub) (AList.delete (sub_upstreamID sub) (ws_upToClient s))\<rparr>
      else remap sub newID s)"

text \<open>One iteration of the loop that collects the answers.\<close>

definition replay_frame :: "frame \<Rightarrow> (string \<times> subscription) list \<Rightarrow> frame list \<Rightarrow> string list \<Rightarrow>
    wsSession \<Rightarrow> (replay_error + (string \<times> subscription) list \<times> frame list) \<times> wsSession" where
  "replay_frame f pendingReplay pendingFrames replaced s =
     (let held = (Inr (pendingReplay, stash s f pendingFrames), s) in
      case Unmarshal_ws_reply (fr_msg f) of
        None \<Rightarrow> held
      | Some resp \<Rightarrow>
          (case Unmarshal_string (wr_ID resp) of
             None \<Rightarrow> held
           | Some idStr \<Rightarrow>
               (case map_of pendingReplay idStr of
                  None \<Rightarrow> held
                | Some sub \<Rightarrow>
                    if wr_Err resp \<noteq> [] \<and> wr_Err resp \<noteq> ''null''
                    then (Inl (ReplayRejected (sub_clientID sub) (wr_Err resp)), s)
                    else if wr_Result resp = [] then (Inl (ReplayUnexpected (fr_msg f)), s)
                    else
                      (Inr (AList.delete idStr pendingReplay, pendingFrames),
                       remap_held replaced sub (wr_Result resp) s))))"

section \<open>The session loop\<close>

text \<open>
  \<open>Replaying pr pf replaced\<close>: the answers to \<open>pr\<close> are awaited, \<open>pf\<close> is held back, and \<open>replaced\<close> are the
  keys registered anew since the replay began.  \<open>Flushing\<close> hands the frames held back to the client.
\<close>

datatype phase =
    Connecting
  | Replaying "(string \<times> subscription) list" "frame list" "string list"
  | Flushing "frame list"
  | Pumping
  | Closed

record ws_state =
  wx_pool :: Pool
  wx_sess :: wsSession
  wx_phase :: phase
  wx_toClient :: "frame list"
  wx_toUpstream :: "frame list"
  wx_stale :: nat

definition CloseMessage :: int where
  "CloseMessage = 8"

definition close_frame :: frame where
  "close_frame = \<lparr>fr_mt = CloseMessage, fr_msg = [CHR 0x03, CHR 0xF3] @ ''no upstream''\<rparr>"

text \<open>Once a connection is made: the requests of the replay are written; \<open>ok\<close> says which writes succeed.\<close>

definition replay_begin :: "subscription list \<Rightarrow> bool list \<Rightarrow> phase" where
  "replay_begin order ok =
     (if order = [] then Flushing []
      else
        (case replay_send ok order [] [] of
           Inl e \<Rightarrow> Connecting
         | Inr (pendingReplay, sent) \<Rightarrow> Replaying pendingReplay [] []))"

fun note_registered :: "string list \<Rightarrow> phase \<Rightarrow> phase" where
  "note_registered ks (Replaying pr pf replaced) = Replaying pr pf (ks @ replaced)"
| "note_registered ks ph = ph"

text \<open>
  Handing frames to the client in turn; \<open>ok\<close> says which writes succeed.  After a failed write or a
  panic the rest is not handled.
\<close>

datatype delivery = Delivered | WriteFailed | Panicked

fun deliver :: "bool list \<Rightarrow> frame list \<Rightarrow> wsSession \<Rightarrow> frame list \<Rightarrow> delivery \<times> wsSession \<times> frame list" where
  "deliver ok [] s out = (Delivered, s, out)"
| "deliver ok (f # fs) s out =
     (case forwardToClient f s of
        (None, s') \<Rightarrow> (Panicked, s', out)
      | (Some g, s') \<Rightarrow>
          (case ok of
             True # ok' \<Rightarrow> deliver ok' fs s' (out @ [g])
           | _ \<Rightarrow> (WriteFailed, s', out)))"

text \<open>
  While the held-back frames are flushed any failure ends the session; in \<open>pump\<close> a failed write to
  the client ends the reader of the upstream, which leads to a reconnect, and a panic in that reader
  ends the program.  \<open>wx_stale\<close> counts the readers of connections that were given up after a failed
  write.
\<close>

inductive ws_step :: "ws_state \<Rightarrow> ws_state \<Rightarrow> bool" where
  no_upstream: "wx_phase x = Connecting \<Longrightarrow> connectUpstream dial (wx_pool x) = (None, p) \<Longrightarrow>
     ws_step x (x\<lparr>wx_pool := p, wx_phase := Closed, wx_toClient := wx_toClient x @ [close_frame]\<rparr>)"
| dialled: "wx_phase x = Connecting \<Longrightarrow> connectUpstream dial (wx_pool x) = (Some i, p) \<Longrightarrow>
     replay_order (wx_sess x) order \<Longrightarrow>
     ws_step x (x\<lparr>wx_pool := p, wx_phase := replay_begin order ok\<rparr>)"
| replay_reply: "wx_phase x = Replaying pr pf replaced \<Longrightarrow> pr \<noteq> [] \<Longrightarrow>
     replay_frame f pr pf replaced (wx_sess x) = (res, s) \<Longrightarrow>
     ws_step x (x\<lparr>wx_sess := s,
                  wx_phase := case res of Inl e \<Rightarrow> Connecting | Inr (pr', pf') \<Rightarrow> Replaying pr' pf' replaced\<rparr>)"
| replay_broken: "wx_phase x = Replaying pr pf replaced \<Longrightarrow> pr \<noteq> [] \<Longrightarrow>
     ws_step x (x\<lparr>wx_phase := Connecting\<rparr>)"
| replay_done: "wx_phase x = Replaying [] pf replaced \<Longrightarrow> ws_step x (x\<lparr>wx_phase := Flushing pf\<rparr>)"
| flush: "wx_phase x = Flushing (f # fs) \<Longrightarrow> deliver wok [f] (wx_sess x) (wx_toClient x) = (res, s, out) \<Longrightarrow>
     ws_step x (x\<lparr>wx_sess := s, wx_toClient := out,
                  wx_phase := if res = Delivered then Flushing fs else Closed\<rparr>)"
| flushed: "wx_phase x = Flushing [] \<Longrightarrow> ws_step x (x\<lparr>wx_phase := Pumping\<rparr>)"
| from_client: "wx_phase x = Pumping \<Longrightarrow> forwardToUpstream f (wx_sess x) = (ToUpstream g, s) \<Longrightarrow>
     ws_step x (x\<lparr>wx_sess := s, wx_toUpstream := if ok then wx_toUpstream x @ [g] else wx_toUpstream x,
                  wx_phase := if ok then Pumping else Connecting,
                  wx_stale := if ok then wx_stale x else Suc (wx_stale x)\<rparr>)"
| rejected: "wx_phase x = Pumping \<Longrightarrow> forwardToUpstream f (wx_sess x) = (ToClient g, s) \<Longrightarrow>
     ws_step x (x\<lparr>wx_sess := s, wx_toClient := if ok then wx_toClient x @ [g] else wx_toClient x,
                  wx_phase := if ok then Pumping else Connecting,
                  wx_stale := if ok then wx_stale x else Suc (wx_stale x)\<rparr>)"
| from_upstream: "wx_phase x = Pumping \<Longrightarrow> deliver wok [f] (wx_sess x) (wx_toClient x) = (res, s, out) \<Longrightarrow>
     ws_step x (x\<lparr>wx_sess := s, wx_toClient := out,
                  wx_phase := case res of Delivered \<Rightarrow> Pumping | WriteFailed \<Rightarrow> Connecting | Panicked \<Rightarrow> Closed\<rparr>)"
| late_frame: "0 < wx_stale x \<Longrightarrow> deliver wok [f] (wx_sess x) (wx_toClient x) = (res, s, out) \<Longrightarrow>
     ws_step x (x\<lparr>wx_sess := s, wx_toClient := out,
                  wx_stale := if res = Delivered then wx_stale x else wx_stale x - 1,
                  wx_phase := if res = Panicked then Closed
                              else note_registered (registers f (wx_sess x)) (wx_phase x)\<rparr>)"
| late_end: "0 < wx_stale x \<Longrightarrow> ws_step x (x\<lparr>wx_stale := wx_stale x - 1\<rparr>)"
| upstream_gone: "wx_phase x = Pumping \<Longrightarrow> ws_step x (x\<lparr>wx_phase := Connecting\<rparr>)"
| client_gone: "wx_phase x = Pumping \<Longrightarrow> ws_step x (x\<lparr>wx_phase := Closed\<rparr>)"
| pool_changed: "length (p_nodes p) = length (p_nodes (wx_pool x)) \<Longrightarrow> ws_step x (x\<lparr>wx_pool := p\<rparr>)"

inductive ws_reach :: "int \<Rightarrow> Pool \<Rightarrow> ws_state \<Rightarrow> bool" for cap pool where
  ws_start: "ws_reach cap pool
     \<lparr>wx_pool = pool, wx_sess = newWSSession cap, wx_phase = Connecting, wx_toClient = [], wx_toUpstream = [], wx_stale = 0\<rparr>"
| ws_next: "ws_reach cap pool x \<Longrightarrow> ws_step x y \<Longrightarrow> ws_reach cap pool y"

inductive_cases ws_stepE: "ws_step x y"

section \<open>Connecting tries every healthy node\<close>

text \<open>
  If the node \<open>d\<close> slots after the counter is healthy, \<open>Next\<close> returns a node at most that far away and
  leaves the counter just after it.
\<close>

lemma Next_loop_at:
  assumes "p_nodes p \<noteq> []" and "length (p_nodes p) < 2 ^ 64" and "unat (p_counter p) + d < 2 ^ 64"
    and "d < k" and "IsHealthy (p_nodes p ! ((unat (p_counter p) + d) mod length (p_nodes p)))"
  shows "\<exists>j \<le> d. Next_loop k p = (Some ((unat (p_counter p) + j) mod length (p_nodes p)),
           p\<lparr>p_counter := p_counter p + of_nat (Suc j)\<rparr>)"
  using assms
proof (induction k arbitrary: p d)
  case 0
  then show ?case by simp
next
  case (Suc k)
  let ?n = "length (p_nodes p)" and ?c = "unat (p_counter p)"
  have slot: "slot p (p_counter p) = ?c mod ?n"
    using slot_add [OF Suc.prems(1,2), of "p_counter p" 0] Suc.prems(3) by simp
  show ?case
  proof (cases "IsHealthy (p_nodes p ! (?c mod ?n))")
    case True
    with slot show ?thesis by (intro exI [of _ 0]) (simp add: Let_def bump_def)
  next
    case False
    with Suc.prems(5) obtain e where d: "d = Suc e" by (cases d) auto
    have c: "unat (p_counter (bump p)) = Suc ?c"
      using Suc.prems(3) d by (simp add: unat_word_ariths take_bit_nat_eq_self)
    have "\<exists>j \<le> e. Next_loop k (bump p) = (Some ((Suc ?c + j) mod ?n),
        (bump p)\<lparr>p_counter := p_counter (bump p) + of_nat (Suc j)\<rparr>)"
      using Suc.IH [of "bump p" e] Suc.prems c d by simp
    then obtain j where "j \<le> e" "Next_loop k (bump p) = (Some ((Suc ?c + j) mod ?n),
        (bump p)\<lparr>p_counter := p_counter (bump p) + of_nat (Suc j)\<rparr>)"
      by blast
    with slot False d show ?thesis
      by (intro exI [of _ "Suc j"]) (simp add: Let_def bump_def add.assoc)
  qed
qed

lemma connect_loop_finds:
  assumes "p_nodes p \<noteq> []" and "length (p_nodes p) < 2 ^ 64" and "unat (p_counter p) + d < 2 ^ 64"
    and "d < length (p_nodes p)" and "d < k"
    and "i = (unat (p_counter p) + d) mod length (p_nodes p)" and "IsHealthy (p_nodes p ! i)"
    and "\<And>b. dial b (httpToWS (URL_String (n_URL (p_nodes p ! i))))"
  shows "fst (connect_loop k dial a p) \<noteq> None"
  using assms
proof (induction d arbitrary: k a p rule: less_induct)
  case (less d)
  let ?n = "length (p_nodes p)" and ?c = "unat (p_counter p)"
  let ?at = "\<lambda>j. (?c + j) mod ?n" and ?to = "\<lambda>j. p\<lparr>p_counter := p_counter p + of_nat (Suc j)\<rparr>"
  obtain j where j: "j \<le> d" "Next p = (Some (?at j), ?to j)"
    using Next_loop_at [OF less.prems(1-4)] less.prems(6,7) by (auto simp: Next_def)
  obtain k' where k: "k = Suc k'" using less.prems(5) by (cases k) auto
  show ?case
  proof (cases "dial a (httpToWS (URL_String (n_URL (p_nodes p ! ?at j))))")
    case True
    with j k show ?thesis by simp
  next
    case False
    then have "j < d" using j(1) less.prems(6,8) by (metis le_neq_implies_less)
    then obtain e where e: "d = Suc (j + e)" using less_iff_Suc_add by auto
    then have c: "unat (p_counter (?to j)) = ?c + Suc j"
      using less.prems(3) by (simp add: unat_word_ariths unat_of_nat take_bit_nat_eq_self)
    have "fst (connect_loop k' dial (Suc a) (?to j)) \<noteq> None"
    proof (rule less.IH [of e])
      show "i = (unat (p_counter (?to j)) + e) mod length (p_nodes (?to j))"
        using less.prems(6) e unfolding c by (simp add: add.assoc)
    qed (use less.prems e c k in simp_all)
    with False j k show ?thesis by simp
  qed
qed

lemma connectUpstream_finds:
  assumes "roomy p" and "i < length (p_nodes p)" and "IsHealthy (p_nodes p ! i)"
    and "\<And>b. dial b (httpToWS (URL_String (n_URL (p_nodes p ! i))))"
  shows "fst (connectUpstream dial p) \<noteq> None"
proof -
  have "i \<in> set (visit p (unat (p_counter p)))" using assms(2) by (simp add: set_visit)
  then obtain d where "d < length (p_nodes p)" "i = (unat (p_counter p) + d) mod length (p_nodes p)"
    by (auto simp: visit_def)
  moreover have "p_nodes p \<noteq> []" using assms(2) by auto
  ultimately show ?thesis
    unfolding connectUpstream_def using assms by (intro connect_loop_finds) (auto simp: roomy_def)
qed

lemma Next_loop_nodes: "p_nodes (snd (Next_loop k p)) = p_nodes p"
  by (induction k arbitrary: p) (auto simp: Let_def)

lemma Next_nodes: "p_nodes (snd (Next p)) = p_nodes p"
  by (simp add: Next_def Next_loop_nodes)

lemma connect_loop_sound:
  assumes "connect_loop k dial a p = (r, p')" and "length (p_nodes p) < 2 ^ 64"
  shows "p_nodes p' = p_nodes p \<and>
         (\<forall>i. r = Some i \<longrightarrow> i < length (p_nodes p) \<and> IsHealthy (p_nodes p ! i) \<and>
            (\<exists>b. dial b (httpToWS (URL_String (n_URL (p_nodes p ! i))))))"
  using assms
proof (induction k arbitrary: a p)
  case 0
  then show ?case by simp
next
  case (Suc k)
  obtain r1 p1 where n: "Next p = (r1, p1)" by fastforce
  then have p1: "p_nodes p1 = p_nodes p" using Next_nodes [of p] by simp
  show ?case
  proof (cases r1)
    case None
    with Suc.prems n p1 show ?thesis by simp
  next
    case (Some i)
    then have "p_nodes p \<noteq> []" using n by (auto simp: Next_def)
    then have "i < length (p_nodes p) \<and> IsHealthy (p_nodes p ! i)"
      using Next_loop_healthy [of p "length (p_nodes p)" i] n Some Suc.prems(2) by (simp add: Next_def)
    with Suc.prems Suc.IH [of "Suc a" p1] n p1 Some show ?thesis
      by (auto split: if_splits)
  qed
qed

section \<open>What every step keeps\<close>

lemma settle_cap [simp]: "ws_replayPendingCap (settle r res s) = ws_replayPendingCap s"
  by (auto simp: settle_def register_def Let_def split: option.splits)

lemma forwardToClient_cap [simp]:
  "ws_replayPendingCap (snd (forwardToClient f s)) = ws_replayPendingCap s"
  by (auto simp: forwardToClient_def split: option.splits bool.splits)

lemma rewriteUnsubscribe_cap [simp]:
  "ws_replayPendingCap (snd (rewriteUnsubscribe msg s)) = ws_replayPendingCap s"
  by (auto simp: rewriteUnsubscribe_def Let_def split: option.splits)

lemma forwardToUpstream_cap [simp]:
  "ws_replayPendingCap (snd (forwardToUpstream f s)) = ws_replayPendingCap s"
  using rewriteUnsubscribe_cap [of "fr_msg f" s]
  by (cases "rewriteUnsubscribe (fr_msg f) s")
     (auto simp: forwardToUpstream_def split: option.splits)

text \<open>The session part of the invariant, and that each handler keeps it.\<close>

definition sess_ok :: "int \<Rightarrow> wsSession \<Rightarrow> bool" where
  "sess_ok cap s \<longleftrightarrow> ws_inv s \<and> ws_replayPendingCap s = cap"

lemma remap_held_ok: "sess_ok cap s \<Longrightarrow> sess_ok cap (remap_held replaced sub n s)"
  using ws_inv_remap [of s sub n]
  by (auto simp: sess_ok_def remap_held_def ws_inv_def distinct_update distinct_delete)

lemma sess_ok_handlers [intro]:
  "sess_ok cap s \<Longrightarrow> forwardToClient f s = (g, s') \<Longrightarrow> sess_ok cap s'"
  "sess_ok cap s \<Longrightarrow> forwardToUpstream f s = (r, s') \<Longrightarrow> sess_ok cap s'"
  using forwardToClient_inv [of s f] forwardToClient_cap [of f s]
    forwardToUpstream_inv [of s f] forwardToUpstream_cap [of f s]
  by (simp_all add: sess_ok_def)

lemma sess_ok_replay: "sess_ok cap s \<Longrightarrow> sess_ok cap (snd (replay_frame f pr pf replaced s))"
  by (simp add: replay_frame_def Let_def remap_held_ok split: option.split)

lemma sess_ok_deliver: "sess_ok cap s \<Longrightarrow> deliver ok fs s out = (res, s', out') \<Longrightarrow> sess_ok cap s'"
  by (induction ok fs s out rule: deliver.induct)
     (auto split: prod.splits option.splits list.splits bool.splits dest: sess_ok_handlers(1))

text \<open>The frames held back, and that there are never too many of them.\<close>

fun held_back :: "phase \<Rightarrow> frame list" where
  "held_back (Replaying pr pf replaced) = pf"
| "held_back (Flushing fs) = fs"
| "held_back ph = []"

lemma held_back_note [simp]: "held_back (note_registered ks ph) = held_back ph"
  by (cases ph) simp_all

lemma held_back_begin [simp]: "held_back (replay_begin order ok) = []"
  by (auto simp: replay_begin_def split: sum.splits)

lemma replay_frame_held:
  assumes "replay_frame f pr pf replaced s = (Inr (pr', pf'), s')"
    and "int (length pf) \<le> max 0 (ws_replayPendingCap s)"
  shows "int (length pf') \<le> max 0 (ws_replayPendingCap s)"
  using assms by (auto simp: replay_frame_def stash_def Let_def split: option.splits if_splits)

definition state_ok :: "int \<Rightarrow> Pool \<Rightarrow> ws_state \<Rightarrow> bool" where
  "state_ok cap pool x \<longleftrightarrow>
     sess_ok cap (wx_sess x) \<and> length (p_nodes (wx_pool x)) = length (p_nodes pool) \<and>
     int (length (held_back (wx_phase x))) \<le> max 0 cap"

lemma state_ok_step:
  assumes "ws_step x y" and "state_ok cap pool x" and "length (p_nodes pool) < 2 ^ 64"
  shows "state_ok cap pool y"
proof -
  have conn: "length (p_nodes p) = length (p_nodes pool)" if "connectUpstream dial (wx_pool x) = (r, p)"
    for dial r p
    using connect_loop_sound [OF that [unfolded connectUpstream_def]] assms(2,3) by (simp add: state_ok_def)
  have ok: "sess_ok cap (wx_sess x)" using assms(2) by (simp add: state_ok_def)
  note deliver.simps [simp del]
  from assms(1) show ?thesis
  proof cases
    case (replay_reply pr pf replaced f res s)
    with sess_ok_replay [OF ok, of f pr pf replaced] have "sess_ok cap s" by simp
    with replay_reply assms(2) replay_frame_held [of f pr pf replaced "wx_sess x"] ok show ?thesis
      by (auto simp: state_ok_def sess_ok_def split: sum.split)
  next
    case (flush f fs wok res s out)
    with assms(2) sess_ok_deliver [OF ok] show ?thesis by (simp add: state_ok_def)
  next
    case (from_client f g s ok)
    with assms(2) sess_ok_handlers(2) [OF ok] show ?thesis by (simp add: state_ok_def)
  next
    case (rejected f g s ok)
    with assms(2) sess_ok_handlers(2) [OF ok] show ?thesis by (simp add: state_ok_def)
  next
    case (from_upstream wok f res s out)
    with assms(2) sess_ok_deliver [OF ok] show ?thesis by (simp add: state_ok_def split: delivery.split)
  next
    case (late_frame wok f res s out)
    with assms(2) sess_ok_deliver [OF ok] show ?thesis by (simp add: state_ok_def)
  qed (use assms(2) conn in \<open>simp_all add: state_ok_def\<close>)
qed

lemma ws_reach_ok:
  assumes "ws_reach cap pool x" and "length (p_nodes pool) < 2 ^ 64"
  shows "state_ok cap pool x"
  using assms(1)
proof induction
  case ws_start
  then show ?case by (simp add: state_ok_def sess_ok_def newWSSession_inv) (simp add: newWSSession_def)
next
  case (ws_next x y)
  with state_ok_step assms(2) show ?case by blast
qed

section \<open>A replay that nothing interrupts\<close>

lemma replay_recv_frame:
  "pr \<noteq> [] \<Longrightarrow> replay_recv (f # fs) pr pf s =
     (case replay_frame f pr pf [] s of
        (Inl e, s') \<Rightarrow> (Inl e, s')
      | (Inr (pr', pf'), s') \<Rightarrow> replay_recv fs pr' pf' s')"
  by (subst replay_recv.simps) (simp add: replay_frame_def remap_held_def Let_def split: option.split)

lemma ws_steps_replay:
  assumes "replay_recv fs pr pf (wx_sess x) = (res, s)" and "wx_phase x = Replaying pr pf []"
  shows "ws_step\<^sup>*\<^sup>* x (x\<lparr>wx_sess := s, wx_phase := case res of Inl e \<Rightarrow> Connecting | Inr frames \<Rightarrow> Flushing frames\<rparr>)"
  using assms
proof (induction fs arbitrary: pr pf x)
  case Nil
  then show ?case
    using replay_done [of x pf "[]"] replay_broken [of x pr pf "[]"]
    by (cases "pr = []") (auto simp: replay_recv.simps)
next
  case (Cons f fs)
  show ?case
  proof (cases "pr = []")
    case True
    with Cons.prems show ?thesis
      using replay_done [of x pf "[]"] by (auto simp: replay_recv.simps)
  next
    case False
    obtain out s1 where step: "replay_frame f pr pf [] (wx_sess x) = (out, s1)" by fastforce
    note first = replay_reply [OF Cons.prems(2) False step]
    show ?thesis
    proof (cases out)
      case (Inl e)
      with Cons.prems(1) False step have "res = Inl e" "s = s1" by (simp_all add: replay_recv_frame)
      with first Inl show ?thesis by auto
    next
      case (Inr q)
      obtain pr' pf' where q: "q = (pr', pf')" by fastforce
      let ?y = "x\<lparr>wx_sess := s1, wx_phase := Replaying pr' pf' []\<rparr>"
      have "replay_recv fs pr' pf' (wx_sess ?y) = (res, s)"
        using Cons.prems(1) False step Inr q by (simp add: replay_recv_frame)
      from Cons.IH [OF this] first Inr q show ?thesis
        by (auto intro: converse_rtranclp_into_rtranclp)
    qed
  qed
qed

lemma ws_steps_flush:
  assumes "deliver wok fs (wx_sess x) (wx_toClient x) = (res, s, out)" and "wx_phase x = Flushing fs"
  shows "ws_step\<^sup>*\<^sup>* x (x\<lparr>wx_sess := s, wx_toClient := out,
                          wx_phase := if res = Delivered then Pumping else Closed\<rparr>)"
  using assms
proof (induction fs arbitrary: wok x)
  case Nil
  then show ?case using flushed [of x] by auto
next
  case (Cons f fs)
  obtain g s1 where fwd: "forwardToClient f (wx_sess x) = (g, s1)" by fastforce
  show ?case
  proof (cases "g \<noteq> None \<and> (\<exists>wok'. wok = True # wok')")
    case True
    then obtain h wok' where g: "g = Some h" "wok = True # wok'" by blast
    let ?y = "x\<lparr>wx_sess := s1, wx_toClient := wx_toClient x @ [h], wx_phase := Flushing fs\<rparr>"
    have "ws_step x ?y"
      using flush [OF Cons.prems(2), of "[True]"] fwd g by simp
    moreover have "ws_step\<^sup>*\<^sup>* ?y (?y\<lparr>wx_sess := s, wx_toClient := out,
        wx_phase := if res = Delivered then Pumping else Closed\<rparr>)"
      by (rule Cons.IH [of wok']) (use Cons.prems(1) fwd g in simp_all)
    ultimately show ?thesis by (simp add: converse_rtranclp_into_rtranclp)
  next
    case False
    then have "deliver [] [f] (wx_sess x) (wx_toClient x) = (res, s, out)" "res \<noteq> Delivered"
      using Cons.prems(1) fwd by (auto split: option.splits list.splits bool.splits)
    with flush [OF Cons.prems(2), of "[]"] show ?thesis by (simp add: r_into_rtranclp)
  qed
qed

text \<open>The two ways a connection can go when no late frame comes in between.\<close>

lemma ws_steps_replayed:
  assumes "wx_phase x = Connecting" and "connectUpstream dial (wx_pool x) = (Some i, p)"
    and "replay_order (wx_sess x) order" and "replaySubscriptions order ok fs (wx_sess x) = (res, s)"
  shows "ws_step\<^sup>*\<^sup>* x (x\<lparr>wx_pool := p, wx_sess := s,
           wx_phase := case res of Inl e \<Rightarrow> Connecting | Inr frames \<Rightarrow> Flushing frames\<rparr>)"
proof -
  note first = dialled [OF assms(1-3), of ok]
  show ?thesis
  proof (cases "order = []")
    case True
    with first assms(4) show ?thesis by (auto simp: replaySubscriptions_def replay_begin_def)
  next
    case order: False
    show ?thesis
    proof (cases "replay_send ok order [] []")
      case (Inl e)
      with order first assms(4) show ?thesis by (auto simp: replaySubscriptions_def replay_begin_def)
    next
      case (Inr q)
      obtain pr sent where q: "q = (pr, sent)" by fastforce
      let ?y = "x\<lparr>wx_pool := p, wx_phase := Replaying pr [] []\<rparr>"
      have "replay_recv fs pr [] (wx_sess ?y) = (res, s)"
        using order Inr q assms(4) by (simp add: replaySubscriptions_def)
      from ws_steps_replay [OF this] order first Inr q show ?thesis
        by (simp add: replay_begin_def converse_rtranclp_into_rtranclp)
    qed
  qed
qed

lemma ws_reach_steps: "ws_step\<^sup>*\<^sup>* x y \<Longrightarrow> ws_reach cap pool x \<Longrightarrow> ws_reach cap pool y"
  by (induction rule: rtranclp_induct) (auto intro: ws_next)

lemma ws_reach_connected:
  assumes "ws_reach cap pool x" and "wx_phase x = Connecting"
    and "connectUpstream dial (wx_pool x) = (Some i, p)" and "replay_order (wx_sess x) order"
    and "replaySubscriptions order ok fs (wx_sess x) = (Inr frames, s)"
    and "deliver wok frames s (wx_toClient x) = (res, s', out)"
  shows "ws_reach cap pool (x\<lparr>wx_pool := p, wx_sess := s', wx_toClient := out,
           wx_phase := if res = Delivered then Pumping else Closed\<rparr>)"
proof -
  let ?y = "x\<lparr>wx_pool := p, wx_sess := s, wx_phase := Flushing frames\<rparr>"
  have "ws_reach cap pool ?y"
    using ws_reach_steps [OF ws_steps_replayed [OF assms(2-5)] assms(1)] by simp
  moreover have "ws_step\<^sup>*\<^sup>* ?y (?y\<lparr>wx_sess := s', wx_toClient := out,
      wx_phase := if res = Delivered then Pumping else Closed\<rparr>)"
    by (rule ws_steps_flush [where wok = wok]) (simp_all add: assms(6))
  ultimately show ?thesis using ws_reach_steps by fastforce
qed

section \<open>Late frames during a replay\<close>

lemma registers_only:
  "k \<notin> set (registers f s) \<Longrightarrow> map_of (ws_subs (snd (forwardToClient f s))) k = map_of (ws_subs s) k"
  by (auto simp: registers_def forwardToClient_def settle_def register_def Let_def update_conv'
      split: option.splits bool.splits if_splits)

lemma late_pending:
  "registers f s = [] \<Longrightarrow>
     snd (forwardToClient f s) = s\<lparr>ws_pending := ws_pending (snd (forwardToClient f s))\<rparr>"
  by (auto simp: registers_def forwardToClient_def settle_def Let_def
      split: option.splits bool.splits if_splits)

lemma replay_frame_pending:
  "replay_frame f pr pf replaced (s\<lparr>ws_pending := p\<rparr>) =
     (fst (replay_frame f pr pf replaced s), (snd (replay_frame f pr pf replaced s))\<lparr>ws_pending := p\<rparr>)"
  by (simp add: replay_frame_def remap_held_def remap_def stash_def Let_def split: option.split)

lemma forwardToClient_pending:
  assumes "ws_pending s' = ws_pending s"
  shows "ws_pending (snd (forwardToClient f s')) = ws_pending (snd (forwardToClient f s))"
    and "registers f s' = registers f s"
  using assms by (auto simp: forwardToClient_def settle_def register_def registers_def Let_def
      split: option.splits bool.splits)

text \<open>
  A late frame that registers nothing and an iteration of the replay may be swapped: the outcome of the
  replay and the session after both are the same.
\<close>

lemma late_frame_commutes:
  assumes "registers f s = []" and "replay_frame r pr pf replaced s = (out, s')"
  shows "replay_frame r pr pf replaced (snd (forwardToClient f s)) = (out, snd (forwardToClient f s'))"
proof -
  have "ws_pending s' = ws_pending s"
    using assms(2) by (auto simp: replay_frame_def remap_held_def remap_def Let_def split: option.splits if_splits)
  note same = forwardToClient_pending [OF this, of f]
  have "snd (forwardToClient f s) = s\<lparr>ws_pending := ws_pending (snd (forwardToClient f s))\<rparr>"
    using assms(1) by (rule late_pending)
  moreover have "snd (forwardToClient f s') = s'\<lparr>ws_pending := ws_pending (snd (forwardToClient f s))\<rparr>"
    using late_pending [of f s'] same assms(1) by simp
  ultimately show ?thesis
    using replay_frame_pending [where f = r and s = s and pr = pr and pf = pf and replaced = replaced] assms(2)
    by (metis fst_conv snd_conv)
qed

section \<open>Properties\<close>

text \<open>
  Property C10.  Through any interleaving of client frames, upstream frames, late frames of connections
  already given up (also between the answers to a replay), failed writes, disconnects, reconnects and
  replays, the tables of a session keep their distinct keys, every subscription stays filed under the id
  its client knows, at most 1024 subscribe requests are without an answer, and at no time are more
  frames held back than the configured cap.
\<close>

theorem ws_session_invariant:
  assumes "ws_reach cap pool x" and "length (p_nodes pool) < 2 ^ 64"
  shows "ws_inv (wx_sess x) \<and> int (length (ws_pending (wx_sess x))) \<le> 1024 \<and>
         int (length (held_back (wx_phase x))) \<le> max 0 cap"
  using ws_reach_ok [OF assms] by (simp add: state_ok_def sess_ok_def ws_inv_def maxPendingSubscribes_def)

definition ws_node :: "bool \<Rightarrow> string \<Rightarrow> Upstream" where
  "ws_node h host =
     (demo_node h CapBasic 0)\<lparr>n_URL := empty_URL\<lparr>u_Scheme := ''http'', u_Host := host\<rparr>\<rparr>"

definition ws_pool :: Pool where
  "ws_pool = \<lparr>p_nodes = [ws_node True ''a'', ws_node False ''b'', ws_node True ''c''], p_counter = 0\<rparr>"

lemma ws_pool_connects:
  "connectUpstream (\<lambda>_ _. True) ws_pool = (Some 0, ws_pool\<lparr>p_counter := 1\<rparr>)"
  by (simp add: connectUpstream_def ws_pool_def Next_def bump_def slot_def ws_node_def demo_node_def
      node_defs Let_def numeral_3_eq_3)

text \<open>A client connects to node \<open>a\<close> and asks for a subscription.\<close>

definition subscribe_frame :: frame where
  "subscribe_frame =
     \<lparr>fr_mt = 1, fr_msg = ''{\"id\":1,\"method\":\"eth_subscribe\",\"params\":[\"newHeads\"]}''\<rparr>"

lemma ws_run_example:
  "ws_reach 8 ws_pool
     \<lparr>wx_pool = ws_pool\<lparr>p_counter := 1\<rparr>,
      wx_sess = (newWSSession 8)\<lparr>ws_pending := [(''1'', ''[\"newHeads\"]'')]\<rparr>,
      wx_phase = Pumping, wx_toClient = [], wx_toUpstream = [subscribe_frame], wx_stale = 0\<rparr>"
proof -
  have "replaySubscriptions [] [] [] (newWSSession 8) = (Inr [], newWSSession 8)"
    by (simp add: replaySubscriptions_def)
  moreover have "replay_order (newWSSession 8) []"
    by (simp add: replay_order_def newWSSession_def)
  ultimately have "ws_reach 8 ws_pool
     \<lparr>wx_pool = ws_pool\<lparr>p_counter := 1\<rparr>, wx_sess = newWSSession 8, wx_phase = Pumping,
      wx_toClient = [], wx_toUpstream = [], wx_stale = 0\<rparr>"
    using ws_reach_connected [OF ws_start, where wok = "[]" and out = "[]" and res = Delivered] ws_pool_connects
    by fastforce
  moreover have "forwardToUpstream subscribe_frame (newWSSession 8) =
      (ToUpstream subscribe_frame, (newWSSession 8)\<lparr>ws_pending := [(''1'', ''[\"newHeads\"]'')]\<rparr>)"
    by code_simp
  ultimately show ?thesis
    using ws_next [OF _ from_client [where ok = True and f = subscribe_frame]] by fastforce
qed

theorem ws_session_invariant_witness:
  "ws_inv ((newWSSession 8)\<lparr>ws_pending := [(''1'', ''[\"newHeads\"]'')]\<rparr>)"
  using ws_session_invariant [OF ws_run_example] by (simp add: ws_pool_def)



text \<open>
  While an upstream accepts connections and turns the replayed subscriptions down, the session keeps
  reconnecting at once: the step leads back to the same session, and no other step looks whether the
  client is still there.
\<close>

lemma replay_rejected_again:
  "let x = \<lparr>wx_pool = ws_pool, wx_sess = two_subs, wx_phase = Connecting, wx_toClient = [], wx_toUpstream = [], wx_stale = 0\<rparr>
   in ws_step\<^sup>*\<^sup>* x (x\<lparr>wx_pool := ws_pool\<lparr>p_counter := 1\<rparr>\<rparr>)"
proof -
  let ?f = "\<lparr>fr_mt = 1, fr_msg = ''{\"id\":\"replay:0x1\",\"error\":{\"code\":-32000}}''\<rparr>"
  let ?x = "\<lparr>wx_pool = ws_pool, wx_sess = two_subs, wx_phase = Connecting, wx_toClient = [], wx_toUpstream = [], wx_stale = 0\<rparr>"
  have "replaySubscriptions (map snd (ws_subs two_subs)) [True, True] [?f] (wx_sess ?x) =
      (Inl (ReplayRejected ''0x1'' ''{\"code\":-32000}''), two_subs)"
    unfolding ws_state.select_convs by code_simp
  from ws_steps_replayed [OF _ _ _ this, of "\<lambda>_ _. True" 0 "ws_pool\<lparr>p_counter := 1\<rparr>"] show ?thesis
    using ws_pool_connects by (simp add: replay_order_def)
qed

text \<open>
  The answer to a subscribe request can be lost in a failover although the client gets it: the write of
  another frame fails, the session reconnects and replays what it knows, and only then does the reader
  of the old connection handle the answer.  The client is subscribed as far as it and the session can
  tell, but the request went to the old upstream only.
\<close>

definition block_number_frame :: frame where
  "block_number_frame = \<lparr>fr_mt = 1, fr_msg = ''{\"id\":2,\"method\":\"eth_blockNumber\"}''\<rparr>"

definition subscribed_frame :: frame where
  "subscribed_frame = \<lparr>fr_mt = 1, fr_msg = ''{\"id\":1,\"result\":\"0xabc\"}''\<rparr>"

lemma ws_pool_reconnects:
  "connectUpstream (\<lambda>_ _. True) (ws_pool\<lparr>p_counter := 1\<rparr>) = (Some 2, ws_pool\<lparr>p_counter := 3\<rparr>)"
  by (simp add: connectUpstream_def ws_pool_def Next_def bump_def slot_def ws_node_def demo_node_def
      node_defs Let_def numeral_3_eq_3)

lemma late_answer_lost:
  "\<exists>x. ws_reach 8 ws_pool x \<and> wx_phase x = Pumping \<and> p_counter (wx_pool x) = 3 \<and>
     wx_toUpstream x = [subscribe_frame] \<and> wx_toClient x = [subscribed_frame] \<and>
     map fst (ws_subs (wx_sess x)) = [''0xabc'']"
proof -
  let ?s = "(newWSSession 8)\<lparr>ws_pending := [(''1'', ''[\"newHeads\"]'')]\<rparr>"
  let ?x = "\<lambda>c ph st. \<lparr>wx_pool = ws_pool\<lparr>p_counter := c\<rparr>, wx_sess = ?s, wx_phase = ph, wx_toClient = [],
     wx_toUpstream = [subscribe_frame], wx_stale = st\<rparr>"
  have "forwardToUpstream block_number_frame ?s = (ToUpstream block_number_frame, ?s)" by code_simp
  then have "ws_reach 8 ws_pool (?x 1 Connecting 1)"
    using ws_next [OF ws_run_example from_client [where ok = False and f = block_number_frame]] by simp
  moreover have "replay_order ?s []" "replaySubscriptions [] [] [] ?s = (Inr [], ?s)"
    by (simp_all add: replay_order_def newWSSession_def replaySubscriptions_def)
  ultimately have "ws_reach 8 ws_pool (?x 3 Pumping 1)"
    using ws_reach_connected [where wok = "[]" and out = "[]" and res = Delivered] ws_pool_reconnects by fastforce
  moreover obtain s' where s': "forwardToClient subscribed_frame ?s = (Some subscribed_frame, s')"
    "map fst (ws_subs s') = [''0xabc'']"
  proof -
    have "fst (forwardToClient subscribed_frame ?s) = Some subscribed_frame"
      "map fst (ws_subs (snd (forwardToClient subscribed_frame ?s))) = [''0xabc'']"
      by code_simp+
    with that show thesis by (metis prod.collapse)
  qed
  then have "deliver [True] [subscribed_frame] ?s [] = (Delivered, s', [subscribed_frame])" by simp
  ultimately have "ws_reach 8 ws_pool ((?x 3 Pumping 1)\<lparr>wx_sess := s', wx_toClient := [subscribed_frame]\<rparr>)"
    using ws_next [OF _ late_frame [where x = "?x 3 Pumping 1" and wok = "[True]" and f = subscribed_frame]] by fastforce
  with s'(2) show ?thesis by fastforce
qed

text \<open>
  The id a client knows is the one of the upstream that first answered, and a later upstream may hand
  out the same id for another subscription: the new one takes the place of the old one in the table.
  The old one is neither replayed nor unsubscribed any more, and the notifications of both reach the
  client under one id.
\<close>

definition moved_sub :: wsSession where
  "moved_sub =
     (newWSSession 8)\<lparr>
       ws_subs := [(''0x1'', \<lparr>sub_params = ''[\"newHeads\"]'', sub_clientID = ''0x1'', sub_upstreamID = ''0x9''\<rparr>)],
       ws_upToClient := [(''0x9'', ''0x1'')], ws_pending := [(''5'', ''[\"logs\"]'')]\<rparr>"

lemma colliding_id_replaces:
  "let s = snd (forwardToClient \<lparr>fr_mt = 1, fr_msg = ''{\"id\":5,\"result\":\"0x1\"}''\<rparr> moved_sub) in
     map (\<lambda>(k, sub). (k, sub_params sub, sub_upstreamID sub)) (ws_subs s) = [(''0x1'', ''[\"logs\"]'', ''0x1'')] \<and>
     map_of (ws_upToClient s) ''0x9'' = Some ''0x1'' \<and> map_of (ws_upToClient s) ''0x1'' = Some ''0x1''"
  by code_simp

end
