(* ===== verification/GoJsonText.thy ===== *)
theory GoJsonText
  imports Models
begin

text \<open>
  Compact JSON texts as a data type, with a printer, and the round trip through the parser: what is
  printed is read back as the value it stands for, with the texts of its parts as the raw messages.
  Messages whose parts are not constants are decoded by exhibiting the text they are.
\<close>

section \<open>Texts\<close>

datatype jtext =
    TNull
  | TBool bool
  | TNum string
  | TStr string
  | TArr "jtext list"
  | TObj "(string \<times> jtext) list"

text \<open>Strings are restricted to characters that the encoder leaves alone, numbers to natural ones.\<close>

definition safe_char :: "char \<Rightarrow> bool" where
  "safe_char c \<longleftrightarrow> plain_char c \<and> \<not> html_char c"

definition safe :: "string \<Rightarrow> bool" where
  "safe s \<longleftrightarrow> list_all safe_char s"

definition quoted :: "string \<Rightarrow> string" where
  "quoted s = CHR 0x22 # s @ [CHR 0x22]"

definition natural :: "string \<Rightarrow> bool" where
  "natural l \<longleftrightarrow> l \<noteq> [] \<and> list_all is_digit l \<and> (hd l \<noteq> CHR ''0'' \<or> length l = 1)"

fun jprint :: "jtext \<Rightarrow> string" and jarr :: "jtext list \<Rightarrow> string" and jobj :: "(string \<times> jtext) list \<Rightarrow> string" where
  "jprint TNull = ''null''"
| "jprint (TBool b) = (if b then ''true'' else ''false'')"
| "jprint (TNum l) = l"
| "jprint (TStr s) = quoted s"
| "jprint (TArr ts) = CHR ''['' # jarr ts"
| "jprint (TObj ms) = CHR ''{'' # jobj ms"
| "jarr [] = '']''"
| "jarr [t] = jprint t @ '']''"
| "jarr (t # u # ts) = jprint t @ '','' @ jarr (u # ts)"
| "jobj [] = ''}''"
| "jobj [(k, t)] = quoted k @ '':'' @ jprint t @ ''}''"
| "jobj ((k, t) # m # ms) = quoted k @ '':'' @ jprint t @ '','' @ jobj (m # ms)"

fun jval :: "jtext \<Rightarrow> json" and jvals :: "jtext list \<Rightarrow> (bytes \<times> json) list"
  and jmems :: "(string \<times> jtext) list \<Rightarrow> (string \<times> bytes \<times> json) list" where
  "jval TNull = JNull"
| "jval (TBool b) = JBool b"
| "jval (TNum l) = JNum l"
| "jval (TStr s) = JStr s"
| "jval (TArr ts) = JArr (jvals ts)"
| "jval (TObj ms) = JObj (jmems ms)"
| "jvals [] = []"
| "jvals (t # ts) = (jprint t, jval t) # jvals ts"
| "jmems [] = []"
| "jmems ((k, t) # ms) = (k, jprint t, jval t) # jmems ms"

fun jok :: "nat \<Rightarrow> jtext \<Rightarrow> bool" and joks :: "nat \<Rightarrow> jtext list \<Rightarrow> bool"
  and jokm :: "nat \<Rightarrow> (string \<times> jtext) list \<Rightarrow> bool" where
  "jok d (TNum l) = natural l"
| "jok d (TStr s) = safe s"
| "jok d (TArr ts) = (d < 10000 \<and> joks (Suc d) ts)"
| "jok d (TObj ms) = (d < 10000 \<and> jokm (Suc d) ms)"
| "jok d _ = True"
| "joks d [] = True"
| "joks d (t # ts) = (jok d t \<and> joks d ts)"
| "jokm d [] = True"
| "jokm d ((k, t) # ms) = (safe k \<and> jok d t \<and> jokm d ms)"

section \<open>The round trip\<close>

lemma safe_plain: "safe s \<Longrightarrow> list_all plain_char s"
  by (auto simp: safe_def safe_char_def elim!: list.pred_mono_strong)

lemma scan_quoted: "safe s \<Longrightarrow> scan_string (s @ CHR 0x22 # r) = Some (map SByte s, r)"
  by (rule scan_string_plain) (rule safe_plain)

lemma unquote_safe: "safe s \<Longrightarrow> unquote (map SByte s) = s"
  by (rule unquote_plain) (rule safe_plain)

text \<open>What may follow a number.\<close>

definition ends :: "string \<Rightarrow> bool" where
  "ends r \<longleftrightarrow> r = [] \<or> \<not> is_digit (hd r) \<and> hd r \<notin> set ''.eE''"

lemma ends_simps [simp]:
  "ends []" "ends (CHR '','' # r)" "ends (CHR '']'' # r)" "ends (CHR ''}'' # r)"
  by (simp_all add: ends_def is_digit_def)

lemma scan_natural:
  assumes "natural l" and "ends r"
  shows "scan_number (l @ r) = Some (l, r)"
proof -
  have tw: "takeWhile is_digit (l @ r) = l" "dropWhile is_digit (l @ r) = r"
    using assms by (auto simp: natural_def ends_def list_all_iff takeWhile_append dropWhile_append
        takeWhile_eq_Nil_iff dropWhile_eq_self_iff)
  obtain c l' where l: "l = c # l'" using assms(1) by (cases l) (auto simp: natural_def)
  have c: "is_digit c" "c = CHR ''0'' \<longrightarrow> l' = []" using assms(1) by (auto simp: l natural_def)
  then have "c \<noteq> CHR ''-''" by (auto simp: is_digit_def)
  moreover have "scan_frac r = Some ([], r)" "scan_exp r = Some ([], r)"
    using assms(2) by (cases r; auto simp: ends_def scan_frac_def scan_exp_def)+
  moreover have "scan_int (l @ r) = Some (l, r)"
    using c tw by (simp add: l scan_int_def scan_digits_def)
  ultimately show ?thesis by (simp add: scan_number_def l)
qed

text \<open>A text starts with none of the characters that are looked for between texts.\<close>

lemma jprint_hd:
  assumes "jok d t"
  shows "\<exists>c r. jprint t = c # r \<and> \<not> is_ws c \<and> c \<notin> set '']},:''"
proof (cases t)
  case (TNum l)
  then obtain c r where "l = c # r" "is_digit c" using assms by (cases l) (auto simp: natural_def)
  with TNum show ?thesis by (auto simp: is_digit_def is_ws_def)
qed (auto simp: quoted_def is_ws_def)

lemma skip_ws_hd: "\<not> is_ws c \<Longrightarrow> skip_ws (c # r) = c # r"
  by (simp add: skip_ws_def)

lemma skip_jprint [simp]: "jok d t \<Longrightarrow> skip_ws (jprint t @ r) = jprint t @ r"
  using jprint_hd [of d t] by (auto simp: skip_ws_hd)

lemma raw_of_append [simp]: "raw_of (s @ r) r = s"
  by (simp add: raw_of_def)

lemma is_ws_simps [simp]:
  "\<not> is_ws (CHR '','')" "\<not> is_ws (CHR '':'')" "\<not> is_ws (CHR '']'')" "\<not> is_ws (CHR ''}'')"
  "\<not> is_ws (CHR 0x22)"
  by (simp_all add: is_ws_def)

lemma jarr_hd: "ts \<noteq> [] \<Longrightarrow> joks d ts \<Longrightarrow> \<exists>c r. jarr ts = c # r \<and> \<not> is_ws c \<and> c \<notin> set '']},:''"
  using jprint_hd [of d "hd ts"] by (cases ts rule: jarr.cases) auto

lemma jobj_hd: "ms \<noteq> [] \<Longrightarrow> \<exists>r. jobj ms = CHR 0x22 # r"
  by (cases ms rule: jobj.cases) (auto simp: quoted_def)

lemma scan_scalar_word:
  "scan_scalar (''null'' @ r) = Some (JNull, r)" "scan_scalar (''true'' @ r) = Some (JBool True, r)"
  "scan_scalar (''false'' @ r) = Some (JBool False, r)"
  by (simp_all add: scan_scalar_def literals_def)

lemma scan_scalar_natural:
  assumes "natural l" and "ends r"
  shows "scan_scalar (l @ r) = Some (JNum l, r)"
proof -
  obtain c l' where l: "l = c # l'" "is_digit c" using assms(1) by (cases l) (auto simp: natural_def)
  then have "c \<noteq> CHR 0x22" "c \<noteq> CHR ''n''" "c \<noteq> CHR ''t''" "c \<noteq> CHR ''f''" by (auto simp: is_digit_def)
  then show ?thesis
    using scan_natural [OF assms] by (simp add: l scan_scalar_def literals_def)
qed

lemma natural_no_bracket:
  "natural l \<Longrightarrow> \<not> HasPrefix (l @ r) ''['' \<and> \<not> HasPrefix (l @ r) ''{''"
  by (cases l) (auto simp: natural_def is_digit_def)

text \<open>Enough fuel reads a text.\<close>

lemma pval_jprint:
  "jok d t \<Longrightarrow> ends r \<Longrightarrow> \<exists>n. \<forall>f \<ge> n. pval f d (jprint t @ r) = Some (jval t, r)"
  "joks d ts \<Longrightarrow> ts \<noteq> [] \<Longrightarrow> \<exists>n. \<forall>f \<ge> n. parr f d (jarr ts @ r) = Some (jvals ts, r)"
  "jokm d ms \<Longrightarrow> ms \<noteq> [] \<Longrightarrow> \<exists>n. \<forall>f \<ge> n. pobj f d (jobj ms @ r) = Some (jmems ms, r)"
proof (induction t and ts and ms arbitrary: d r and d r and d r rule: jprint_jarr_jobj.induct)
  case 1
  have "pval f d (jprint TNull @ r) = Some (jval TNull, r)" if "1 \<le> f" for f
    using that scan_scalar_word(1) [of r] by (cases f) simp_all
  then show ?case by blast
next
  case (2 b)
  have "pval f d (jprint (TBool b) @ r) = Some (jval (TBool b), r)" if "1 \<le> f" for f
    using that scan_scalar_word(2,3) [of r] by (cases f; cases b) simp_all
  then show ?case by blast
next
  case (3 l)
  have "pval f d (jprint (TNum l) @ r) = Some (jval (TNum l), r)" if "1 \<le> f" for f
    using that 3 natural_no_bracket [of l r] by (cases f) (simp_all add: scan_scalar_natural)
  then show ?case by blast
next
  case (4 s)
  have "pval f d (jprint (TStr s) @ r) = Some (jval (TStr s), r)" if "1 \<le> f" for f
    using that 4 by (cases f) (simp_all add: quoted_def scan_scalar_def scan_quoted unquote_safe)
  then show ?case by blast
next
  case (5 ts)
  show ?case
  proof (cases "ts = []")
    case True
    have "pval f d (jprint (TArr ts) @ r) = Some (jval (TArr ts), r)" if "1 \<le> f" for f
      using that 5 True by (cases f) (simp_all add: skip_ws_hd Let_def)
    then show ?thesis by blast
  next
    case False
    with "5.IH" [of "Suc d" r] "5.prems" obtain n
      where n: "\<forall>f \<ge> n. parr f (Suc d) (jarr ts @ r) = Some (jvals ts, r)" by auto
    obtain c q where "jarr ts = c # q" "\<not> is_ws c" "c \<noteq> CHR '']''"
      using jarr_hd [OF False, of "Suc d"] "5.prems" by auto
    then have "pval f d (jprint (TArr ts) @ r) = Some (jval (TArr ts), r)" if "Suc n \<le> f" for f
      using that 5 n [rule_format, of "f - 1"] by (cases f) (simp_all add: skip_ws_hd Let_def)
    then show ?thesis by blast
  qed
next
  case (6 ms)
  show ?case
  proof (cases "ms = []")
    case True
    have "pval f d (jprint (TObj ms) @ r) = Some (jval (TObj ms), r)" if "1 \<le> f" for f
      using that 6 True by (cases f) (simp_all add: skip_ws_hd Let_def)
    then show ?thesis by blast
  next
    case False
    with "6.IH" [of "Suc d" r] "6.prems" obtain n
      where n: "\<forall>f \<ge> n. pobj f (Suc d) (jobj ms @ r) = Some (jmems ms, r)" by auto
    obtain q where "jobj ms = CHR 0x22 # q" using jobj_hd [OF False] by auto
    then have "pval f d (jprint (TObj ms) @ r) = Some (jval (TObj ms), r)" if "Suc n \<le> f" for f
      using that 6 n [rule_format, of "f - 1"] by (cases f) (simp_all add: skip_ws_hd Let_def)
    then show ?thesis by blast
  qed
next
  case 7
  then show ?case by simp
next
  case (8 t)
  obtain n where n: "\<forall>f \<ge> n. pval f d (jprint t @ CHR '']'' # r) = Some (jval t, CHR '']'' # r)"
    using "8.IH" [of d "CHR '']'' # r"] "8.prems" by auto
  have "parr f d (jarr [t] @ r) = Some (jvals [t], r)" if "Suc n \<le> f" for f
    using that n [rule_format, of "f - 1"] by (cases f) (simp_all add: skip_ws_hd Let_def)
  then show ?case by blast
next
  case (9 t u ts)
  obtain n k where n: "\<forall>f \<ge> n. pval f d (jprint t @ CHR '','' # jarr (u # ts) @ r) =
        Some (jval t, CHR '','' # jarr (u # ts) @ r)"
    and k: "\<forall>f \<ge> k. parr f d (jarr (u # ts) @ r) = Some (jvals (u # ts), r)"
    using "9.IH"(1) [of d "CHR '','' # jarr (u # ts) @ r"] "9.IH"(2) [of d r] "9.prems" by auto
  obtain c q where "jarr (u # ts) = c # q" "\<not> is_ws c"
    using jarr_hd [of "u # ts" d] "9.prems" by auto
  then have "parr f d (jarr (t # u # ts) @ r) = Some (jvals (t # u # ts), r)" if "Suc (max n k) \<le> f" for f
    using that n [rule_format, of "f - 1"] k [rule_format, of "f - 1"]
    by (cases f) (simp_all add: skip_ws_hd Let_def)
  then show ?case by blast
next
  case 10
  then show ?case by simp
next
  case (11 key t)
  obtain n where n: "\<forall>f \<ge> n. pval f d (jprint t @ CHR ''}'' # r) = Some (jval t, CHR ''}'' # r)"
    using "11.IH" [of d "CHR ''}'' # r"] "11.prems" by auto
  have "pobj f d (jobj [(key, t)] @ r) = Some (jmems [(key, t)], r)" if "Suc n \<le> f" for f
    using that n [rule_format, of "f - 1"] "11.prems" skip_jprint [of d t "CHR ''}'' # r"]
    by (cases f) (simp_all add: skip_ws_hd Let_def quoted_def scan_quoted unquote_safe)
  then show ?case by blast
next
  case (12 key t m ms)
  obtain n k where n: "\<forall>f \<ge> n. pval f d (jprint t @ CHR '','' # jobj (m # ms) @ r) =
        Some (jval t, CHR '','' # jobj (m # ms) @ r)"
    and k: "\<forall>f \<ge> k. pobj f d (jobj (m # ms) @ r) = Some (jmems (m # ms), r)"
    using "12.IH"(1) [of d "CHR '','' # jobj (m # ms) @ r"] "12.IH"(2) [of d r] "12.prems" by auto
  obtain q where "jobj (m # ms) = CHR 0x22 # q" using jobj_hd [of "m # ms"] by auto
  then have "pobj f d (jobj ((key, t) # m # ms) @ r) = Some (jmems ((key, t) # m # ms), r)"
    if "Suc (max n k) \<le> f" for f
    using that n [rule_format, of "f - 1"] k [rule_format, of "f - 1"] "12.prems"
      skip_jprint [of d t "CHR '','' # jobj (m # ms) @ r"]
    by (cases f) (simp_all add: skip_ws_hd Let_def quoted_def scan_quoted unquote_safe)
  then show ?case by blast
qed

text \<open>Parsing what is printed, with blanks at the end as the stream encoder leaves them.\<close>

lemma ends_blank: "list_all is_ws e \<Longrightarrow> ends e"
  by (cases e) (auto simp: ends_def is_ws_def is_digit_def)

lemma json_parse_jprint:
  assumes "jok 0 t" and "list_all is_ws e"
  shows "json_parse (jprint t @ e) = Some (jval t)"
proof -
  obtain n where n: "\<forall>f \<ge> n. pval f 0 (jprint t @ e) = Some (jval t, e)"
    using pval_jprint(1) [OF assms(1) ends_blank [OF assms(2)]] by blast
  have "skip_ws e = []" using assms(2) by (simp add: skip_ws_def list_all_iff)
  with n [rule_format, of "n + (2 * length (jprint t @ e) + 1)"] assms(1) show ?thesis
    unfolding json_parse_more [of "jprint t @ e" n] by simp
qed

lemmas json_parse_text = json_parse_jprint [of _ "[]", simplified]

text \<open>Nesting less deep is accepted too.\<close>

lemma jok_mono:
  "jok d t \<Longrightarrow> e \<le> d \<Longrightarrow> jok e t"
  "joks d ts \<Longrightarrow> e \<le> d \<Longrightarrow> joks e ts"
  "jokm d ms \<Longrightarrow> e \<le> d \<Longrightarrow> jokm e ms"
proof (induction d t and d ts and d ms arbitrary: e and e and e rule: jok_joks_jokm.induct)
  case (3 d ts)
  then show ?case using "3.IH" [of "Suc e"] by simp
next
  case (4 d ms)
  then show ?case using "4.IH" [of "Suc e"] by simp
qed simp_all

lemma jokm_iff: "jokm d ms \<longleftrightarrow> (\<forall>(k, t) \<in> set ms. safe k \<and> jok d t)"
  by (induction d ms rule: jok_joks_jokm.induct(3) [of "\<lambda>_ _. True" "\<lambda>_ _. True"]) auto

lemma jmems_map: "jmems ms = map (\<lambda>(k, t). (k, jprint t, jval t)) ms"
  by (induction ms) auto

lemma jvals_map: "jvals ts = map (\<lambda>t. (jprint t, jval t)) ts"
  by (induction ts) auto

lemma jobj_join: "jobj ms = join '','' (map (\<lambda>(k, t). quoted k @ '':'' @ jprint t) ms) @ ''}''"
  by (induction ms rule: jprint_jarr_jobj.induct(3) [of "\<lambda>_. True" "\<lambda>_. True"]) auto

text \<open>A decoder of the first value reads the text too.\<close>

lemma Decode_jprint:
  assumes "jok 0 t" and "list_all is_ws e"
  shows "Decode_struct fs put (jprint t @ e) x = decode_struct fs put (jval t) x"
proof -
  obtain n where n: "\<forall>f \<ge> n. pval f 0 (jprint t @ e) = Some (jval t, e)"
    using pval_jprint(1) [OF assms(1) ends_blank [OF assms(2)]] by blast
  then have "pval (2 * length (jprint t @ e) + 1) 0 (jprint t @ e) = Some (jval t, e)"
    using pval_fuel [of "jprint t @ e" "n + (2 * length (jprint t @ e) + 1)" 0] by (metis le_add1 le_add2)
  with assms(1) show ?thesis by (simp add: Decode_struct_def del: pval.simps)
qed

section \<open>Encoding\<close>

lemma encode_chars_safe: "safe s \<Longrightarrow> encode_chars s = s"
proof (induction s)
  case (Cons c s)
  then have c: "safe_char c" "encode_chars s = s" by (simp_all add: safe_def)
  have "encode_ascii c = [c]"
    using c(1) by (auto simp: safe_char_def plain_char_def encode_ascii_def)
  with c show ?case by (simp add: safe_char_def plain_char_def)
qed simp

lemma encode_string_safe [simp]: "safe s \<Longrightarrow> encode_string s = quoted s"
  by (simp add: encode_string_def encode_chars_safe quoted_def)

lemma safe_charD:
  assumes "safe_char c"
  shows "\<not> html_char c" "c \<noteq> CHR 0x22" "c \<noteq> CHR 0x5C" "c \<noteq> CHR 0xE2"
  using assms by (auto simp: safe_char_def plain_char_def)

lemma squeeze_inside: "safe s \<Longrightarrow> squeeze True (s @ CHR 0x22 # r) = s @ CHR 0x22 # squeeze False r"
proof (induction s)
  case Nil
  then show ?case by (simp add: html_char_def line_seps_def)
next
  case (Cons c s)
  then show ?case
    using safe_charD [of c] by (simp add: safe_def line_seps_def)
qed

lemma squeeze_quoted: "safe s \<Longrightarrow> squeeze False (quoted s @ r) = quoted s @ squeeze False r"
  using squeeze_inside [of s r] by (simp add: quoted_def html_char_def line_seps_def)

lemma squeeze_char:
  assumes "\<not> is_ws c" and "safe_char c"
  shows "squeeze False (c # r) = c # squeeze False r"
  using assms safe_charD [of c] by (simp add: line_seps_def)

lemma squeeze_natural: "list_all is_digit l \<Longrightarrow> squeeze False (l @ r) = l @ squeeze False r"
proof (induction l)
  case (Cons c l)
  then have "\<not> is_ws c" "safe_char c"
    by (auto simp: is_digit_def is_ws_def safe_char_def plain_char_def html_char_def Let_def)
  with Cons squeeze_char [of c "l @ r"] show ?case by (simp del: squeeze.simps)
qed simp

lemma safe_punct [simp]:
  "safe_char (CHR '','')" "safe_char (CHR '':'')" "safe_char (CHR ''['')" "safe_char (CHR '']'')"
  "safe_char (CHR ''{'')" "safe_char (CHR ''}'')" "\<not> is_ws (CHR ''['')" "\<not> is_ws (CHR ''{'')"
  by (simp_all add: safe_char_def plain_char_def html_char_def is_ws_def)

lemma squeeze_word:
  "squeeze False (''null'' @ r) = ''null'' @ squeeze False r"
  "squeeze False (''true'' @ r) = ''true'' @ squeeze False r"
  "squeeze False (''false'' @ r) = ''false'' @ squeeze False r"
  by (simp_all add: is_ws_def html_char_def line_seps_def)

lemma squeeze_jprint:
  "jok d t \<Longrightarrow> squeeze False (jprint t @ r) = jprint t @ squeeze False r"
  "joks d ts \<Longrightarrow> squeeze False (jarr ts @ r) = jarr ts @ squeeze False r"
  "jokm d ms \<Longrightarrow> squeeze False (jobj ms @ r) = jobj ms @ squeeze False r"
proof (induction t and ts and ms arbitrary: d r and d r and d r rule: jprint_jarr_jobj.induct)
  case (2 b)
  then show ?case using squeeze_word(2,3) [of r] by (cases b) simp_all
next
  case (3 l)
  then show ?case by (simp add: squeeze_natural natural_def)
next
  case 1
  then show ?case using squeeze_word(1) [of r] by simp
next
  case (5 ts)
  then show ?case using "5.IH" [of "Suc d" r] by (simp add: squeeze_char del: squeeze.simps)
next
  case (6 ms)
  then show ?case using "6.IH" [of "Suc d" r] by (simp add: squeeze_char del: squeeze.simps)
next
  case (8 t)
  then show ?case using "8.IH" [of d "CHR '']'' # r"] by (simp add: squeeze_char del: squeeze.simps)
next
  case (9 t u ts)
  then show ?case
    using "9.IH"(1) [of d "CHR '','' # jarr (u # ts) @ r"] "9.IH"(2) [of d r]
    by (simp add: squeeze_char del: squeeze.simps)
next
  case (11 k t)
  then show ?case
    using "11.IH" [of d "CHR ''}'' # r"] by (simp add: squeeze_quoted squeeze_char del: squeeze.simps)
next
  case (12 k t m ms)
  then show ?case
    using "12.IH"(1) [of d "CHR '','' # jobj (m # ms) @ r"] "12.IH"(2) [of d r]
    by (simp add: squeeze_quoted squeeze_char del: squeeze.simps)
qed (simp_all add: squeeze_quoted squeeze_char del: squeeze.simps)

lemma Marshal_raw_jprint: "jok 0 t \<Longrightarrow> Marshal_raw (jprint t) = Some (jprint t)"
  using json_parse_text [of t] squeeze_jprint(1) [of 0 t "[]"] jprint_hd [of 0 t]
  by (auto simp: Marshal_raw_def)

section \<open>Numbers and lists of strings\<close>

lemma of_char_digit_char:
  assumes "0 \<le> d" and "d < 36"
  shows "(of_char (digit_char d) :: int) = (if d < 10 then 48 + d else 87 + d)"
  using assms by (simp add: digit_char_def take_bit_int_eq_self)

lemma safe_char_digit:
  assumes "0 \<le> d" and "d < 36"
  shows "safe_char (digit_char d)"
proof -
  have "(of_char (CHR ''<'') :: int) = 60" "(of_char (CHR ''>'') :: int) = 62" "(of_char (CHR ''&'') :: int) = 38"
    by simp_all
  with of_char_digit_char [OF assms] assms have "\<not> html_char (digit_char d)"
    unfolding html_char_def by (auto split: if_splits)
  with plain_char_digit [OF assms] show ?thesis by (simp add: safe_char_def)
qed

lemma is_digit_digit_char: "0 \<le> d \<Longrightarrow> d < 10 \<Longrightarrow> is_digit (digit_char d)"
  using of_char_digit_char [of d] by (simp add: is_digit_def)

lemma FormatUint_chars:
  assumes "2 \<le> b" and "0 \<le> n" and "\<And>d. 0 \<le> d \<Longrightarrow> d < b \<Longrightarrow> P (digit_char d)"
  shows "list_all P (FormatUint b n)"
  using assms
proof (induction b n rule: FormatUint.induct)
  case (1 b n)
  show ?case
  proof (cases "n < b")
    case True
    with "1.prems" show ?thesis by (subst FormatUint.simps) simp
  next
    case False
    then have "list_all P (FormatUint b (n div b))"
      using "1.IH" "1.prems" by (simp add: pos_imp_zdiv_nonneg_iff)
    moreover have "P (digit_char (n mod b))" using "1.prems" by simp
    ultimately show ?thesis using False "1.prems"(1) by (subst FormatUint.simps) simp
  qed
qed

lemma safe_FormatUint: "2 \<le> b \<Longrightarrow> b \<le> 36 \<Longrightarrow> 0 \<le> n \<Longrightarrow> safe (FormatUint b n)"
  unfolding safe_def by (rule FormatUint_chars) (simp_all add: safe_char_digit)

lemma FormatUint_hd: "0 < n \<Longrightarrow> hd (FormatUint 10 n) \<noteq> CHR ''0''"
proof (induction "10 :: int" n rule: FormatUint.induct)
  case (1 n)
  show ?case
  proof (cases "n < 10")
    case True
    have "(of_char (CHR ''0'') :: int) = 48" by simp
    with of_char_digit_char [of n] True 1(2) have "digit_char n \<noteq> CHR ''0''" by auto
    with True show ?thesis by (subst FormatUint.simps) simp
  next
    case False
    with 1 show ?thesis by (subst FormatUint.simps) (simp add: pos_imp_zdiv_pos_iff)
  qed
qed

lemma natural_Itoa: "0 \<le> n \<Longrightarrow> natural (Itoa n)"
proof -
  assume n: "0 \<le> n"
  have "list_all is_digit (FormatUint 10 n)"
    using n by (intro FormatUint_chars) (simp_all add: is_digit_digit_char)
  moreover have "hd (FormatUint 10 n) \<noteq> CHR ''0'' \<or> length (FormatUint 10 n) = 1"
    using n FormatUint_hd [of n] by (cases "n = 0") (auto simp: FormatUint.simps [of 10 0])
  ultimately show ?thesis using n by (simp add: natural_def Itoa_def)
qed

text \<open>A slice of strings.\<close>

definition strs :: "string list \<Rightarrow> jtext" where
  "strs ps = TArr (map TStr ps)"

lemma jprint_strs: "list_all safe ps \<Longrightarrow> ''['' @ join '','' (map encode_string ps) @ '']'' = jprint (strs ps)"
proof -
  assume "list_all safe ps"
  then have "map encode_string ps = map quoted ps" by (auto simp: list_all_iff)
  moreover have "join '','' (map quoted ps) @ '']'' = jarr (map TStr ps)"
    by (induction ps rule: induct_list012) auto
  ultimately show ?thesis by (simp add: strs_def del: map_eq_conv)
qed

lemma jok_strs: "list_all safe ps \<Longrightarrow> d < 10000 \<Longrightarrow> jok d (strs ps)"
proof -
  have "list_all safe ps \<Longrightarrow> joks k (map TStr ps)" for k by (induction ps) auto
  then show "list_all safe ps \<Longrightarrow> d < 10000 \<Longrightarrow> jok d (strs ps)" by (simp add: strs_def)
qed

lemma safe_names [simp]:
  "safe ''jsonrpc''" "safe ''id''" "safe ''method''" "safe ''params''" "safe ''result''" "safe ''error''"
  by code_simp+

end
