(* ===== verification/WsFrames.thy ===== *)
theory WsFrames
  imports WsRun GoJsonText
begin

text \<open>
  Two facts on single frames of a session.  Of a notification whose texts are in the class of theory
  \<open>GoJsonText\<close> nothing but the subscription id changes on its way to the client.  And the answer to a
  subscribe request, which is handled in two critical sections, may be taken to be handled in one:
  frames of the client that come in between make no difference.
\<close>

section \<open>Reading and printing maps of raw messages\<close>

lemma Unmarshal_raw_map_text:
  assumes "jok 0 (TObj ms)" and "list_all is_ws e"
  shows "Unmarshal_raw_map (jprint (TObj ms) @ e) = Some (Some (on_values jprint (go_map ms)))"
proof -
  have "map (\<lambda>(k, raw, v). (k, raw)) (jmems ms) = on_values jprint ms"
    by (simp add: jmems_map case_prod_unfold)
  then show ?thesis
    using json_parse_jprint [OF assms] by (simp add: Unmarshal_raw_map_def go_map_map del: jprint.simps)
qed

lemma raw_members_text:
  "jokm d ms \<Longrightarrow> raw_members (on_values jprint ms) = Some (map (\<lambda>(k, t). quoted k @ '':'' @ jprint t) ms)"
proof (induction ms)
  case (Cons m ms)
  obtain k t where m: "m = (k, t)" by fastforce
  with Cons.prems have "jok 0 t" using jok_mono(1) by auto
  with Cons m show ?case by (simp add: Marshal_raw_jprint json_member_def del: jprint.simps)
qed simp

lemma Marshal_raw_map_text:
  "jokm d ms \<Longrightarrow> Marshal_raw_map (on_values jprint ms) = Some (jprint (TObj ms))"
  by (simp add: Marshal_raw_map_def raw_members_text jobj_join)

lemma jokm_member: "jokm d ms \<Longrightarrow> (k, t) \<in> set ms \<Longrightarrow> jok d t"
  by (auto simp: jokm_iff)

lemma jokm_maps:
  "jokm d ms \<Longrightarrow> jokm d (go_map ms)"
  "jokm d ms \<Longrightarrow> safe k \<Longrightarrow> jok d t \<Longrightarrow> jokm d (ins_key k t ms)"
  using set_go_map [of ms] set_ins_key [of k t ms] by (fastforce simp: jokm_iff)+

section \<open>Notifications\<close>

definition with_subscription :: "string \<Rightarrow> (string \<times> jtext) list \<Rightarrow> (string \<times> jtext) list \<Rightarrow> jtext" where
  "with_subscription c ps ms =
     TObj (ins_key ''params'' (TObj (ins_key ''subscription'' (TStr c) (go_map ps))) (go_map ms))"

lemma jok_with_subscription:
  assumes "jok 0 (TObj ms)" and "map_of (rev ms) ''params'' = Some (TObj ps)" and "safe c"
  shows "jokm (Suc (Suc 0)) ps" and "jok 0 (with_subscription c ps ms)"
proof -
  have "(''params'', TObj ps) \<in> set ms" using map_of_SomeD [OF assms(2)] by simp
  with assms(1) have "jok (Suc 0) (TObj ps)" using jokm_member [of "Suc 0" ms "''params''" "TObj ps"] by simp
  then show ps: "jokm (Suc (Suc 0)) ps" by simp
  have "safe ''params''" "safe ''subscription''" by code_simp+
  with assms ps show "jok 0 (with_subscription c ps ms)"
    by (simp add: with_subscription_def jokm_maps)
qed

lemma rewriteNotification_text:
  assumes "jok 0 (TObj ms)" and "map_of (rev ms) ''params'' = Some (TObj ps)" and "safe c"
    and "list_all is_ws e"
  shows "rewriteNotification (jprint (TObj ms) @ e) c = Some (jprint (with_subscription c ps ms))"
proof -
  note ok = jok_with_subscription [OF assms(1,2,3)]
  have "jok 0 (TObj ps)" using jok_mono(3) [OF ok(1), of "Suc 0"] by simp
  then have ps: "Unmarshal_raw_map (jprint (TObj ps)) = Some (Some (on_values jprint (go_map ps)))"
    using Unmarshal_raw_map_text [of ps "[]"] by (simp del: jprint.simps)
  have look: "map_of (on_values jprint (go_map ms)) ''params'' = Some (jprint (TObj ps))"
    by (simp add: map_of_map map_of_go_map assms(2) del: jprint.simps)
  have sub: "ins_key ''subscription'' (encode_string c) (on_values jprint (go_map ps)) =
      on_values jprint (ins_key ''subscription'' (TStr c) (go_map ps))"
    using ins_key_map [of _ jprint "TStr c"] assms(3) by simp
  have "safe ''subscription''" by code_simp
  with ok(1) assms(3) have "Marshal_raw_map (on_values jprint (ins_key ''subscription'' (TStr c) (go_map ps))) =
      Some (jprint (TObj (ins_key ''subscription'' (TStr c) (go_map ps))))"
    by (intro Marshal_raw_map_text [of "Suc (Suc 0)"] jokm_maps) simp_all
  moreover have "Marshal_raw_map (on_values jprint
      (ins_key ''params'' (TObj (ins_key ''subscription'' (TStr c) (go_map ps))) (go_map ms))) =
      Some (jprint (with_subscription c ps ms))"
    using ok(2) Marshal_raw_map_text [of "Suc 0"] by (simp add: with_subscription_def del: jprint.simps)
  ultimately show ?thesis
    unfolding rewriteNotification_def Unmarshal_raw_map_text [OF assms(1,4)]
    by (simp add: look ps sub ins_key_map del: jprint.simps)
qed

section \<open>The two critical sections of an answer\<close>

text \<open>\<open>forwardToClient\<close> takes the request out of \<open>pending\<close>, lets go of the lock, and takes it again to enter
  the subscription.\<close>

definition settle_take :: "bytes \<Rightarrow> wsSession \<Rightarrow> bytes option \<times> wsSession" where
  "settle_take rawID s =
     (case map_of (ws_pending s) rawID of
        None \<Rightarrow> (None, s)
      | Some params \<Rightarrow> (Some params, s\<lparr>ws_pending := AList.delete rawID (ws_pending s)\<rparr>))"

definition settle_enter :: "bytes \<Rightarrow> bytes option \<Rightarrow> wsSession \<Rightarrow> wsSession" where
  "settle_enter result taken s =
     (case taken of
        None \<Rightarrow> s
      | Some params \<Rightarrow>
          (case Unmarshal_string result of
             None \<Rightarrow> s
           | Some upstreamID \<Rightarrow> if upstreamID = [] then s else register upstreamID params s))"

lemma settle_sections: "settle r res s = settle_enter res (fst (settle_take r s)) (snd (settle_take r s))"
  by (simp add: settle_def settle_take_def settle_enter_def Let_def split: option.split)

fun client_frames :: "frame list \<Rightarrow> wsSession \<Rightarrow> routed list \<times> wsSession" where
  "client_frames [] s = ([], s)"
| "client_frames (f # fs) s =
     (let (r, s') = forwardToUpstream f s; (rs, s'') = client_frames fs s' in (r # rs, s''))"

text \<open>An id is unknown to a session if no subscription has it; a frame does not name it if it is not the
  first parameter of an unsubscribe request.\<close>

definition unknown :: "string \<Rightarrow> wsSession \<Rightarrow> bool" where
  "unknown u s \<longleftrightarrow> (\<forall>(c, sub) \<in> set (ws_subs s). c \<noteq> u \<and> sub_upstreamID sub \<noteq> u)"

definition names :: "string \<Rightarrow> frame \<Rightarrow> bool" where
  "names u f \<longleftrightarrow>
     (case Unmarshal_ws_unsubscribe (fr_msg f) of
        None \<Rightarrow> False
      | Some req \<Rightarrow> un_Params req \<noteq> [] \<and> hd (un_Params req) = u)"

lemma update_delete_other: "k \<noteq> l \<Longrightarrow> AList.update k v (AList.delete l al) = AList.delete l (AList.update k v al)"
  by (induction al) auto

lemma rewriteUnsubscribe_register:
  assumes "unknown u s" and "\<not> names u \<lparr>fr_mt = mt, fr_msg = msg\<rparr>"
  shows "rewriteUnsubscribe msg (register u ps s) =
         (fst (rewriteUnsubscribe msg s), register u ps (snd (rewriteUnsubscribe msg s)))"
proof (cases "Unmarshal_ws_unsubscribe msg")
  case None
  then show ?thesis by (simp add: rewriteUnsubscribe_def)
next
  case (Some req)
  show ?thesis
  proof (cases "un_Params req = []")
    case True
    with Some show ?thesis by (simp add: rewriteUnsubscribe_def)
  next
    case False
    let ?c = "hd (un_Params req)"
    have c: "?c \<noteq> u" using assms(2) Some False by (simp add: names_def)
    then have look: "map_of (ws_subs (register u ps s)) ?c = map_of (ws_subs s) ?c"
      by (simp add: register_def update_conv')
    show ?thesis
    proof (cases "map_of (ws_subs s) ?c")
      case None
      with Some False look show ?thesis by (simp add: rewriteUnsubscribe_def)
    next
      case sub: (Some sub)
      then have "sub_upstreamID sub \<noteq> u"
        using assms(1) map_of_SomeD [OF sub] by (auto simp: unknown_def)
      with Some False look sub c show ?thesis
        by (auto simp: rewriteUnsubscribe_def register_def Let_def update_delete_other split: option.split)
    qed
  qed
qed

lemma forwardToUpstream_register:
  assumes "unknown u s" and "\<not> names u f"
  shows "forwardToUpstream f (register u ps s) =
         (fst (forwardToUpstream f s), register u ps (snd (forwardToUpstream f s)))"
proof -
  have "rewriteUnsubscribe (fr_msg f) (register u ps s) =
      (fst (rewriteUnsubscribe (fr_msg f) s), register u ps (snd (rewriteUnsubscribe (fr_msg f) s)))"
    using rewriteUnsubscribe_register [OF assms(1), of "fr_mt f" "fr_msg f"] assms(2) by (simp add: names_def)
  then show ?thesis
    by (auto simp: forwardToUpstream_def case_prod_unfold register_def Let_def split: option.split)
qed

lemma unknown_forwardToUpstream:
  assumes "unknown u s"
  shows "unknown u (snd (forwardToUpstream f s))"
proof -
  have "set (ws_subs (snd (rewriteUnsubscribe msg s))) \<subseteq> set (ws_subs s)" for msg
    using set_delete_subset [of _ "ws_subs s"]
    by (auto simp: rewriteUnsubscribe_def Let_def subset_iff split: option.splits)
  then have "set (ws_subs (snd (forwardToUpstream f s))) \<subseteq> set (ws_subs s)"
    by (auto simp: forwardToUpstream_def case_prod_unfold Let_def split: option.split)
  with assms show ?thesis by (auto simp: unknown_def)
qed

lemma client_frames_register:
  "unknown u s \<Longrightarrow> list_all (\<lambda>f. \<not> names u f) fs \<Longrightarrow>
   client_frames fs (register u ps s) = (fst (client_frames fs s), register u ps (snd (client_frames fs s)))"
  by (induction fs arbitrary: s)
     (simp_all add: forwardToUpstream_register unknown_forwardToUpstream case_prod_unfold Let_def)

section \<open>Properties\<close>

text \<open>
  Property C18.  A frame handled by the reader of the client while the answer to a subscribe request is
  between its two critical sections makes no difference: if the new id is not in use and the client,
  who has not seen the answer, does not name it, the frames are routed and the session ends as if the
  whole answer had been handled first.
\<close>

theorem answer_atomic:
  assumes "\<forall>u. Unmarshal_string res = Some u \<longrightarrow> unknown u s \<and> list_all (\<lambda>f. \<not> names u f) fs"
  shows "let (taken, s1) = settle_take r s; (out, s2) = client_frames fs s1 in
         (out, settle_enter res taken s2) = client_frames fs (settle r res s)"
proof -
  obtain taken s1 where t: "settle_take r s = (taken, s1)" by fastforce
  have "unknown u s1" if "unknown u s" for u
    using that t by (auto simp: settle_take_def unknown_def split: option.splits)
  with assms have "client_frames fs (settle_enter res taken s1) =
      (fst (client_frames fs s1), settle_enter res taken (snd (client_frames fs s1)))"
    using client_frames_register by (auto simp: settle_enter_def split: option.split)
  then show ?thesis by (simp add: settle_sections t case_prod_unfold)
qed

definition gap_session :: wsSession where
  "gap_session = two_subs\<lparr>ws_pending := [(''1'', ''[\"newHeads\"]'')]\<rparr>"

definition unsubscribe_frame :: frame where
  "unsubscribe_frame =
     \<lparr>fr_mt = 1, fr_msg = ''{\"id\":2,\"method\":\"eth_unsubscribe\",\"params\":[\"0x1\"]}''\<rparr>"

theorem answer_atomic_witness:
  "let (taken, s1) = settle_take ''1'' gap_session; (out, s2) = client_frames [unsubscribe_frame] s1 in
   (out, settle_enter ''\"0x3\"'' taken s2) =
     client_frames [unsubscribe_frame] (settle ''1'' ''\"0x3\"'' gap_session)"
proof (rule answer_atomic)
  have "Unmarshal_string ''\"0x3\"'' = Some ''0x3''" by code_simp
  moreover have "unknown ''0x3'' gap_session" "\<not> names ''0x3'' unsubscribe_frame" by code_simp+
  ultimately show "\<forall>u. Unmarshal_string ''\"0x3\"'' = Some u \<longrightarrow>
      unknown u gap_session \<and> list_all (\<lambda>f. \<not> names u f) [unsubscribe_frame]"
    by simp
qed

text \<open>
  Property C19.  The translation of a notification changes the subscription id and nothing else: the
  message the client gets is a JSON object with the members of the upstream's, and its \<open>params\<close> is an
  object with the members of the upstream's except that \<open>subscription\<close> is the id the client knows.
\<close>

theorem notification_only_id_changes:
  assumes "jok 0 (TObj ms)" and "list_all is_ws e" and "map_of (rev ms) ''params'' = Some (TObj ps)"
    and "Unmarshal_ws_envelope (jprint (TObj ms) @ e) = Some env"
    and "we_Method env = ''eth_subscription''" and "we_Params env = Some u"
    and "map_of (ws_upToClient s) u = Some c" and "c \<noteq> u" and "safe c"
  shows "\<exists>ms' ps'.
           forwardToClient \<lparr>fr_mt = mt, fr_msg = jprint (TObj ms) @ e\<rparr> s =
             (Some \<lparr>fr_mt = mt, fr_msg = jprint (TObj ms')\<rparr>, s) \<and>
           json_parse (jprint (TObj ms')) = Some (jval (TObj ms')) \<and>
           map_of ms' = (map_of (rev ms))(''params'' \<mapsto> TObj ps') \<and>
           map_of ps' = (map_of (rev ps))(''subscription'' \<mapsto> TStr c)"
proof -
  obtain ms' where ms': "with_subscription c ps ms = TObj ms'"
    "ms' = ins_key ''params'' (TObj (ins_key ''subscription'' (TStr c) (go_map ps))) (go_map ms)"
    by (simp add: with_subscription_def)
  have "forwardToClient \<lparr>fr_mt = mt, fr_msg = jprint (TObj ms) @ e\<rparr> s =
      (Some \<lparr>fr_mt = mt, fr_msg = jprint (TObj ms')\<rparr>, s)"
    using rewriteNotification_text [OF assms(1,3,9,2)] assms(4-8)
    by (simp add: forwardToClient_def ms'(1) del: jprint.simps)
  moreover have "json_parse (jprint (TObj ms')) = Some (jval (TObj ms'))"
    using json_parse_text jok_with_subscription(2) [OF assms(1,3,9)] unfolding ms'(1) by blast
  moreover have "map_of ms' = (map_of (rev ms))(''params'' \<mapsto> TObj (ins_key ''subscription'' (TStr c) (go_map ps)))"
    "map_of (ins_key ''subscription'' (TStr c) (go_map ps)) = (map_of (rev ps))(''subscription'' \<mapsto> TStr c)"
    by (simp_all add: ms'(2) map_of_ins_key map_of_go_map)
  ultimately show ?thesis by blast
qed

text \<open>A notification with a further member, in the order and with the line end a node may use.\<close>

definition sample_params :: "(string \<times> jtext) list" where
  "sample_params = [(''subscription'', TStr ''0x9''), (''result'', TArr [TNum ''7'', TNull])]"

definition sample_members :: "(string \<times> jtext) list" where
  "sample_members = [(''method'', TStr ''eth_subscription''), (''params'', TObj sample_params), (''x'', TBool True)]"

theorem notification_only_id_changes_witness:
  "\<exists>ms' ps'.
     forwardToClient \<lparr>fr_mt = 1, fr_msg = jprint (TObj sample_members) @ [CHR 0x0A]\<rparr>
         (two_subs\<lparr>ws_upToClient := [(''0x9'', ''0x1'')]\<rparr>) =
       (Some \<lparr>fr_mt = 1, fr_msg = jprint (TObj ms')\<rparr>, two_subs\<lparr>ws_upToClient := [(''0x9'', ''0x1'')]\<rparr>) \<and>
     json_parse (jprint (TObj ms')) = Some (jval (TObj ms')) \<and>
     map_of ms' = (map_of (rev sample_members))(''params'' \<mapsto> TObj ps') \<and>
     map_of ps' = (map_of (rev sample_params))(''subscription'' \<mapsto> TStr ''0x1'')"
proof (rule notification_only_id_changes)
  let ?env = "\<lparr>we_ID = [], we_Result = [], we_Method = ''eth_subscription'', we_Params = Some ''0x9''\<rparr>"
  show "jok 0 (TObj sample_members)" by code_simp
  show "list_all is_ws [CHR 0x0A]" by code_simp
  show "map_of (rev sample_members) ''params'' = Some (TObj sample_params)" by (simp add: sample_members_def)
  show "Unmarshal_ws_envelope (jprint (TObj sample_members) @ [CHR 0x0A]) = Some ?env" by code_simp
  show "''0x1'' \<noteq> ''0x9''" "safe ''0x1''" by code_simp+
qed simp_all

end
