(* ===== verification/GoTime.thy ===== *)
theory GoTime
  imports GoFloat
begin

text \<open>
  \<open>time.ParseDuration\<close>: a sequence of decimal numbers with units, in nanoseconds.  Whole numbers are
  exact with the overflow checks of the library; a fraction goes through \<open>float64\<close> as the library
  does it.
\<close>

section \<open>Units\<close>

definition unitMap :: "string \<Rightarrow> int option" where
  "unitMap u =
     map_of [(''ns'', 1), (''us'', 1000), ([CHR 0xC2, CHR 0xB5, CHR ''s''], 1000),
             ([CHR 0xCE, CHR 0xBC, CHR ''s''], 1000), (''ms'', Millisecond), (''s'', Second),
             (''m'', 60 * Second), (''h'', 3600 * Second)] u"

section \<open>Fractions\<close>

text \<open>A \<open>float64\<close> as a fraction; \<open>None\<close> is infinity.\<close>

definition rounded :: "int \<times> int \<Rightarrow> (int \<times> int) option" where
  "rounded pq = map_option float_fraction (to_float pq)"

text \<open>
  \<open>leadingFraction\<close>: digits that no longer fit in 63 bits are dropped, and every digit that is used
  multiplies the scale by ten.
\<close>

fun leadingFraction :: "string \<Rightarrow> int \<Rightarrow> (int \<times> int) option \<Rightarrow> int \<times> (int \<times> int) option" where
  "leadingFraction [] x scale = (x, scale)"
| "leadingFraction (c # cs) x scale =
     (let y = 10 * x + (of_char c - 48) in
      if (2 ^ 63 - 1) div 10 < x \<or> 2 ^ 63 < y then (x, scale)
      else leadingFraction cs y (Option.bind scale (\<lambda>(p, q). rounded (10 * p, q))))"

text \<open>\<open>uint64(float64(f) * (float64(unit) / scale))\<close>; a quotient by infinity is zero.\<close>

definition fraction_of :: "int \<Rightarrow> int \<Rightarrow> (int \<times> int) option \<Rightarrow> int" where
  "fraction_of f unit scale =
     (case scale of
        None \<Rightarrow> 0
      | Some (p, q) \<Rightarrow>
          (case (rounded (f, 1), rounded (unit * q, p)) of
             (Some (a, b), Some (c, d)) \<Rightarrow>
               (case rounded (a * c, b * d) of Some (n, m) \<Rightarrow> n div m | None \<Rightarrow> 0)
           | _ \<Rightarrow> 0))"

section \<open>Durations\<close>

text \<open>One number with its unit: the value and the rest.\<close>

definition not_number :: "char \<Rightarrow> bool" where
  "not_number c \<longleftrightarrow> c \<noteq> CHR ''.'' \<and> \<not> is_digit c"

definition leading_part :: "string \<Rightarrow> (int \<times> string) option" where
  "leading_part s =
     (let ip = takeWhile is_digit s;
          s1 = dropWhile is_digit s;
          dot = HasPrefix s1 ''.'';
          fp = (if dot then takeWhile is_digit (tl s1) else []);
          s2 = (if dot then dropWhile is_digit (tl s1) else s1);
          u = takeWhile not_number s2;
          rest = dropWhile not_number s2;
          v = dec_val ip;
          (f, scale) = leadingFraction fp 0 (Some (1, 1))
      in if s = [] \<or> not_number (hd s) \<or> 2 ^ 63 < v \<or> ip = [] \<and> fp = [] \<or> u = [] then None
         else
           (case unitMap u of
              None \<Rightarrow> None
            | Some unit \<Rightarrow>
                if 2 ^ 63 div unit < v then None
                else
                  (let w = (if 0 < f then v * unit + fraction_of f unit scale else v * unit) in
                   if 2 ^ 63 < w then None else Some (w, rest))))"

lemma leading_part_shorter:
  assumes "leading_part s = Some (w, rest)"
  shows "length rest < length s"
proof -
  let ?s1 = "dropWhile is_digit s"
  let ?s2 = "if HasPrefix ?s1 ''.'' then dropWhile is_digit (tl ?s1) else ?s1"
  have rest: "rest = dropWhile not_number ?s2" and u: "takeWhile not_number ?s2 \<noteq> []"
    using assms by (auto simp: leading_part_def Let_def split: if_splits option.splits prod.splits)
  have "length (takeWhile not_number ?s2) + length rest = length ?s2"
    unfolding rest by (metis length_append takeWhile_dropWhile_id)
  moreover have "length ?s2 \<le> length s"
    using length_dropWhile_le [of is_digit s] length_dropWhile_le [of is_digit "tl ?s1"] by auto
  ultimately show ?thesis using u by (cases "takeWhile not_number ?s2") auto
qed

text \<open>The sum of the parts; it is kept in a \<open>uint64\<close>.\<close>

function duration_sum :: "string \<Rightarrow> int \<Rightarrow> int option" where
  "duration_sum s d =
     (if s = [] then Some d
      else
        (case leading_part s of
           None \<Rightarrow> None
         | Some (w, rest) \<Rightarrow>
             (let d' = (d + w) mod 2 ^ 64 in
              if 2 ^ 63 < d' then None else duration_sum rest d')))"
  by pat_completeness auto
termination
  by (relation "measure (\<lambda>(s, d). length s)") (auto dest: leading_part_shorter)

declare duration_sum.simps [simp del]

definition ParseDuration :: "string \<Rightarrow> duration option" where
  "ParseDuration s0 =
     (let neg = HasPrefix s0 ''-'';
          s = (if neg \<or> HasPrefix s0 ''+'' then tl s0 else s0)
      in if s = ''0'' then Some 0
         else if s = [] then None
         else
           (case duration_sum s 0 of
              None \<Rightarrow> None
            | Some d \<Rightarrow>
                if neg then Some (- d) else if 2 ^ 63 - 1 < d then None else Some d))"

lemma parse_duration_examples:
  "ParseDuration ''1m30s'' = Some (90 * Second)"
  "ParseDuration ''-1.5h'' = Some (- 5400 * Second)"
  "ParseDuration ''.5us'' = Some 500"
  "ParseDuration ''15'' = None"
  by code_simp+

end
