(* ===== verification/GoFlag.thy ===== *)
theory GoFlag
  imports GoTime GoJson
begin

text \<open>
  Package \<open>flag\<close> as far as the program uses it: the values of integer, unsigned, duration and string
  flags, and \<open>flag.Parse\<close> with the policy \<open>ExitOnError\<close>.  The flags that were set are kept as a list
  sorted by name, the order in which \<open>flag.Visit\<close> walks them.
\<close>

section \<open>Numbers in base 0\<close>

text \<open>
  \<open>strconv.ParseUint(s, 0, 64)\<close> and \<open>strconv.ParseInt(s, 0, 64)\<close>: the base is that of the prefix, and
  underscores may separate digits.
\<close>

definition prefix_base :: "string \<Rightarrow> int \<times> string" where
  "prefix_base s =
     (if \<not> HasPrefix s ''0'' then (10, s)
      else if 3 \<le> length s \<and> s ! 1 \<in> set ''bB'' then (2, drop 2 s)
      else if 3 \<le> length s \<and> s ! 1 \<in> set ''oO'' then (8, drop 2 s)
      else if 3 \<le> length s \<and> s ! 1 \<in> set ''xX'' then (16, drop 2 s)
      else (8, tl s))"

text \<open>
  \<open>underscoreOK\<close> on a string of digits and underscores; \<open>after\<close> says whether the previous character
  was a digit (a base prefix counts as one).
\<close>

fun underscores_ok :: "bool \<Rightarrow> bool \<Rightarrow> string \<Rightarrow> bool" where
  "underscores_ok after open [] = (\<not> open)"
| "underscores_ok after open (c # s) =
     (if c = CHR ''_'' then after \<and> underscores_ok False True s else underscores_ok True False s)"

definition underscoreOK :: "string \<Rightarrow> bool" where
  "underscoreOK s =
     (if 2 \<le> length s \<and> HasPrefix s ''0'' \<and> s ! 1 \<in> set ''bBoOxX'' then underscores_ok True False (drop 2 s)
      else underscores_ok False False s)"

definition ParseUint0 :: "string \<Rightarrow> int option" where
  "ParseUint0 s =
     (if s = [] then None
      else
        (let (base, t) = prefix_base s in
         case digits_val base 0 (filter (\<lambda>c. c \<noteq> CHR ''_'') t) of
           None \<Rightarrow> None
         | Some n \<Rightarrow>
             if 2 ^ 64 \<le> n then None
             else if CHR ''_'' \<in> set t \<and> \<not> underscoreOK s then None
             else Some n))"

definition ParseInt0 :: "string \<Rightarrow> int option" where
  "ParseInt0 s =
     (let neg = HasPrefix s ''-'';
          t = (if neg \<or> HasPrefix s ''+'' then tl s else s)
      in case ParseUint0 t of
           None \<Rightarrow> None
         | Some n \<Rightarrow>
             if neg then (if n \<le> 2 ^ 63 then Some (- n) else None)
             else (if n < 2 ^ 63 then Some n else None))"

section \<open>Flags\<close>

datatype flag_kind = IntFlag | Uint64Flag | DurationFlag | StringFlag

datatype flag_value = FInt int | FUint64 uint64 | FDuration duration | FString string

fun set_value :: "flag_kind \<Rightarrow> string \<Rightarrow> flag_value option" where
  "set_value IntFlag s = map_option FInt (ParseInt0 s)"
| "set_value Uint64Flag s = map_option (\<lambda>n. FUint64 (word_of_int n)) (ParseUint0 s)"
| "set_value DurationFlag s = map_option FDuration (ParseDuration s)"
| "set_value StringFlag s = Some (FString s)"

type_synonym flags = "(string \<times> flag_value) list"

text \<open>The program goes on with the flags that were set, or ends with a status.\<close>

datatype flag_result = FlagsSet flags | FlagExit int

text \<open>The name and, after the first equals sign past the first character, the value.\<close>

definition split_flag :: "string \<Rightarrow> string \<times> string option" where
  "split_flag name =
     (case IndexByte (CHR ''='') (tl name) of
        None \<Rightarrow> (name, None)
      | Some i \<Rightarrow> (take (Suc i) name, Some (drop (i + 2) name)))"

function parse_args :: "(string \<times> flag_kind) list \<Rightarrow> string list \<Rightarrow> flags \<Rightarrow> flag_result" where
  "parse_args formal [] actual = FlagsSet actual"
| "parse_args formal (s # args) actual =
     (if length s < 2 \<or> hd s \<noteq> CHR ''-'' \<or> s = ''--'' then FlagsSet actual
      else
        (let name0 = (if HasPrefix s ''--'' then drop 2 s else tl s) in
         if name0 = [] \<or> hd name0 = CHR ''-'' \<or> hd name0 = CHR ''='' then FlagExit 2
         else
           (let (name, val) = split_flag name0 in
            case map_of formal name of
              None \<Rightarrow> FlagExit (if name = ''help'' \<or> name = ''h'' then 0 else 2)
            | Some kind \<Rightarrow>
                (case (val, args) of
                   (Some v, _) \<Rightarrow>
                     (case set_value kind v of
                        None \<Rightarrow> FlagExit 2
                      | Some x \<Rightarrow> parse_args formal args (ins_key name x actual))
                 | (None, v # args') \<Rightarrow>
                     (case set_value kind v of
                        None \<Rightarrow> FlagExit 2
                      | Some x \<Rightarrow> parse_args formal args' (ins_key name x actual))
                 | (None, []) \<Rightarrow> FlagExit 2))))"
  by pat_completeness auto
termination
  by (relation "measure (\<lambda>(formal, args, actual). length args)") auto

declare parse_args.simps(2) [simp del]

definition flag_Parse :: "(string \<times> flag_kind) list \<Rightarrow> string list \<Rightarrow> flag_result" where
  "flag_Parse formal args = parse_args formal args []"

section \<open>Lemmas\<close>

text \<open>A flag only ever holds a value of the kind it was declared with.\<close>

fun has_kind :: "flag_kind option \<Rightarrow> flag_value \<Rightarrow> bool" where
  "has_kind (Some IntFlag) v = (case v of FInt _ \<Rightarrow> True | _ \<Rightarrow> False)"
| "has_kind (Some Uint64Flag) v = (case v of FUint64 _ \<Rightarrow> True | _ \<Rightarrow> False)"
| "has_kind (Some DurationFlag) v = (case v of FDuration _ \<Rightarrow> True | _ \<Rightarrow> False)"
| "has_kind (Some StringFlag) v = (case v of FString _ \<Rightarrow> True | _ \<Rightarrow> False)"
| "has_kind None v = False"

definition typed_flags :: "(string \<times> flag_kind) list \<Rightarrow> flags \<Rightarrow> bool" where
  "typed_flags formal m \<longleftrightarrow> (\<forall>(k, v) \<in> set m. has_kind (map_of formal k) v)"

lemma set_value_kind: "set_value kind s = Some x \<Longrightarrow> has_kind (Some kind) x"
  by (cases kind) auto

lemma typed_ins_key:
  "typed_flags formal m \<Longrightarrow> map_of formal k = Some kind \<Longrightarrow> set_value kind s = Some x \<Longrightarrow>
     typed_flags formal (ins_key k x m)"
  using set_ins_key [of k x m] set_value_kind [of kind s x] by (fastforce simp: typed_flags_def)

lemma parse_args_typed:
  "typed_flags formal actual \<Longrightarrow> parse_args formal args actual = FlagsSet m \<Longrightarrow> typed_flags formal m"
proof (induction args arbitrary: actual rule: length_induct)
  case (1 args)
  show ?case
  proof (cases args)
    case Nil
    with "1.prems" show ?thesis by simp
  next
    case (Cons s rest)
    have IH: "typed_flags formal m"
      if "length r \<le> length rest" "typed_flags formal a" "parse_args formal r a = FlagsSet m" for r a
      using "1.IH" [rule_format, of r a] that Cons by simp
    from "1.prems" show ?thesis
      unfolding Cons parse_args.simps(2)
      by (auto simp: Let_def split: if_splits prod.splits option.splits list.splits
          intro: IH [rotated 2] typed_ins_key)
  qed
qed

lemma flag_Parse_typed: "flag_Parse formal args = FlagsSet m \<Longrightarrow> typed_flags formal m"
  using parse_args_typed [of formal "[]" args m] by (simp add: flag_Parse_def typed_flags_def)

lemma flag_examples:
  "flag_Parse [(''port'', IntFlag), (''log-level'', StringFlag)] [''-port'', ''0x1F_90'', ''--log-level=warn'', ''x''] =
     FlagsSet [(''log-level'', FString ''warn''), (''port'', FInt 8080)]"
  "flag_Parse [(''port'', IntFlag)] [''--port=80_''] = FlagExit 2"
  by code_simp+

end
