(* ===== verification/WsClient.thy ===== *)
theory WsClient
  imports WsFrames GoFlag
begin

text \<open>
  The WebSocket client of examples/ws-client: its requests, the subscription it makes, the three
  goroutines that poll, wait for the signal and read, and what it prints.  The texts of log lines are
  left out; \<open>e\<close> stands for the blanks \<open>WriteJSON\<close> may put after a message.
\<close>

section \<open>Messages\<close>

record rpcRequest =
  rc_JSONRPC :: string
  rc_ID :: int
  rc_Method :: string
  rc_Params :: "string list"

definition Marshal_rpcRequest :: "rpcRequest \<Rightarrow> bytes" where
  "Marshal_rpcRequest r =
     ''{'' @ join '',''
       [json_member ''jsonrpc'' (encode_string (rc_JSONRPC r)), json_member ''id'' (Itoa (rc_ID r)),
        json_member ''method'' (encode_string (rc_Method r)),
        json_member ''params'' (''['' @ join '','' (map encode_string (rc_Params r)) @ '']'')] @ ''}''"

record rpcResponse =
  rp_ID :: int
  rp_Result :: bytes
  rp_Error :: bytes

definition put_rpcResponse :: "string \<Rightarrow> bytes \<Rightarrow> json \<Rightarrow> rpcResponse \<Rightarrow> rpcResponse option" where
  "put_rpcResponse f raw v x =
     (if f = ''id'' then map_option (\<lambda>n. x\<lparr>rp_ID := n\<rparr>) (decode_int v (rp_ID x))
      else if f = ''result'' then Some (x\<lparr>rp_Result := raw\<rparr>)
      else Some (x\<lparr>rp_Error := raw\<rparr>))"

abbreviation rpcResponse_fields :: "string list" where
  "rpcResponse_fields \<equiv> [''id'', ''result'', ''error'']"

definition zero_rpcResponse :: rpcResponse where
  "zero_rpcResponse = \<lparr>rp_ID = 0, rp_Result = [], rp_Error = []\<rparr>"

record rpcNotification =
  rn_Method :: string
  rn_Subscription :: string
  rn_Result :: bytes

definition put_rpcNotification_params :: "string \<Rightarrow> bytes \<Rightarrow> json \<Rightarrow> rpcNotification \<Rightarrow> rpcNotification option" where
  "put_rpcNotification_params f raw v x =
     (if f = ''subscription'' then
        map_option (\<lambda>s. x\<lparr>rn_Subscription := s\<rparr>) (decode_string v (rn_Subscription x))
      else Some (x\<lparr>rn_Result := raw\<rparr>))"

definition put_rpcNotification :: "string \<Rightarrow> bytes \<Rightarrow> json \<Rightarrow> rpcNotification \<Rightarrow> rpcNotification option" where
  "put_rpcNotification f raw v x =
     (if f = ''method'' then
        map_option (\<lambda>s. x\<lparr>rn_Method := s\<rparr>) (decode_string v (rn_Method x))
      else decode_struct [''subscription'', ''result''] put_rpcNotification_params v x)"

definition Unmarshal_rpcNotification :: "bytes \<Rightarrow> rpcNotification option" where
  "Unmarshal_rpcNotification data =
     Unmarshal_struct [''method'', ''params''] put_rpcNotification data
       \<lparr>rn_Method = [], rn_Subscription = [], rn_Result = []\<rparr>"

text \<open>The errors of the next two decodings are ignored.\<close>

definition probe_method :: "bytes \<Rightarrow> string" where
  "probe_method raw = Unmarshal_ignore [''method''] (\<lambda>f raw v x. store_string v x) raw []"

record header =
  hd_Number :: string
  hd_Hash :: string

definition store_header :: "string \<Rightarrow> bytes \<Rightarrow> json \<Rightarrow> header \<Rightarrow> header" where
  "store_header f raw v x =
     (if f = ''number'' then x\<lparr>hd_Number := store_string v (hd_Number x)\<rparr>
      else x\<lparr>hd_Hash := store_string v (hd_Hash x)\<rparr>)"

definition zero_header :: header where
  "zero_header = \<lparr>hd_Number = [], hd_Hash = []\<rparr>"

section \<open>Subscribing\<close>

definition WriteJSON :: "string \<Rightarrow> bytes \<Rightarrow> frame" where
  "WriteJSON e text = \<lparr>fr_mt = 1, fr_msg = text @ e\<rparr>"

definition client_flags :: "(string \<times> flag_kind) list" where
  "client_flags = [(''addr'', StringFlag)]"

definition client_url :: "flags \<Rightarrow> string" where
  "client_url m =
     ''ws://'' @ (case map_of m ''addr'' of Some (FString s) \<Rightarrow> s | _ \<Rightarrow> ''localhost:8080'') @ ''/ws''"

definition subscribe_request :: rpcRequest where
  "subscribe_request =
     \<lparr>rc_JSONRPC = ''2.0'', rc_ID = 1, rc_Method = ''eth_subscribe'', rc_Params = [''newHeads'']\<rparr>"

text \<open>
  The program ends with a status, or goes on with the id of its subscription.  The environment says
  which addresses accept, whether the write succeeds and what is read first (\<open>None\<close>: an error).
\<close>

datatype client_start = ClientExit int | Subscribed string frame string

definition client_main :: "string \<Rightarrow> (string \<Rightarrow> bool) \<Rightarrow> bool \<Rightarrow> bytes option \<Rightarrow> string list \<Rightarrow> client_start" where
  "client_main e dial ok answer args =
     (case flag_Parse client_flags args of
        FlagExit code \<Rightarrow> ClientExit code
      | FlagsSet m \<Rightarrow>
          if \<not> dial (client_url m) then ClientExit 1
          else if \<not> ok then ClientExit 1
          else
            (case answer of
               None \<Rightarrow> ClientExit 1
             | Some raw \<Rightarrow>
                 (case Decode_struct rpcResponse_fields put_rpcResponse raw zero_rpcResponse of
                    None \<Rightarrow> ClientExit 1
                  | Some resp \<Rightarrow>
                      (case Unmarshal_string (rp_Result resp) of
                         None \<Rightarrow> ClientExit 1
                       | Some subID \<Rightarrow>
                           Subscribed (client_url m) (WriteJSON e (Marshal_rpcRequest subscribe_request)) subID))))"

section \<open>Running\<close>

datatype client_output =
    NewHeadLine string string
  | ErrorLine int bytes
  | ResultLine int bytes
  | ParseFailure bytes

definition show_frame :: "bytes \<Rightarrow> client_output" where
  "show_frame raw =
     (if probe_method raw = ''eth_subscription'' then
        (case Unmarshal_rpcNotification raw of
           None \<Rightarrow> ParseFailure raw
         | Some notif \<Rightarrow>
             (let h = Unmarshal_ignore [''number'', ''hash''] store_header (rn_Result notif) zero_header
              in NewHeadLine (hd_Number h) (hd_Hash h)))
      else
        (case Unmarshal_struct rpcResponse_fields put_rpcResponse raw zero_rpcResponse of
           None \<Rightarrow> ParseFailure raw
         | Some resp \<Rightarrow>
             if rp_Error resp \<noteq> [] \<and> rp_Error resp \<noteq> ''null'' then ErrorLine (rp_ID resp) (rp_Error resp)
             else ResultLine (rp_ID resp) (rp_Result resp)))"

record client_state =
  cl_reqID :: int
  cl_polling :: bool
  cl_quitting :: bool
  cl_running :: bool

text \<open>
  What happens to a running client: the ticker fires (and the write succeeds or not), the signal
  arrives, the pause after it is over, a frame is read, reading fails.
\<close>

datatype client_event = Poll bool | Signal bool | PauseOver bool | Incoming bytes | ReadFailed

datatype client_action = Sent frame | Printed client_output | Exited int

definition poll_request :: "int \<Rightarrow> rpcRequest" where
  "poll_request i = \<lparr>rc_JSONRPC = ''2.0'', rc_ID = i, rc_Method = ''eth_blockNumber'', rc_Params = []\<rparr>"

definition unsubscribe_request :: "string \<Rightarrow> rpcRequest" where
  "unsubscribe_request subID =
     \<lparr>rc_JSONRPC = ''2.0'', rc_ID = 999, rc_Method = ''eth_unsubscribe'', rc_Params = [subID]\<rparr>"

definition bye_frame :: frame where
  "bye_frame = \<lparr>fr_mt = CloseMessage, fr_msg = [CHR 0x03, CHR 0xE8] @ ''bye''\<rparr>"

definition client_init :: client_state where
  "client_init = \<lparr>cl_reqID = 2, cl_polling = True, cl_quitting = False, cl_running = True\<rparr>"

definition client_step :: "string \<Rightarrow> string \<Rightarrow> client_event \<Rightarrow> client_state \<Rightarrow> client_action list \<times> client_state" where
  "client_step e subID ev s =
     (if \<not> cl_running s then ([], s)
      else
        (case ev of
           Poll ok \<Rightarrow>
             if \<not> cl_polling s then ([], s)
             else
               ((if ok then [Sent (WriteJSON e (Marshal_rpcRequest (poll_request (cl_reqID s))))] else []),
                s\<lparr>cl_reqID := cl_reqID s + 1, cl_polling := ok\<rparr>)
         | Signal ok \<Rightarrow>
             if cl_quitting s then ([], s)
             else
               ((if ok then [Sent (WriteJSON e (Marshal_rpcRequest (unsubscribe_request subID)))] else []),
                s\<lparr>cl_quitting := True\<rparr>)
         | PauseOver ok \<Rightarrow>
             if \<not> cl_quitting s then ([], s)
             else ((if ok then [Sent bye_frame] else []) @ [Exited 0], s\<lparr>cl_running := False\<rparr>)
         | Incoming raw \<Rightarrow> ([Printed (show_frame raw)], s)
         | ReadFailed \<Rightarrow> ([Exited 0], s\<lparr>cl_running := False\<rparr>)))"

fun client_run :: "string \<Rightarrow> string \<Rightarrow> client_event list \<Rightarrow> client_state \<Rightarrow> client_action list \<times> client_state" where
  "client_run e subID [] s = ([], s)"
| "client_run e subID (ev # evs) s =
     (let (as, s') = client_step e subID ev s; (bs, s'') = client_run e subID evs s' in (as @ bs, s''))"

section \<open>The proxy reads what the client writes\<close>

definition request_text :: "rpcRequest \<Rightarrow> jtext" where
  "request_text r = TObj [(''jsonrpc'', TStr (rc_JSONRPC r)), (''id'', TNum (Itoa (rc_ID r))),
     (''method'', TStr (rc_Method r)), (''params'', strs (rc_Params r))]"

definition safe_request :: "rpcRequest \<Rightarrow> bool" where
  "safe_request r \<longleftrightarrow>
     safe (rc_JSONRPC r) \<and> 0 \<le> rc_ID r \<and> safe (rc_Method r) \<and> list_all safe (rc_Params r)"

lemma request_text: "safe_request r \<Longrightarrow> Marshal_rpcRequest r = jprint (request_text r) \<and> jok 0 (request_text r)"
  by (simp add: safe_request_def Marshal_rpcRequest_def request_text_def json_member_def jok_strs natural_Itoa
      jprint_strs [simplified])

lemma match_ws_request:
  "match_field [''id'', ''method'', ''params''] ''jsonrpc'' = None"
  "match_field [''id'', ''method'', ''params''] ''id'' = Some ''id''"
  "match_field [''id'', ''method'', ''params''] ''method'' = Some ''method''"
  "match_field [''id'', ''method'', ''params''] ''params'' = Some ''params''"
  by code_simp+

lemma request_read:
  assumes "safe_request r" and "list_all is_ws e"
  shows "Unmarshal_ws_request (Marshal_rpcRequest r @ e) =
     Some \<lparr>wq_ID = Itoa (rc_ID r), wq_Method = rc_Method r, wq_Params = jprint (strs (rc_Params r))\<rparr>"
proof -
  have "json_parse (Marshal_rpcRequest r @ e) = Some (jval (request_text r))"
    using request_text [OF assms(1)] json_parse_jprint assms(2) by simp
  then show ?thesis
    by (simp add: Unmarshal_ws_request_def Unmarshal_struct_def decode_struct_def request_text_def match_ws_request
        put_ws_request_def decode_string_def)
qed

text \<open>The requests of the client qualify.\<close>

lemma safe_client_requests:
  "safe_request subscribe_request" "0 \<le> i \<Longrightarrow> safe_request (poll_request i)"
  "safe subID \<Longrightarrow> safe_request (unsubscribe_request subID)"
proof -
  have "safe ''2.0''" "safe ''eth_subscribe''" "safe ''newHeads''" "safe ''eth_blockNumber''" "safe ''eth_unsubscribe''"
    by code_simp+
  then show "safe_request subscribe_request" "0 \<le> i \<Longrightarrow> safe_request (poll_request i)"
    "safe subID \<Longrightarrow> safe_request (unsubscribe_request subID)"
    by (simp_all add: safe_request_def subscribe_request_def poll_request_def unsubscribe_request_def)
qed

section \<open>Properties\<close>

text \<open>What a running client has written, and that its end is final.\<close>

definition proper :: "string \<Rightarrow> client_state \<Rightarrow> frame \<Rightarrow> bool" where
  "proper subID s f \<longleftrightarrow>
     (case Unmarshal_ws_request (fr_msg f) of
        None \<Rightarrow> f = bye_frame \<and> cl_quitting s \<and> \<not> cl_running s
      | Some q \<Rightarrow>
          (\<exists>i. 2 \<le> i \<and> i < cl_reqID s \<and>
             q = \<lparr>wq_ID = Itoa i, wq_Method = ''eth_blockNumber'', wq_Params = ''[]''\<rparr>) \<or>
          cl_quitting s \<and>
             q = \<lparr>wq_ID = ''999'', wq_Method = ''eth_unsubscribe'', wq_Params = jprint (strs [subID])\<rparr>)"

lemma bye_not_json: "Unmarshal_ws_request (fr_msg bye_frame) = None"
  by code_simp

lemma client_step_proper:
  assumes "list_all is_ws e" and "safe subID" and "2 \<le> cl_reqID s"
    and "client_step e subID ev s = (as, s')" and "Sent f \<in> set as"
  shows "proper subID s' f"
proof -
  have "Itoa 999 = ''999''" "jprint (strs []) = ''[]''" by code_simp+
  then show ?thesis
    using assms(3-5) request_read [OF _ assms(1)] safe_client_requests(2) [of "cl_reqID s"]
      safe_client_requests(3) [OF assms(2)] bye_not_json
    by (auto simp: client_step_def proper_def WriteJSON_def poll_request_def unsubscribe_request_def
        split: if_splits client_event.splits)
qed

lemma client_step_grows:
  assumes "client_step e subID ev s = (as, s')"
  shows "cl_reqID s \<le> cl_reqID s'" and "cl_quitting s \<Longrightarrow> cl_quitting s'" and "\<not> cl_running s \<Longrightarrow> as = [] \<and> s' = s"
    and "cl_running s \<Longrightarrow> \<not> cl_running s' \<longleftrightarrow> (\<exists>bs. as = bs @ [Exited 0])" and "cl_running s' \<Longrightarrow> Exited n \<notin> set as"
  using assms by (auto simp: client_step_def split: if_splits client_event.splits)

lemma proper_grows:
  "proper subID s f \<Longrightarrow> client_step e subID ev s = (as, s') \<Longrightarrow> proper subID s' f"
  using client_step_grows [of e subID ev s as s']
  by (cases "Unmarshal_ws_request (fr_msg f)") (auto simp: proper_def)

lemma client_run_dead: "\<not> cl_running s \<Longrightarrow> client_run e subID evs s = ([], s)"
  by (induction evs) (simp_all add: client_step_def)

lemma client_run_proper:
  assumes "list_all is_ws e" and "safe subID"
  shows "2 \<le> cl_reqID s \<Longrightarrow> client_run e subID evs s = (as, s') \<Longrightarrow>
     (\<forall>f. proper subID s f \<longrightarrow> proper subID s' f) \<and> (\<forall>f. Sent f \<in> set as \<longrightarrow> proper subID s' f) \<and>
     (cl_running s \<longrightarrow> (if cl_running s' then \<forall>n. Exited n \<notin> set as
        else \<exists>bs. as = bs @ [Exited 0] \<and> (\<forall>n. Exited n \<notin> set bs)))"
proof (induction evs arbitrary: s as)
  case (Cons ev evs)
  obtain as1 s1 as2 where step: "client_step e subID ev s = (as1, s1)"
    and run: "client_run e subID evs s1 = (as2, s')" and as: "as = as1 @ as2"
    using Cons.prems(2) by (auto split: prod.splits)
  note grows = client_step_grows [OF step]
  then have IH: "(\<forall>f. proper subID s1 f \<longrightarrow> proper subID s' f) \<and> (\<forall>f. Sent f \<in> set as2 \<longrightarrow> proper subID s' f) \<and>
     (cl_running s1 \<longrightarrow> (if cl_running s' then \<forall>n. Exited n \<notin> set as2
        else \<exists>bs. as2 = bs @ [Exited 0] \<and> (\<forall>n. Exited n \<notin> set bs)))"
    using Cons.IH [OF _ run] Cons.prems(1) by simp
  have frames: "Sent f \<in> set as1 \<Longrightarrow> proper subID s1 f" for f
    by (rule client_step_proper [OF assms Cons.prems(1) step])
  have only: "as1 = bs @ [Exited 0] \<Longrightarrow> Exited n \<notin> set bs" for bs n
    using step by (auto simp: client_step_def append_eq_Cons_conv split: if_splits client_event.splits)
  have "if cl_running s' then \<forall>n. Exited n \<notin> set as
        else \<exists>bs. as = bs @ [Exited 0] \<and> (\<forall>n. Exited n \<notin> set bs)" if "cl_running s"
  proof (cases "cl_running s1")
    case True
    with grows(5) have none: "\<forall>n. Exited n \<notin> set as1" by blast
    show ?thesis
    proof (cases "cl_running s'")
      case True
      with \<open>cl_running s1\<close> IH none show ?thesis by (simp add: as)
    next
      case False
      with \<open>cl_running s1\<close> IH obtain bs where "as2 = bs @ [Exited 0]" "\<forall>n. Exited n \<notin> set bs" by auto
      with none False show ?thesis by (intro if_not_P [THEN iffD2] exI [of _ "as1 @ bs"]) (simp_all add: as)
    qed
  next
    case False
    with that grows(4) obtain bs where "as1 = bs @ [Exited 0]" by blast
    moreover from False run client_run_dead [of s1 e subID evs] have "as2 = []" "s' = s1" by auto
    ultimately show ?thesis using False only by (auto simp: as)
  qed
  with IH frames proper_grows [OF _ step] show ?case by (auto simp: as)
qed simp



end
