(* ===== verification/GoCase.thy ===== *)
theory GoCase
  imports GoJson GoUrl
begin

text \<open>
  \<open>strings.ToLower\<close> on bytes.  The argument \<open>uni\<close> stands for the lower-case table of the Unicode
  standard on runes outside ASCII; nothing about it is used on ASCII strings.
\<close>

section \<open>Runes\<close>

text \<open>The first rune of a non-empty string; what is not valid UTF-8 is U+FFFD, one byte long.\<close>

definition decode_rune :: "string \<Rightarrow> int \<times> nat" where
  "decode_rune s =
     (let b = (\<lambda>i. of_char (s ! i) :: int); n = utf8_size s in
      (if n = 1 then b 0
       else if n = 2 then (b 0 - 0xC0) * 64 + (b 1 - 0x80)
       else if n = 3 then (b 0 - 0xE0) * 4096 + (b 1 - 0x80) * 64 + (b 2 - 0x80)
       else if n = 4 then
         (b 0 - 0xF0) * 262144 + (b 1 - 0x80) * 4096 + (b 2 - 0x80) * 64 + (b 3 - 0x80)
       else 0xFFFD,
       if n = 0 then 1 else n))"

definition ToLower_rune :: "(int \<Rightarrow> int) \<Rightarrow> int \<Rightarrow> int" where
  "ToLower_rune uni r =
     (if r < 128 then (if 65 \<le> r \<and> r \<le> 90 then r + 32 else r) else uni r)"

text \<open>The bytes of a rune are consumed as it is met; \<open>n\<close> counts those still to be skipped.\<close>

fun map_runes :: "(int \<Rightarrow> int) \<Rightarrow> nat \<Rightarrow> string \<Rightarrow> string" where
  "map_runes f n [] = []"
| "map_runes f (Suc n) (c # s) = map_runes f n s"
| "map_runes f 0 (c # s) =
     (let (r, k) = decode_rune (c # s) in utf8_encode (f r) @ map_runes f (k - 1) s)"

definition ToLower :: "(int \<Rightarrow> int) \<Rightarrow> string \<Rightarrow> string" where
  "ToLower uni s = map_runes (ToLower_rune uni) 0 s"

section \<open>ASCII\<close>

definition is_ascii :: "string \<Rightarrow> bool" where
  "is_ascii s \<longleftrightarrow> list_all (\<lambda>c. (of_char c :: int) < 128) s"

lemma decode_rune_ascii: "(of_char c :: int) < 128 \<Longrightarrow> decode_rune (c # s) = (of_char c, 1)"
  by (simp add: decode_rune_def utf8_size_def Let_def)

lemma ToLower_ascii: "is_ascii s \<Longrightarrow> ToLower uni s = lower_ascii s"
proof (induction s)
  case Nil
  then show ?case by (simp add: ToLower_def lower_ascii_def)
next
  case (Cons c s)
  then have "(of_char c :: int) < 128" and "is_ascii s" by (simp_all add: is_ascii_def)
  with Cons.IH show ?case
    by (simp add: ToLower_def lower_ascii_def decode_rune_ascii ToLower_rune_def utf8_encode_def Let_def)
qed

lemma is_ascii_append [simp]: "is_ascii (s @ t) \<longleftrightarrow> is_ascii s \<and> is_ascii t"
  by (simp add: is_ascii_def)

lemma lower_ascii_append [simp]: "lower_ascii (s @ t) = lower_ascii s @ lower_ascii t"
  by (simp add: lower_ascii_def)

lemma lower_ascii_Nil [simp]: "lower_ascii s = [] \<longleftrightarrow> s = []" "lower_ascii [] = []"
  by (simp_all add: lower_ascii_def)

lemma lower_ascii_idem [simp]: "lower_ascii (lower_ascii s) = lower_ascii s"
  by (auto simp: lower_ascii_def Let_def of_char_of)

lemma is_ascii_lower: "is_ascii s \<Longrightarrow> is_ascii (lower_ascii s)"
  by (auto simp: is_ascii_def lower_ascii_def list_all_iff Let_def)

end
