(* ===== verification/Router.thy ===== *)
theory Router
  imports Upstream
begin

text \<open>
  Routing of requests by method name (internal/router/router.go).  A router holds nothing but its
  pool, so its state is the pool.
\<close>

definition MethodCapability :: "string \<Rightarrow> Capability" where
  "MethodCapability m =
     (if HasPrefix m ''debug_'' then CapDebug
      else if HasPrefix m ''trace_'' then CapTrace
      else CapBasic)"

text \<open>\<open>Inl required\<close> is the error "no upstream available with required capability".\<close>

definition Route :: "Pool \<Rightarrow> string \<Rightarrow> (Capability + nat) \<times> Pool" where
  "Route p m =
     (let required = MethodCapability m in
      case NextWithCapability p required of
        (None, p') \<Rightarrow> (Inl required, p')
      | (Some i, p') \<Rightarrow> (Inr i, p'))"

lemma snd_Route [go_state, simp]: "snd (Route p m) = bump p"
  by (auto simp: Route_def NextWithCapability_def Let_def split: option.splits)

lemma fst_Route:
  "fst (Route p m) =
     (case fst (NextWithCapability p (MethodCapability m)) of
        None \<Rightarrow> Inl (MethodCapability m) | Some i \<Rightarrow> Inr i)"
  by (auto simp: Route_def Let_def split: prod.splits option.splits)

lemma Route_Inr:
  "fst (Route p m) = Inr i \<longleftrightarrow> fst (NextWithCapability p (MethodCapability m)) = Some i"
  by (auto simp: fst_Route split: option.splits)

text \<open>The nodes a method may be sent to.\<close>

abbreviation serves :: "Pool \<Rightarrow> string \<Rightarrow> nat \<Rightarrow> bool" where
  "serves p m i \<equiv> i < length (p_nodes p) \<and> usable p (MethodCapability m) i"

section \<open>The interface a retry loop relies on\<close>

text \<open>
  A source of nodes for one kind of request: \<open>pick\<close> yields a node that is eligible, fails only
  when there is none, and moves on by one slot with every call, so that any \<open>size\<close> calls in a row
  start at every slot once.  \<open>after p k\<close> is the source after \<open>k\<close> further calls.
\<close>

locale node_source =
  fixes pick :: "'p \<Rightarrow> nat option" and advance :: "'p \<Rightarrow> 'p"
    and size :: "'p \<Rightarrow> nat" and eligible :: "'p \<Rightarrow> nat \<Rightarrow> bool"
    and start :: "'p \<Rightarrow> nat" and ready :: "'p \<Rightarrow> nat \<Rightarrow> bool"
  assumes pick_eligible: "ready p k \<Longrightarrow> pick p = Some i \<Longrightarrow> i < size p \<and> eligible p i"
    and pick_start: "ready p k \<Longrightarrow> eligible p (start p mod size p) \<Longrightarrow> 0 < size p \<Longrightarrow>
          pick p = Some (start p mod size p)"
    and pick_None: "ready p k \<Longrightarrow> pick p = None \<longleftrightarrow> (\<forall>i < size p. \<not> eligible p i)"
    and advance_size: "size (advance p) = size p"
    and advance_eligible: "eligible (advance p) = eligible p"
    and advance_start: "ready p (Suc k) \<Longrightarrow> start (advance p) = Suc (start p)"
    and advance_ready: "ready p (Suc k) \<Longrightarrow> ready (advance p) k"
begin

text \<open>The nodes the next \<open>k\<close> calls pick.\<close>

primrec picks :: "nat \<Rightarrow> 'p \<Rightarrow> nat list" where
  "picks 0 p = []"
| "picks (Suc k) p = (case pick p of None \<Rightarrow> [] | Some i \<Rightarrow> i # picks k (advance p))"

lemma picks_eligible: "ready p k \<Longrightarrow> i \<in> set (picks k p) \<Longrightarrow> i < size p \<and> eligible p i"
proof (induction k arbitrary: p)
  case 0
  then show ?case by simp
next
  case (Suc k)
  then show ?case
    using pick_eligible [OF Suc.prems(1)] Suc.IH [OF advance_ready [OF Suc.prems(1)]]
    by (auto simp: advance_size advance_eligible split: option.splits)
qed

lemma picks_start:
  assumes "ready p k" and "j < k" and "0 < size p"
    and "eligible p ((start p + j) mod size p)"
  shows "(start p + j) mod size p \<in> set (picks k p)"
  using assms
proof (induction k arbitrary: p j)
  case 0
  then show ?case by simp
next
  case (Suc k)
  have "(start p + j) mod size p < size p"
    using Suc.prems(3) by simp
  then obtain i where i: "pick p = Some i"
    using Suc.prems(4) pick_None [OF Suc.prems(1)] by blast
  show ?case
  proof (cases j)
    case 0
    with Suc.prems pick_start [OF Suc.prems(1)] show ?thesis by simp
  next
    case (Suc j')
    have "(start (advance p) + j') mod size (advance p) \<in> set (picks k (advance p))"
      using Suc Suc.prems advance_start [OF Suc.prems(1)]
      by (intro Suc.IH) (auto simp: advance_size advance_eligible advance_ready)
    with Suc i show ?thesis
      using advance_start [OF Suc.prems(1)] by (simp add: advance_size)
  qed
qed

lemma picks_all:
  assumes "ready p (size p)"
  shows "set (picks (size p) p) = {i. i < size p \<and> eligible p i}"
proof
  show "set (picks (size p) p) \<subseteq> {i. i < size p \<and> eligible p i}"
    using picks_eligible [OF assms] by blast
next
  show "{i. i < size p \<and> eligible p i} \<subseteq> set (picks (size p) p)"
  proof
    fix i
    assume "i \<in> {i. i < size p \<and> eligible p i}"
    moreover from this obtain j where "j < size p" "(start p + j) mod size p = i"
      using slots_cover [of i "size p" "start p"] by auto
    ultimately show "i \<in> set (picks (size p) p)"
      using picks_start [OF assms, of j] by auto
  qed
qed

end

text \<open>
  The router over a pool whose counter has room for \<open>k\<close> more calls is such a source, for every
  method.
\<close>

definition pool_ready :: "Pool \<Rightarrow> nat \<Rightarrow> bool" where
  "pool_ready p k \<longleftrightarrow>
     length (p_nodes p) < 2 ^ 64 \<and> unat (p_counter p) + k + length (p_nodes p) < 2 ^ 64"

definition route_pick :: "string \<Rightarrow> Pool \<Rightarrow> nat option" where
  "route_pick m p = (case fst (Route p m) of Inl _ \<Rightarrow> None | Inr i \<Rightarrow> Some i)"

lemma route_pick_eq: "route_pick m p = fst (NextWithCapability p (MethodCapability m))"
  by (auto simp: route_pick_def fst_Route split: option.splits)

lemma pool_ready_roomy: "pool_ready p k \<Longrightarrow> roomy p"
  by (simp add: pool_ready_def roomy_def)

lemma route_pick_start:
  assumes "pool_ready p k" and "0 < length (p_nodes p)"
    and "usable p (MethodCapability m) (unat (p_counter p) mod length (p_nodes p))"
  shows "route_pick m p = Some (unat (p_counter p) mod length (p_nodes p))"
proof -
  have "visit p (unat (p_counter p)) =
      unat (p_counter p) mod length (p_nodes p) # tl (visit p (unat (p_counter p)))"
    using assms(2) by (simp add: visit_def upt_conv_Cons)
  then have "find (usable p (MethodCapability m)) (visit p (unat (p_counter p))) =
      Some (unat (p_counter p) mod length (p_nodes p))"
    using assms(3) by (metis find.simps(2))
  then show ?thesis
    by (simp add: route_pick_eq NextWithCapability_find [OF pool_ready_roomy [OF assms(1)]])
qed

interpretation route_source: node_source "route_pick m" bump "\<lambda>p. length (p_nodes p)"
  "\<lambda>p. usable p (MethodCapability m)" "\<lambda>p. unat (p_counter p)" pool_ready
proof unfold_locales
  fix p k i
  assume "pool_ready p k" and "route_pick m p = Some i"
  moreover from this have "p_nodes p \<noteq> []"
    by (auto simp: route_pick_eq NextWithCapability_def Let_def)
  ultimately show "i < length (p_nodes p) \<and> usable p (MethodCapability m) i"
    using NextWithCapability_usable [of p "MethodCapability m" i]
    by (simp add: pool_ready_def route_pick_eq)
next
  fix p k
  assume "pool_ready p k"
  then show "usable p (MethodCapability m) (unat (p_counter p) mod length (p_nodes p)) \<Longrightarrow>
      0 < length (p_nodes p) \<Longrightarrow>
      route_pick m p = Some (unat (p_counter p) mod length (p_nodes p))"
    using route_pick_start [OF \<open>pool_ready p k\<close>] by blast
  show "route_pick m p = None \<longleftrightarrow> (\<forall>i < length (p_nodes p). \<not> usable p (MethodCapability m) i)"
    using NextWithCapability_None [OF pool_ready_roomy [OF \<open>pool_ready p k\<close>]]
    by (simp add: route_pick_eq)
next
  fix p k
  assume ready: "pool_ready p (Suc k)"
  then have "unat (p_counter p + 1) = Suc (unat (p_counter p))"
    by (simp add: pool_ready_def unat_word_ariths take_bit_nat_eq_self)
  with ready show "unat (p_counter (bump p)) = Suc (unat (p_counter p))"
    and "pool_ready (bump p) k"
    by (simp_all add: pool_ready_def)
qed simp_all

section \<open>Properties\<close>

text \<open>
  A request is only ever routed to a healthy node that offers what its method needs
  (\<open>debug_\<close> methods the debug namespace, \<open>trace_\<close> methods the trace namespace, all others basic
  service), and it is routed whenever there is such a node.
\<close>

lemma route_correct:
  assumes "pool_ready p 1"
  shows "(\<forall>i. fst (Route p m) = Inr i \<longrightarrow>
            i < length (p_nodes p) \<and> IsHealthy (p_nodes p ! i) \<and>
            Has (Capabilities (p_nodes p ! i)) (MethodCapability m)) \<and>
         ((\<exists>i. fst (Route p m) = Inr i) \<longleftrightarrow>
            (\<exists>i < length (p_nodes p). IsHealthy (p_nodes p ! i) \<and>
               Has (Capabilities (p_nodes p ! i)) (MethodCapability m)))"
proof -
  have pick: "fst (Route p m) = Inr i \<longleftrightarrow> route_pick m p = Some i" for i
    by (simp add: Route_Inr route_pick_eq)
  have "i < length (p_nodes p) \<and> usable p (MethodCapability m) i" if "fst (Route p m) = Inr i" for i
    using route_source.pick_eligible [OF assms] that pick by blast
  moreover have "(\<exists>i. fst (Route p m) = Inr i) \<longleftrightarrow>
      (\<exists>i < length (p_nodes p). usable p (MethodCapability m) i)"
    using route_source.pick_None [OF assms, of m] pick by (metis not_None_eq)
  ultimately show ?thesis
    by (auto simp: usable_def)
qed

end
