(* ===== verification/Finality.thy ===== *)
theory Finality
  imports GoJson
begin

text \<open>
  Cache layers (internal/cache/layer.go), the finality-aware classification of requests
  (internal/cache/finality.go) and the cache key (\<open>CacheKey\<close> of internal/cache/cache.go).  Block
  numbers keep their 64 bits, so that the guard against underflow is visible.
\<close>

section \<open>Layers\<close>

datatype Layer = LayerImmutable | LayerMutable | LayerUncacheable

definition hash_methods :: "string list" where
  "hash_methods =
     [''eth_getTransactionByHash'', ''eth_getTransactionReceipt'', ''eth_getBlockByHash'',
      ''eth_getUncleByBlockHashAndIndex'']"

definition Classify :: "string \<Rightarrow> Layer" where
  "Classify m =
     (if m \<in> set hash_methods then LayerImmutable
      else if m \<in> set [''eth_blockNumber'', ''eth_gasPrice'', ''eth_getBalance'', ''eth_call'',
                       ''eth_estimateGas'', ''eth_feeHistory'']
      then LayerMutable
      else LayerUncacheable)"

section \<open>Finality checker\<close>

record FinalityChecker =
  fc_depth :: uint64
  fc_head :: uint64

definition NewFinalityChecker :: "uint64 \<Rightarrow> FinalityChecker" where
  "NewFinalityChecker d = \<lparr>fc_depth = d, fc_head = 0\<rparr>"

definition Head :: "FinalityChecker \<Rightarrow> uint64" where
  "Head fc = fc_head fc"

definition SetHead :: "uint64 \<Rightarrow> FinalityChecker \<Rightarrow> FinalityChecker" where
  "SetHead n fc = fc\<lparr>fc_head := n\<rparr>"

definition IsFinalized :: "FinalityChecker \<Rightarrow> uint64 \<Rightarrow> bool" where
  "IsFinalized fc n \<longleftrightarrow> n \<le> fc_head fc \<and> fc_depth fc \<le> fc_head fc - n"

definition parseHexBlock :: "string \<Rightarrow> uint64 option" where
  "parseHexBlock s =
     (if \<not> HasPrefix s ''0x'' \<and> \<not> HasPrefix s ''0X'' then None else ParseUint 16 (drop 2 s))"

definition blockTagLayer :: "string \<Rightarrow> Layer option" where
  "blockTagLayer tag =
     (if tag \<in> set [''latest'', ''pending'', ''safe''] then Some LayerMutable
      else if tag \<in> set [''earliest'', ''finalized''] then Some LayerImmutable
      else None)"

definition blockParamLayer :: "FinalityChecker \<Rightarrow> string \<Rightarrow> Layer" where
  "blockParamLayer fc raw =
     (case blockTagLayer raw of
        Some l \<Rightarrow> l
      | None \<Rightarrow>
          (case parseHexBlock raw of
             Some n \<Rightarrow> if IsFinalized fc n then LayerImmutable else LayerMutable
           | None \<Rightarrow> LayerMutable))"

definition extractStringParam :: "bytes \<Rightarrow> nat \<Rightarrow> string option" where
  "extractStringParam params idx =
     (case Unmarshal_raw_array params of
        None \<Rightarrow> None
      | Some arr \<Rightarrow> if length arr \<le> idx then None else Unmarshal_string (arr ! idx))"

definition fc_Classify :: "FinalityChecker \<Rightarrow> string \<Rightarrow> bytes \<Rightarrow> Layer" where
  "fc_Classify fc m params =
     (if m \<in> set hash_methods then LayerImmutable
      else if m = ''eth_getBlockByNumber'' then
        (case extractStringParam params 0 of
           None \<Rightarrow> LayerMutable | Some tag \<Rightarrow> blockParamLayer fc tag)
      else if m \<in> set [''eth_getBalance'', ''eth_call'', ''eth_estimateGas''] then
        (case extractStringParam params 1 of
           None \<Rightarrow> LayerMutable | Some tag \<Rightarrow> blockParamLayer fc tag)
      else if m \<in> set [''eth_blockNumber'', ''eth_gasPrice'', ''eth_feeHistory''] then LayerMutable
      else LayerUncacheable)"

definition CacheKey :: "string \<Rightarrow> bytes \<Rightarrow> string" where
  "CacheKey m params =
     (case json_parse params of
        None \<Rightarrow> m @ '':'' @ params
      | Some v \<Rightarrow>
          (case any_text v of
             None \<Rightarrow> m @ '':'' @ params
           | Some canonical \<Rightarrow> m @ '':'' @ canonical))"

section \<open>Lemmas\<close>

lemma IsFinalized_nat:
  "IsFinalized fc n \<longleftrightarrow> unat n + unat (fc_depth fc) \<le> unat (fc_head fc)"
proof (cases "n \<le> fc_head fc")
  case True
  then have "unat (fc_head fc - n) = unat (fc_head fc) - unat n"
    by (rule unat_sub)
  moreover have "unat n \<le> unat (fc_head fc)"
    using True by (simp add: word_le_nat_alt)
  ultimately show ?thesis
    using True by (auto simp: IsFinalized_def word_le_nat_alt)
next
  case False
  then show ?thesis
    by (auto simp: IsFinalized_def word_le_nat_alt)
qed

lemma IsFinalized_mono:
  "IsFinalized fc n \<Longrightarrow> fc_head fc \<le> h \<Longrightarrow> IsFinalized (SetHead h fc) n"
  by (auto simp: IsFinalized_nat SetHead_def word_le_nat_alt)

lemma blockParamLayer_cacheable [simp]: "blockParamLayer fc raw \<noteq> LayerUncacheable"
  by (auto simp: blockParamLayer_def blockTagLayer_def split: option.splits)

lemma blockParamLayer_Immutable:
  "blockParamLayer fc raw = LayerImmutable \<longleftrightarrow>
     raw \<in> {''earliest'', ''finalized''} \<or>
     (\<exists>n. parseHexBlock raw = Some n \<and> IsFinalized fc n)"
  by (auto simp: blockParamLayer_def blockTagLayer_def parseHexBlock_def split: option.splits)

text \<open>The methods whose results may be cached, and that they have no colon in their name.\<close>

definition cacheable_methods :: "string list" where
  "cacheable_methods =
     hash_methods @
     [''eth_getBlockByNumber'', ''eth_getBalance'', ''eth_call'', ''eth_estimateGas'',
      ''eth_blockNumber'', ''eth_gasPrice'', ''eth_feeHistory'']"

lemma fc_Classify_cacheable:
  "fc_Classify fc m params \<noteq> LayerUncacheable \<longleftrightarrow> m \<in> set cacheable_methods"
  by (simp add: fc_Classify_def cacheable_methods_def split: option.splits)

lemma cacheable_no_colon: "m \<in> set cacheable_methods \<Longrightarrow> CHR '':'' \<notin> set m"
  by (auto simp: cacheable_methods_def hash_methods_def)

lemma CacheKey_prefix: "\<exists>t. CacheKey m params = m @ '':'' @ t"
  by (auto simp: CacheKey_def split: option.splits)

lemma split_at_colon:
  assumes "m @ '':'' @ t = m' @ '':'' @ t'" and "CHR '':'' \<notin> set m" and "CHR '':'' \<notin> set m'"
  shows "m = m' \<and> t = t'"
  using assms
proof (induction m arbitrary: m')
  case Nil
  then show ?case by (cases m') auto
next
  case (Cons c m)
  then show ?case by (cases m') auto
qed

lemma CacheKey_method_inj:
  assumes "CacheKey m p = CacheKey m' p'"
    and "m \<in> set cacheable_methods" and "m' \<in> set cacheable_methods"
  shows "m = m'"
proof -
  obtain t t' where "CacheKey m p = m @ '':'' @ t" "CacheKey m' p' = m' @ '':'' @ t'"
    using CacheKey_prefix by blast
  with assms split_at_colon show ?thesis
    by (metis cacheable_no_colon)
qed

section \<open>Properties\<close>

text \<open>
  A block counts as finalized exactly when it has at least \<open>depth\<close> confirmations
  below the head, as numbers: the 64-bit subtraction never underflows and no sum wraps around.
  Moreover a finalized block stays finalized when the head advances.
\<close>

theorem finalized_confirmations:
  "(IsFinalized fc n \<longleftrightarrow> unat n + unat (fc_depth fc) \<le> unat (fc_head fc)) \<and>
   (IsFinalized fc n \<longrightarrow> fc_head fc \<le> h \<longrightarrow> IsFinalized (SetHead h fc) n)"
  using IsFinalized_nat IsFinalized_mono by blast

theorem finalized_confirmations_witness:
  "IsFinalized \<lparr>fc_depth = 12, fc_head = 100\<rparr> 88 \<and>
   IsFinalized (SetHead 101 \<lparr>fc_depth = 12, fc_head = 100\<rparr>) 88"
  using finalized_confirmations [of "\<lparr>fc_depth = 12, fc_head = 100\<rparr>" 88 101] by simp

definition block_param :: "string \<Rightarrow> bytes \<Rightarrow> string option" where
  "block_param m params =
     (if m = ''eth_getBlockByNumber'' then extractStringParam params 0
      else if m \<in> set [''eth_getBalance'', ''eth_call'', ''eth_estimateGas'']
      then extractStringParam params 1
      else None)"

text \<open>
  Property C14.  Exactly which requests are served from the immutable layer: those addressed by a
  hash, and those whose block parameter is the tag \<open>earliest\<close> or \<open>finalized\<close> or a hexadecimal
  number with at least \<open>depth\<close> confirmations.  In particular a block number above the
  finality horizon is never treated as immutable.
\<close>

theorem immutable_iff:
  "fc_Classify fc m params = LayerImmutable \<longleftrightarrow>
     m \<in> set hash_methods \<or>
     (\<exists>tag. block_param m params = Some tag \<and>
        (tag = ''earliest'' \<or> tag = ''finalized'' \<or>
         (\<exists>n. parseHexBlock tag = Some n \<and>
            unat n + unat (fc_depth fc) \<le> unat (fc_head fc))))"
  by (auto simp: fc_Classify_def block_param_def blockParamLayer_Immutable IsFinalized_nat
      hash_methods_def split: option.splits)

text \<open>
  The finality-aware classification extends the static one of layer.go: it makes one
  more method cacheable, agrees on every method without a block parameter, and on the others only
  ever promotes a mutable answer to an immutable one.
\<close>

theorem classify_extends_static:
  "(fc_Classify fc m params = LayerUncacheable \<longleftrightarrow>
      Classify m = LayerUncacheable \<and> m \<noteq> ''eth_getBlockByNumber'') \<and>
   (Classify m = LayerImmutable \<longrightarrow> fc_Classify fc m params = LayerImmutable) \<and>
   (block_param m params = None \<longrightarrow> m \<noteq> ''eth_getBlockByNumber'' \<longrightarrow>
      fc_Classify fc m params = Classify m)"
proof -
  have "fc_Classify fc m params = LayerUncacheable \<longleftrightarrow> m \<notin> set cacheable_methods"
    using fc_Classify_cacheable by blast
  moreover have "m \<notin> set cacheable_methods \<longleftrightarrow>
      Classify m = LayerUncacheable \<and> m \<noteq> ''eth_getBlockByNumber''"
    by (auto simp: cacheable_methods_def Classify_def)
  moreover have "Classify m = LayerImmutable \<longrightarrow> fc_Classify fc m params = LayerImmutable"
    by (simp add: Classify_def fc_Classify_def)
  moreover have "block_param m params = None \<longrightarrow> m \<noteq> ''eth_getBlockByNumber'' \<longrightarrow>
      fc_Classify fc m params = Classify m"
    by (auto simp: block_param_def fc_Classify_def Classify_def split: if_splits)
  ultimately show ?thesis by blast
qed

theorem classify_extends_static_witness:
  "fc_Classify (NewFinalityChecker 12) ''eth_gasPrice'' ''[]'' = LayerMutable"
proof -
  have "block_param ''eth_gasPrice'' ''[]'' = None"
    by (simp add: block_param_def)
  then have "fc_Classify (NewFinalityChecker 12) ''eth_gasPrice'' ''[]'' = Classify ''eth_gasPrice''"
    using classify_extends_static [of "NewFinalityChecker 12" "''eth_gasPrice''" "''[]''"] by simp
  then show ?thesis
    by (simp add: Classify_def hash_methods_def)
qed

text \<open>
  Printing a block number as a hexadecimal quantity and parsing it back is the
  identity on all 64-bit numbers, with either spelling of the prefix.
\<close>

theorem parseHexBlock_roundtrip:
  "parseHexBlock (''0x'' @ FormatUint 16 (uint n)) = Some n \<and>
   parseHexBlock (''0X'' @ FormatUint 16 (uint n)) = Some n"
  by (simp add: parseHexBlock_def ParseUint_FormatUint)

end
