(* ===== verification/Store.thy ===== *)
theory Store
  imports Prelude
begin

text \<open>
  The \<open>cache.Store\<close> interface (internal/cache/store.go) and the contract its clients rely on.
  A Go interface value is a table of methods: the record \<open>Store\<close>.  The contract is stated as
  three locales over such a table, each extending the one before: what is found was written
  (\<open>written_store\<close>, all the proxy needs), it is the last value written (\<open>lossy_store\<close>), and a
  write is not lost (\<open>kv_store\<close>, what the in-process cache promises).
\<close>

record 's Store =
  st_Get :: "'s \<Rightarrow> instant \<Rightarrow> string \<Rightarrow> bytes option \<times> 's"
  st_Set :: "'s \<Rightarrow> instant \<Rightarrow> string \<Rightarrow> bytes \<Rightarrow> duration \<Rightarrow> 's"
  st_Delete :: "'s \<Rightarrow> instant \<Rightarrow> string \<Rightarrow> 's"

text \<open>The instant at which a value written at \<open>now\<close> with \<open>ttl\<close> expires; \<open>None\<close> is never.\<close>

definition expiry_of :: "instant \<Rightarrow> duration \<Rightarrow> instant option" where
  "expiry_of now ttl = (if 0 < ttl then Some (now + ttl) else None)"

text \<open>\<open>!expiry.IsZero() && expiry.Before(now)\<close>.\<close>

definition expired :: "instant option \<Rightarrow> instant \<Rightarrow> bool" where
  "expired e now \<longleftrightarrow> (case e of None \<Rightarrow> False | Some t \<Rightarrow> t < now)"

lemma expired_simps [simp]:
  "\<not> expired None now" "expired (Some t) now \<longleftrightarrow> t < now"
  by (simp_all add: expired_def)

lemma expired_mono: "expired e now \<Longrightarrow> now \<le> now' \<Longrightarrow> expired e now'"
  by (cases e) auto

lemma expired_expiry_of:
  "expired (expiry_of now ttl) now' \<longleftrightarrow> 0 < ttl \<and> now + ttl < now'"
  by (simp add: expiry_of_def)

text \<open>
  Sequences of calls on a store, and the specification of what a key holds after one: the value of
  the last write, unless a delete came later.
\<close>

datatype store_op =
    OpGet instant string
  | OpSet instant string bytes duration
  | OpDelete instant string

primrec op_time :: "store_op \<Rightarrow> instant" where
  "op_time (OpGet t k) = t"
| "op_time (OpSet t k v ttl) = t"
| "op_time (OpDelete t k) = t"

fun apply_op :: "'s Store \<Rightarrow> 's \<Rightarrow> store_op \<Rightarrow> 's" where
  "apply_op S s (OpGet t k) = snd (st_Get S s t k)"
| "apply_op S s (OpSet t k v ttl) = st_Set S s t k v ttl"
| "apply_op S s (OpDelete t k) = st_Delete S s t k"

definition run_ops :: "'s Store \<Rightarrow> 's \<Rightarrow> store_op list \<Rightarrow> 's" where
  "run_ops S s ops = fold (\<lambda>op s. apply_op S s op) ops s"

fun note_write :: "(instant \<Rightarrow> duration \<Rightarrow> instant option) \<Rightarrow> store_op \<Rightarrow>
    (string \<Rightarrow> (bytes \<times> instant option) option) \<Rightarrow> string \<Rightarrow> (bytes \<times> instant option) option" where
  "note_write life (OpGet t k) m = m"
| "note_write life (OpSet t k v ttl) m = m(k \<mapsto> (v, life t ttl))"
| "note_write life (OpDelete t k) m = m(k := None)"

definition last_write :: "(instant \<Rightarrow> duration \<Rightarrow> instant option) \<Rightarrow> store_op list \<Rightarrow>
    string \<Rightarrow> (bytes \<times> instant option) option" where
  "last_write life ops = fold (note_write life) ops (\<lambda>_. None)"

lemma run_ops_snoc [simp]: "run_ops S s (ops @ [op]) = apply_op S (run_ops S s ops) op"
  by (simp add: run_ops_def)

lemma run_ops_Nil [simp]: "run_ops S s [] = s"
  by (simp add: run_ops_def)

lemma last_write_snoc [simp]:
  "last_write life (ops @ [op]) = note_write life op (last_write life ops)"
  by (simp add: last_write_def)

lemma last_write_Nil [simp]: "last_write life [] k = None"
  by (simp add: last_write_def)

section \<open>The contracts\<close>

text \<open>
  \<open>view s t\<close> are the live entries of \<open>s\<close> at instant \<open>t\<close>, \<open>wf\<close> is the invariant of the
  implementation, and \<open>life t ttl\<close> is the instant at which an entry written at \<open>t\<close> expires.  In a
  \<open>written_store\<close> nothing is ever found that was not written under that very key and is still
  alive; calls may fail silently, so an older value may survive a write or a delete.
\<close>

locale written_store =
  fixes store :: "'s Store"
    and wf :: "'s \<Rightarrow> bool"
    and view :: "'s \<Rightarrow> instant \<Rightarrow> string \<Rightarrow> bytes option"
    and life :: "instant \<Rightarrow> duration \<Rightarrow> instant option"
  assumes get_sound: "wf s \<Longrightarrow> fst (st_Get store s t k) = Some v \<Longrightarrow> view s t k = Some v"
    and get_wf: "wf s \<Longrightarrow> wf (snd (st_Get store s t k))"
    and get_view: "wf s \<Longrightarrow> t \<le> t' \<Longrightarrow> view (snd (st_Get store s t k)) t' \<subseteq>\<^sub>m view s t'"
    and set_wf: "wf s \<Longrightarrow> wf (st_Set store s t k v ttl)"
    and set_same: "wf s \<Longrightarrow> t \<le> t' \<Longrightarrow> view (st_Set store s t k v ttl) t' k = Some v' \<Longrightarrow>
          v' = v \<and> \<not> expired (life t ttl) t' \<or> view s t' k = Some v'"
    and set_other: "wf s \<Longrightarrow> t \<le> t' \<Longrightarrow> k' \<noteq> k \<Longrightarrow>
          view (st_Set store s t k v ttl) t' k' = Some v' \<Longrightarrow> view s t' k' = Some v'"
    and delete_wf: "wf s \<Longrightarrow> wf (st_Delete store s t k)"
    and delete_view: "wf s \<Longrightarrow> t \<le> t' \<Longrightarrow> view (st_Delete store s t k) t' \<subseteq>\<^sub>m view s t'"
    and view_antimono: "wf s \<Longrightarrow> t \<le> t' \<Longrightarrow> view s t' \<subseteq>\<^sub>m view s t"
begin

lemma run_ops_wf: "wf s \<Longrightarrow> wf (run_ops store s ops)"
proof (induction ops rule: rev_induct)
  case Nil
  then show ?case by simp
next
  case (snoc op ops)
  then show ?case
    by (cases op) (simp_all add: get_wf set_wf delete_wf)
qed

text \<open>A live entry is a value some call wrote under its key, whatever calls were made.\<close>

lemma run_ops_written:
  assumes "wf s" and "\<And>t. view s t = (\<lambda>_. None)"
    and "\<forall>op \<in> set ops. op_time op \<le> t" and "view (run_ops store s ops) t k = Some v"
  shows "\<exists>u ttl. OpSet u k v ttl \<in> set ops \<and> \<not> expired (life u ttl) t"
  using assms
proof (induction ops arbitrary: v rule: rev_induct)
  case Nil
  then show ?case by simp
next
  case (snoc op ops)
  let ?s = "run_ops store s ops"
  have wf: "wf ?s"
    using snoc.prems(1) by (rule run_ops_wf)
  have time: "op_time op \<le> t"
    using snoc.prems(3) by simp
  have IH: "\<exists>u ttl. OpSet u k v ttl \<in> set (ops @ [op]) \<and> \<not> expired (life u ttl) t"
    if "view ?s t k = Some v"
    using snoc.IH snoc.prems that by fastforce
  show ?case
  proof (cases op)
    case (OpGet u j)
    with map_le_SomeD [OF get_view [OF wf, of u t j]] time snoc.prems(4) IH show ?thesis by simp
  next
    case (OpSet u j w ttl)
    show ?thesis
    proof (cases "k = j")
      case True
      with OpSet set_same [OF wf, of u t j w ttl v] time snoc.prems(4) IH show ?thesis by auto
    next
      case False
      with OpSet set_other [OF wf, of u t k j w ttl v] time snoc.prems(4) IH show ?thesis by simp
    qed
  next
    case (OpDelete u j)
    with map_le_SomeD [OF delete_view [OF wf, of u t j]] time snoc.prems(4) IH show ?thesis by simp
  qed
qed

lemma lookup_was_written:
  assumes "wf s" and "\<And>t. view s t = (\<lambda>_. None)"
    and "\<forall>op \<in> set ops. op_time op \<le> t"
    and "fst (st_Get store (run_ops store s ops) t k) = Some v"
  shows "\<exists>u ttl. OpSet u k v ttl \<in> set ops \<and> \<not> expired (life u ttl) t"
  using assms run_ops_written get_sound run_ops_wf by blast

end

text \<open>
  In a \<open>lossy_store\<close> entries may vanish, but a write or a delete always takes the old value away.
\<close>

locale lossy_store = written_store +
  assumes set_fresh: "wf s \<Longrightarrow> t \<le> t' \<Longrightarrow> view (st_Set store s t k v ttl) t' k = Some v' \<Longrightarrow>
          v' = v \<and> \<not> expired (life t ttl) t'"
    and delete_gone: "wf s \<Longrightarrow> t \<le> t' \<Longrightarrow> view (st_Delete store s t k) t' k = None"
begin

lemma get_after_set:
  assumes "wf s" and "t \<le> t'" and "fst (st_Get store (st_Set store s t k v ttl) t' k) = Some v'"
  shows "v' = v \<and> \<not> expired (life t ttl) t'"
  using assms set_wf get_sound set_fresh by blast

lemma get_after_set_other:
  assumes "wf s" and "t \<le> t'" and "k' \<noteq> k"
    and "fst (st_Get store (st_Set store s t k v ttl) t' k') = Some v'"
  shows "view s t' k' = Some v'"
  using assms set_wf get_sound set_other by blast

lemma get_after_delete:
  assumes "wf s" and "t \<le> t'"
  shows "fst (st_Get store (st_Delete store s t k) t' k) = None"
  using get_sound [OF delete_wf [OF assms(1)]] delete_gone [OF assms]
  by (metis not_None_eq option.distinct(1))

text \<open>A live entry is the last value written, whatever calls were made.\<close>

lemma run_ops_view:
  assumes "wf s" and "\<And>t. view s t = (\<lambda>_. None)"
    and "\<forall>op \<in> set ops. op_time op \<le> t" and "view (run_ops store s ops) t k = Some v"
  shows "\<exists>x. last_write life ops k = Some (v, x) \<and> \<not> expired x t"
  using assms
proof (induction ops arbitrary: v rule: rev_induct)
  case Nil
  then show ?case by simp
next
  case (snoc op ops)
  let ?s = "run_ops store s ops"
  have wf: "wf ?s"
    using snoc.prems(1) by (rule run_ops_wf)
  have time: "op_time op \<le> t"
    using snoc.prems(3) by simp
  have IH: "\<exists>x. last_write life ops k = Some (v, x) \<and> \<not> expired x t" if "view ?s t k = Some v"
    using snoc.IH snoc.prems that by simp
  show ?case
  proof (cases op)
    case (OpGet u j)
    then have "view ?s t k = Some v"
      using map_le_SomeD [OF get_view [OF wf, of u t j]] time snoc.prems(4) by simp
    with IH OpGet show ?thesis by simp
  next
    case (OpSet u j w ttl)
    show ?thesis
    proof (cases "k = j")
      case True
      with OpSet set_fresh [OF wf, of u t j w ttl v] time snoc.prems(4) show ?thesis by simp
    next
      case False
      with OpSet set_other [OF wf, of u t k j w ttl v] time snoc.prems(4) IH show ?thesis by simp
    qed
  next
    case (OpDelete u j)
    moreover from this have "k \<noteq> j"
      using delete_gone [OF wf, of u t j] time snoc.prems(4) by auto
    moreover have "view ?s t k = Some v"
      using OpDelete map_le_SomeD [OF delete_view [OF wf, of u t j], of k v] time snoc.prems(4)
      by simp
    ultimately show ?thesis using IH by simp
  qed
qed

lemma lookup_is_last_write:
  assumes "wf s" and "\<And>t. view s t = (\<lambda>_. None)"
    and "\<forall>op \<in> set ops. op_time op \<le> t"
    and "fst (st_Get store (run_ops store s ops) t k) = Some v"
  shows "\<exists>x. last_write life ops k = Some (v, x) \<and> \<not> expired x t"
  using assms run_ops_view get_sound run_ops_wf by blast

end

text \<open>A \<open>kv_store\<close> does not lose what was just written.\<close>

locale kv_store = lossy_store +
  assumes get_complete: "wf s \<Longrightarrow> view s t k = Some v \<Longrightarrow> fst (st_Get store s t k) = Some v"
    and set_stored: "wf s \<Longrightarrow> t \<le> t' \<Longrightarrow> \<not> expired (life t ttl) t' \<Longrightarrow>
          view (st_Set store s t k v ttl) t' k = Some v"
begin

lemma get_eq_view: "wf s \<Longrightarrow> fst (st_Get store s t k) = view s t k"
  using get_sound get_complete by (metis not_None_eq)

lemma get_set_same:
  assumes "wf s" and "t \<le> t'"
  shows "fst (st_Get store (st_Set store s t k v ttl) t' k) =
           (if expired (life t ttl) t' then None else Some v)"
  using assms set_wf set_stored get_eq_view set_fresh
  by (metis not_None_eq)

end

end
