(* ===== verification/Metrics.thy ===== *)
theory Metrics
  imports Prelude
begin

text \<open>
  The metrics of internal/metrics/metrics.go: their descriptors, their registration and the
  normalisation of labels.  The counters themselves are kept by the client library; the model records
  which label values are incremented and what is observed.
\<close>

section \<open>Descriptors\<close>

text \<open>\<open>'b\<close> is the type of the bucket bounds, which the client library provides.\<close>

datatype 'b collector =
    CounterVec (cl_Name: string) (cl_Help: string) (cl_Labels: "string list")
  | HistogramVec (cl_Name: string) (cl_Help: string) (cl_Buckets: 'b) (cl_Labels: "string list")

definition RequestsTotal :: "'b collector" where
  "RequestsTotal =
     CounterVec ''aegis_rpc_requests_total''
       ''Total number of RPC requests partitioned by JSON-RPC method and result status.''
       [''method'', ''status'']"

definition RequestDuration :: "'b \<Rightarrow> 'b collector" where
  "RequestDuration DefBuckets =
     HistogramVec ''aegis_rpc_request_duration_seconds''
       ''End-to-end request latency in seconds, partitioned by JSON-RPC method.'' DefBuckets
       [''method'']"

definition CacheRequests :: "'b collector" where
  "CacheRequests =
     CounterVec ''aegis_cache_requests_total''
       ''Total number of cache lookups partitioned by result (hit, miss, neg_hit).'' [''result'']"

section \<open>Labels\<close>

definition knownMethods :: "string list" where
  "knownMethods =
     [''eth_blockNumber'', ''eth_chainId'', ''eth_call'', ''eth_createAccessList'',
      ''eth_estimateGas'', ''eth_feeHistory'', ''eth_gasPrice'', ''eth_getBalance'',
      ''eth_getBlockByHash'', ''eth_getBlockByNumber'', ''eth_getBlockTransactionCountByHash'',
      ''eth_getBlockTransactionCountByNumber'', ''eth_getCode'', ''eth_getLogs'', ''eth_getProof'',
      ''eth_getStorageAt'', ''eth_getTransactionByHash'', ''eth_getTransactionCount'',
      ''eth_getTransactionReceipt'', ''eth_getUncleByBlockHashAndIndex'',
      ''eth_getUncleByBlockNumberAndIndex'', ''eth_maxPriorityFeePerGas'',
      ''eth_sendRawTransaction'', ''eth_subscribe'', ''eth_unsubscribe'', ''eth_syncing'',
      ''eth_newFilter'', ''eth_newBlockFilter'', ''eth_newPendingTransactionFilter'',
      ''eth_getFilterChanges'', ''eth_getFilterLogs'', ''eth_uninstallFilter'',
      ''net_version'', ''net_listening'', ''net_peerCount'', ''web3_clientVersion'', ''web3_sha3'',
      ''debug_traceTransaction'', ''debug_traceCall'', ''debug_traceBlock'',
      ''debug_traceBlockByHash'', ''debug_traceBlockByNumber'', ''trace_block'',
      ''trace_transaction'', ''trace_call'', ''trace_callMany'', ''trace_filter'', ''trace_get'',
      ''unknown'', ''batch'']"

definition NormalizeMethod :: "string \<Rightarrow> string" where
  "NormalizeMethod m = (if m \<in> set knownMethods then m else ''other'')"

lemma NormalizeMethod_known: "NormalizeMethod m \<in> set (''other'' # knownMethods)"
  by (simp add: NormalizeMethod_def)

section \<open>Registration\<close>

text \<open>\<open>register\<close> is the registry's; \<open>None\<close> is its error, on which \<open>MustRegister\<close> panics.\<close>

fun MustRegister :: "('r \<Rightarrow> 'b collector \<Rightarrow> 'r option) \<Rightarrow> 'b collector list \<Rightarrow> 'r \<Rightarrow> 'r option" where
  "MustRegister register [] r = Some r"
| "MustRegister register (c # cs) r =
     (case register r c of None \<Rightarrow> None | Some r' \<Rightarrow> MustRegister register cs r')"

definition metrics_init :: "('r \<Rightarrow> 'b collector \<Rightarrow> 'r option) \<Rightarrow> 'b \<Rightarrow> 'r \<Rightarrow> 'r option" where
  "metrics_init register DefBuckets r =
     MustRegister register [RequestsTotal, RequestDuration DefBuckets, CacheRequests] r"

text \<open>A registry that turns down only names it has starts the program, once.\<close>

lemma metrics_init_once:
  assumes "\<And>r c. register r c = (if cl_Name c \<in> set r then None else Some (cl_Name c # r))"
  shows "metrics_init register B [] =
           Some [''aegis_cache_requests_total'', ''aegis_rpc_request_duration_seconds'', ''aegis_rpc_requests_total'']"
    and "metrics_init register B r = Some r' \<Longrightarrow> metrics_init register B r' = None"
  by (auto simp: metrics_init_def assms RequestsTotal_def RequestDuration_def CacheRequests_def split: if_splits)

end
