(* ===== verification/Handler.thy ===== *)
theory Handler
  imports Router Models Finality Store Metrics
begin

text \<open>
  The caching reverse proxy (internal/proxy/handler.go).  The handler shares the pool, the cache
  store, the finality checker and the metrics with every other request; these and the outside
  world make up its state.  What lies outside the program is a parameter: \<open>nt_send\<close> is what
  \<open>httputil.ReverseProxy\<close> brings back from a node, \<open>nt_now\<close> reads the clock, and the singleflight
  group of golang.org/x/sync is a function that says when a call joins one in flight.
\<close>

section \<open>HTTP\<close>

text \<open>A header maps a canonical name to its values; an absent name has none.\<close>

type_synonym header = "string \<Rightarrow> string list"

definition no_header :: header where
  "no_header = (\<lambda>_. [])"

definition header_Get :: "header \<Rightarrow> string \<Rightarrow> string" where
  "header_Get h k = (case h k of [] \<Rightarrow> [] | v # _ \<Rightarrow> v)"

record response =
  rp_status :: int
  rp_header :: header
  rp_body :: bytes

text \<open>\<open>http.Error\<close> on a response whose header is \<open>h\<close> so far.\<close>

definition http_Error :: "header \<Rightarrow> string \<Rightarrow> int \<Rightarrow> response" where
  "http_Error h msg code =
     \<lparr>rp_status = code,
      rp_header = h(''Content-Type'' := [''text/plain; charset=utf-8''],
                    ''X-Content-Type-Options'' := [''nosniff''], ''Content-Length'' := []),
      rp_body = msg @ [CHR 0x0A]\<rparr>"

definition json_header :: header where
  "json_header = no_header(''Content-Type'' := [''application/json''])"

definition json_response :: "bytes \<Rightarrow> response" where
  "json_response b = \<lparr>rp_status = 200, rp_header = json_header, rp_body = b\<rparr>"

text \<open>A request of a client; \<open>cq_broken\<close> says that its body cannot be read to the end.\<close>

record client_req =
  cq_Method :: string
  cq_URL :: URL
  cq_Host :: string
  cq_Header :: header
  cq_Body :: bytes
  cq_broken :: bool

text \<open>\<open>io.ReadAll\<close> on the body behind \<open>http.MaxBytesReader\<close> with a limit of 1 MiB.\<close>

definition read_body :: "client_req \<Rightarrow> bytes option" where
  "read_body r =
     (if cq_broken r \<or> 1 * 1024 * 1024 < int (length (cq_Body r)) then None else Some (cq_Body r))"

text \<open>
  What becomes of a proxied request: the round trip fails, the node answers in full, or it answers
  and breaks off within the body.
\<close>

datatype transport =
    RoundTripError
  | Reply int header bytes
  | BrokenReply int header bytes

text \<open>
  What the reverse proxy leaves in a \<open>bufResponseWriter\<close> (status, header, body): status 502 after
  a failed round trip.  When copying the body fails it panics with \<open>http.ErrAbortHandler\<close>.
\<close>

record bufResponseWriter =
  bf_header :: header
  bf_status :: int
  bf_body :: bytes

definition reverse_proxy :: "transport \<Rightarrow> bufResponseWriter option" where
  "reverse_proxy t =
     (case t of
        RoundTripError \<Rightarrow> Some \<lparr>bf_header = no_header, bf_status = 502, bf_body = []\<rparr>
      | Reply st hdr b \<Rightarrow> Some \<lparr>bf_header = hdr, bf_status = st, bf_body = b\<rparr>
      | BrokenReply st hdr b \<Rightarrow> None)"

section \<open>State\<close>

record 'w Net =
  nt_send :: "'w \<Rightarrow> client_req \<Rightarrow> transport \<times> 'w"
  nt_now :: "'w \<Rightarrow> instant"

record ('s, 'w) Handler =
  h_cache :: "'s Store"
  h_mutableTTL :: duration
  h_net :: "'w Net"

record ('s, 'w) hstate =
  hs_pool :: Pool
  hs_store :: 's
  hs_finality :: FinalityChecker
  hs_world :: 'w
  hs_requests :: "(string \<times> string) list"
  hs_durations :: "(string \<times> duration) list"
  hs_lookups :: "string list"

text \<open>The \<open>Director\<close>: the outgoing request is the client's, with scheme and host of the node.\<close>

definition Director :: "Upstream \<Rightarrow> client_req \<Rightarrow> client_req" where
  "Director node r =
     r\<lparr>cq_URL := (cq_URL r)\<lparr>u_Scheme := u_Scheme (n_URL node), u_Host := u_Host (n_URL node)\<rparr>,
       cq_Host := u_Host (n_URL node)\<rparr>"

definition outReq :: "Upstream \<Rightarrow> client_req \<Rightarrow> bytes \<Rightarrow> client_req" where
  "outReq node r body = Director node (r\<lparr>cq_Body := body, cq_broken := False\<rparr>)"

definition send_to :: "('s, 'w) Handler \<Rightarrow> Upstream \<Rightarrow> client_req \<Rightarrow> bytes \<Rightarrow> ('s, 'w) hstate \<Rightarrow>
    bufResponseWriter option \<times> ('s, 'w) hstate" where
  "send_to H node r body s =
     (let (t, w') = nt_send (h_net H) (hs_world s) (outReq node r body)
      in (reverse_proxy t, s\<lparr>hs_world := w'\<rparr>))"

definition now :: "('s, 'w) Handler \<Rightarrow> ('s, 'w) hstate \<Rightarrow> instant" where
  "now H s = nt_now (h_net H) (hs_world s)"

definition cache_Get :: "('s, 'w) Handler \<Rightarrow> string \<Rightarrow> ('s, 'w) hstate \<Rightarrow>
    bytes option \<times> ('s, 'w) hstate" where
  "cache_Get H k s =
     (let (v, st) = st_Get (h_cache H) (hs_store s) (now H s) k in (v, s\<lparr>hs_store := st\<rparr>))"

definition cache_Set :: "('s, 'w) Handler \<Rightarrow> string \<Rightarrow> bytes \<Rightarrow> duration \<Rightarrow> ('s, 'w) hstate \<Rightarrow>
    ('s, 'w) hstate" where
  "cache_Set H k v ttl s = s\<lparr>hs_store := st_Set (h_cache H) (hs_store s) (now H s) k v ttl\<rparr>"

section \<open>Envelopes\<close>

definition buildResultEnvelope :: "bytes \<Rightarrow> bytes \<Rightarrow> bytes option" where
  "buildResultEnvelope i result =
     Marshal_RPCResponse \<lparr>rs_JSONRPC = ''2.0'', rs_Result = result, rs_Error = None, rs_ID = i\<rparr>"

definition buildErrorEnvelope :: "bytes \<Rightarrow> RPCError \<Rightarrow> bytes option" where
  "buildErrorEnvelope i e =
     Marshal_RPCResponse \<lparr>rs_JSONRPC = ''2.0'', rs_Result = [], rs_Error = Some e, rs_ID = i\<rparr>"

fun isBatch :: "bytes \<Rightarrow> bool" where
  "isBatch [] = False"
| "isBatch (b # bs) =
     (if b = CHR '' '' \<or> b = CHR 0x09 \<or> b = CHR 0x0A \<or> b = CHR 0x0D then isBatch bs
      else b = CHR ''['')"

section \<open>Talking to the nodes\<close>

abbreviation ok_status :: "int \<Rightarrow> bool" where
  "ok_status st \<equiv> 200 \<le> st \<and> st < 300"

datatype fetched =
    FetchBody bytes
  | FetchRateLimited string
  | FetchNone
  | FetchPanic

fun fetch_loop :: "('s, 'w) Handler \<Rightarrow> nat \<Rightarrow> client_req \<Rightarrow> bytes \<Rightarrow> string \<Rightarrow> ('s, 'w) hstate \<Rightarrow>
    fetched \<times> ('s, 'w) hstate" where
  "fetch_loop H 0 r body m s = (FetchNone, s)"
| "fetch_loop H (Suc k) r body m s =
     (let (res, p') = Route (hs_pool s) m; s1 = s\<lparr>hs_pool := p'\<rparr> in
      case res of
        Inl _ \<Rightarrow> (FetchNone, s1)
      | Inr i \<Rightarrow>
          (let (buf, s2) = send_to H (p_nodes p' ! i) r body s1 in
           case buf of
             None \<Rightarrow> (FetchPanic, s2)
           | Some b \<Rightarrow>
               if bf_status b = 429
               then (FetchRateLimited (header_Get (bf_header b) ''Retry-After''), s2)
               else if bf_status b < 200 \<or> 300 \<le> bf_status b then fetch_loop H k r body m s2
               else (FetchBody (bf_body b), s2)))"

definition fetchFromUpstream :: "('s, 'w) Handler \<Rightarrow> client_req \<Rightarrow> bytes \<Rightarrow> string \<Rightarrow>
    ('s, 'w) hstate \<Rightarrow> fetched \<times> ('s, 'w) hstate" where
  "fetchFromUpstream H r body m s = fetch_loop H (length (p_nodes (hs_pool s))) r body m s"

text \<open>
  The direct path writes the node's answer to the client.  \<open>None\<close> is a panic; the flag says whether
  an error was returned.
\<close>

fun direct_loop :: "('s, 'w) Handler \<Rightarrow> nat \<Rightarrow> client_req \<Rightarrow> bytes \<Rightarrow> string \<Rightarrow> ('s, 'w) hstate \<Rightarrow>
    (response \<times> bool) option \<times> ('s, 'w) hstate" where
  "direct_loop H 0 r body m s =
     (Some (http_Error no_header ''no healthy upstream available'' 502, True), s)"
| "direct_loop H (Suc k) r body m s =
     (let (res, p') = Route (hs_pool s) m; s1 = s\<lparr>hs_pool := p'\<rparr> in
      case res of
        Inl _ \<Rightarrow> (Some (http_Error no_header ''no healthy upstream available'' 502, True), s1)
      | Inr i \<Rightarrow>
          (let (buf, s2) = send_to H (p_nodes p' ! i) r body s1 in
           case buf of
             None \<Rightarrow> (None, s2)
           | Some b \<Rightarrow>
               if bf_status b < 200 \<or> 300 \<le> bf_status b then direct_loop H k r body m s2
               else
                 (Some (\<lparr>rp_status = bf_status b, rp_header = bf_header b, rp_body = bf_body b\<rparr>,
                        False), s2)))"

definition proxyDirect :: "('s, 'w) Handler \<Rightarrow> client_req \<Rightarrow> bytes \<Rightarrow> string \<Rightarrow>
    ('s, 'w) hstate \<Rightarrow> (response \<times> bool) option \<times> ('s, 'w) hstate" where
  "proxyDirect H r body m s = direct_loop H (length (p_nodes (hs_pool s))) r body m s"

section \<open>The flight\<close>

definition negSentinel :: bytes where
  "negSentinel = [CHR 0x01]"

definition neg_key :: "string \<Rightarrow> string" where
  "neg_key key = ''neg::'' @ key"

text \<open>A nil slice is the empty byte string; a body the reverse proxy wrote nothing into is nil.\<close>

record sfRet =
  sf_result :: bytes
  sf_rpcError :: "RPCError option"
  sf_rawBody :: bytes

definition raw_ret :: "bytes \<Rightarrow> sfRet" where
  "raw_ret b = \<lparr>sf_result = [], sf_rpcError = None, sf_rawBody = b\<rparr>"

datatype flown =
    FlightOk sfRet
  | FlightLimited string
  | FlightFailed
  | FlightPanic

definition flight :: "('s, 'w) Handler \<Rightarrow> client_req \<Rightarrow> bytes \<Rightarrow> string \<Rightarrow> Layer \<Rightarrow> string \<Rightarrow>
    ('s, 'w) hstate \<Rightarrow> flown \<times> ('s, 'w) hstate" where
  "flight H r body m layer key s =
     (let (res, s1) = fetchFromUpstream H r body m s in
      case res of
        FetchPanic \<Rightarrow> (FlightPanic, s1)
      | FetchRateLimited ra \<Rightarrow> (FlightLimited ra, s1)
      | FetchNone \<Rightarrow> (FlightFailed, cache_Set H (neg_key key) negSentinel (1 * Second) s1)
      | FetchBody rawResp \<Rightarrow>
          (case Unmarshal_RPCResponse rawResp of
             None \<Rightarrow> (FlightOk (raw_ret rawResp), s1)
           | Some parsed \<Rightarrow>
               (case rs_Error parsed of
                  Some e \<Rightarrow>
                    (FlightOk \<lparr>sf_result = [], sf_rpcError = Some e, sf_rawBody = []\<rparr>, s1)
                | None \<Rightarrow>
                    if rs_Result parsed = [] then (FlightOk (raw_ret rawResp), s1)
                    else
                      (let ttl = (if layer = LayerMutable then h_mutableTTL H else 0) in
                       (FlightOk \<lparr>sf_result = rs_Result parsed, sf_rpcError = None,
                                  sf_rawBody = []\<rparr>,
                        cache_Set H key (rs_Result parsed) ttl s1)))))"

text \<open>
  \<open>singleflight.Group.Do\<close>: if a call with the key is in flight, its result is awaited (\<open>s'\<close> is the
  state by then), otherwise the function is run.
\<close>

type_synonym ('s, 'w) group = "('s, 'w) hstate \<Rightarrow> string \<Rightarrow> (flown \<times> ('s, 'w) hstate) option"

definition Do :: "('s, 'w) group \<Rightarrow> string \<Rightarrow> (('s, 'w) hstate \<Rightarrow> flown \<times> ('s, 'w) hstate) \<Rightarrow>
    ('s, 'w) hstate \<Rightarrow> flown \<times> ('s, 'w) hstate" where
  "Do g key fn s = (case g s key of None \<Rightarrow> fn s | Some (res, s') \<Rightarrow> (res, s'))"

section \<open>Serving a request\<close>

text \<open>
  What a client gets, and the status label: \<open>None\<close> when the handler panicked, so that the connection
  is closed.
\<close>

definition internal_error :: response where
  "internal_error = http_Error json_header ''internal error'' 500"

definition finish :: "bytes \<Rightarrow> flown \<Rightarrow> response option \<times> string" where
  "finish i res =
     (case res of
        FlightPanic \<Rightarrow> (None, ''ok'')
      | FlightLimited ra \<Rightarrow>
          (Some (http_Error (if ra \<noteq> [] then no_header(''Retry-After'' := [ra]) else no_header)
                   ''rate limited'' 429), ''rate_limited'')
      | FlightFailed \<Rightarrow> (Some (http_Error no_header ''upstream error'' 502), ''error'')
      | FlightOk ret \<Rightarrow>
          if sf_rawBody ret \<noteq> [] then (Some (json_response (sf_rawBody ret)), ''ok'')
          else
            (case (case sf_rpcError ret of
                     Some e \<Rightarrow> buildErrorEnvelope i e
                   | None \<Rightarrow> buildResultEnvelope i (sf_result ret)) of
               None \<Rightarrow> (Some internal_error, ''error'')
             | Some envelope \<Rightarrow> (Some (json_response envelope), ''ok'')))"

definition direct :: "('s, 'w) Handler \<Rightarrow> client_req \<Rightarrow> bytes \<Rightarrow> string \<Rightarrow> ('s, 'w) hstate \<Rightarrow>
    (response option \<times> string) \<times> ('s, 'w) hstate" where
  "direct H r body m s =
     (case proxyDirect H r body m s of
        (None, s1) \<Rightarrow> ((None, ''uncacheable''), s1)
      | (Some (resp, err), s1) \<Rightarrow> ((Some resp, if err then ''error'' else ''uncacheable''), s1))"

definition note_lookup :: "string \<Rightarrow> ('s, 'w) hstate \<Rightarrow> ('s, 'w) hstate" where
  "note_lookup l s = s\<lparr>hs_lookups := hs_lookups s @ [l]\<rparr>"

definition serve_cacheable :: "('s, 'w) Handler \<Rightarrow> ('s, 'w) group \<Rightarrow> client_req \<Rightarrow> bytes \<Rightarrow>
    RPCRequest \<Rightarrow> Layer \<Rightarrow> ('s, 'w) hstate \<Rightarrow> (response option \<times> string) \<times> ('s, 'w) hstate" where
  "serve_cacheable H g r body req layer s =
     (let key = CacheKey (rq_Method req) (rq_Params req);
          (neg, s1) = cache_Get H (neg_key key) s in
      case neg of
        Some _ \<Rightarrow>
          ((Some (http_Error no_header ''upstream error'' 502), ''neg_hit''), note_lookup ''neg_hit'' s1)
      | None \<Rightarrow>
          (let (hit, s2) = cache_Get H key s1 in
           case hit of
             Some cachedResult \<Rightarrow>
               (case buildResultEnvelope (rq_ID req) cachedResult of
                  None \<Rightarrow>
                    ((Some (http_Error no_header ''internal error'' 500), ''error''), note_lookup ''hit'' s2)
                | Some envelope \<Rightarrow>
                    ((Some (json_response envelope), ''cache_hit''), note_lookup ''hit'' s2))
           | None \<Rightarrow>
               (let (res, s3) =
                  Do g key (flight H r body (rq_Method req) layer key) (note_lookup ''miss'' s2)
                in (finish (rq_ID req) res, s3))))"

text \<open>The handler without the deferred metrics; the first component is the method label.\<close>

definition serve :: "('s, 'w) Handler \<Rightarrow> ('s, 'w) group \<Rightarrow> client_req \<Rightarrow> ('s, 'w) hstate \<Rightarrow>
    string \<times> (response option \<times> string) \<times> ('s, 'w) hstate" where
  "serve H g r s =
     (case read_body r of
        None \<Rightarrow> (''unknown'', (Some (http_Error no_header ''request too large'' 413), ''error''), s)
      | Some body \<Rightarrow>
          if isBatch body then (''batch'', direct H r body ''batch'' s)
          else
            (case Unmarshal_RPCRequest body of
               None \<Rightarrow>
                 (''unknown'',
                  (Some (http_Error no_header ''invalid JSON-RPC request'' 400), ''error''), s)
             | Some req \<Rightarrow>
                 (let layer = fc_Classify (hs_finality s) (rq_Method req) (rq_Params req) in
                  (rq_Method req,
                   if layer = LayerUncacheable then direct H r body (rq_Method req) s
                   else serve_cacheable H g r body req layer s))))"

definition ServeHTTP :: "('s, 'w) Handler \<Rightarrow> ('s, 'w) group \<Rightarrow> client_req \<Rightarrow> ('s, 'w) hstate \<Rightarrow>
    response option \<times> ('s, 'w) hstate" where
  "ServeHTTP H g r s =
     (let start = now H s;
          (method, (resp, status), s1) = serve H g r s;
          labelMethod = NormalizeMethod method
      in (resp, s1\<lparr>hs_requests := hs_requests s1 @ [(labelMethod, status)],
                  hs_durations := hs_durations s1 @ [(labelMethod, now H s1 - start)]\<rparr>))"

section \<open>What the loops leave alone\<close>

lemma send_to_world: "snd (send_to H node r body s) =
    s\<lparr>hs_world := snd (nt_send (h_net H) (hs_world s) (outReq node r body))\<rparr>"
  by (simp add: send_to_def split: prod.splits)

lemma send_to_buf: "fst (send_to H node r body s) =
    reverse_proxy (fst (nt_send (h_net H) (hs_world s) (outReq node r body)))"
  by (simp add: send_to_def split: prod.splits)

text \<open>One iteration of either loop, as far as the state is concerned.\<close>

definition attempt :: "('s, 'w) Handler \<Rightarrow> nat \<Rightarrow> client_req \<Rightarrow> bytes \<Rightarrow> ('s, 'w) hstate \<Rightarrow>
    ('s, 'w) hstate" where
  "attempt H i r body s = snd (send_to H (p_nodes (hs_pool s) ! i) r body (s\<lparr>hs_pool := bump (hs_pool s)\<rparr>))"

definition attempt_buf :: "('s, 'w) Handler \<Rightarrow> nat \<Rightarrow> client_req \<Rightarrow> bytes \<Rightarrow> ('s, 'w) hstate \<Rightarrow>
    bufResponseWriter option" where
  "attempt_buf H i r body s = fst (send_to H (p_nodes (hs_pool s) ! i) r body (s\<lparr>hs_pool := bump (hs_pool s)\<rparr>))"

lemma Route_pick: "Route p m =
    (case route_pick m p of None \<Rightarrow> (Inl (MethodCapability m), bump p) | Some i \<Rightarrow> (Inr i, bump p))"
  by (rule prod_eqI) (simp_all add: fst_Route route_pick_eq split: option.splits)

lemma fetch_loop_Suc:
  "fetch_loop H (Suc k) r body m s =
     (case route_pick m (hs_pool s) of
        None \<Rightarrow> (FetchNone, s\<lparr>hs_pool := bump (hs_pool s)\<rparr>)
      | Some i \<Rightarrow>
          (case attempt_buf H i r body s of
             None \<Rightarrow> (FetchPanic, attempt H i r body s)
           | Some b \<Rightarrow>
               if bf_status b = 429
               then (FetchRateLimited (header_Get (bf_header b) ''Retry-After''), attempt H i r body s)
               else if bf_status b < 200 \<or> 300 \<le> bf_status b
               then fetch_loop H k r body m (attempt H i r body s)
               else (FetchBody (bf_body b), attempt H i r body s)))"
  by (auto simp: Route_pick Let_def attempt_buf_def attempt_def split: option.splits prod.splits)

lemma direct_loop_Suc:
  "direct_loop H (Suc k) r body m s =
     (case route_pick m (hs_pool s) of
        None \<Rightarrow>
          (Some (http_Error no_header ''no healthy upstream available'' 502, True),
           s\<lparr>hs_pool := bump (hs_pool s)\<rparr>)
      | Some i \<Rightarrow>
          (case attempt_buf H i r body s of
             None \<Rightarrow> (None, attempt H i r body s)
           | Some b \<Rightarrow>
               if bf_status b < 200 \<or> 300 \<le> bf_status b
               then direct_loop H k r body m (attempt H i r body s)
               else
                 (Some (\<lparr>rp_status = bf_status b, rp_header = bf_header b, rp_body = bf_body b\<rparr>,
                        False), attempt H i r body s)))"
  by (auto simp: Route_pick Let_def attempt_buf_def attempt_def split: option.splits prod.splits)

declare fetch_loop.simps(2) [simp del] direct_loop.simps(2) [simp del]

lemma attempt_sel [go_state, simp]:
  "hs_pool (attempt H i r body s) = bump (hs_pool s)"
  "hs_store (attempt H i r body s) = hs_store s"
  "hs_finality (attempt H i r body s) = hs_finality s"
  "hs_requests (attempt H i r body s) = hs_requests s"
  "hs_durations (attempt H i r body s) = hs_durations s"
  "hs_lookups (attempt H i r body s) = hs_lookups s"
  "hs_world (attempt H i r body s) =
     snd (nt_send (h_net H) (hs_world s) (outReq (p_nodes (hs_pool s) ! i) r body))"
  by (simp_all add: attempt_def send_to_world)

lemma attempt_buf_eq: "attempt_buf H i r body s =
    reverse_proxy (fst (nt_send (h_net H) (hs_world s) (outReq (p_nodes (hs_pool s) ! i) r body)))"
  by (simp add: attempt_buf_def send_to_buf)

text \<open>Everything but the round-robin counter and the world.\<close>

definition same_but_net :: "('s, 'w) hstate \<Rightarrow> ('s, 'w) hstate \<Rightarrow> bool" where
  "same_but_net s s' \<longleftrightarrow>
     hs_store s' = hs_store s \<and> hs_finality s' = hs_finality s \<and>
     hs_requests s' = hs_requests s \<and> hs_durations s' = hs_durations s \<and> hs_lookups s' = hs_lookups s \<and>
     p_nodes (hs_pool s') = p_nodes (hs_pool s)"

lemma same_but_net_refl [simp]: "same_but_net s s"
  by (simp add: same_but_net_def)

lemma same_but_net_attempt: "same_but_net (attempt H i r body s) s' \<Longrightarrow> same_but_net s s'"
  by (simp add: same_but_net_def)

lemma same_but_net_now [simp]:
  "same_but_net s (attempt H i r body s)" "same_but_net s (s\<lparr>hs_pool := bump (hs_pool s)\<rparr>)"
  by (simp_all add: same_but_net_def)

lemma fetch_loop_frame: "same_but_net s (snd (fetch_loop H k r body m s))"
  by (induction k arbitrary: s)
    (auto simp: fetch_loop_Suc split: option.splits intro: same_but_net_attempt)

lemma direct_loop_frame: "same_but_net s (snd (direct_loop H k r body m s))"
  by (induction k arbitrary: s)
    (auto simp: direct_loop_Suc split: option.splits intro: same_but_net_attempt)

text \<open>A clock that does not go back while a request is on its way.\<close>

definition clock_mono :: "'w Net \<Rightarrow> bool" where
  "clock_mono N \<longleftrightarrow> (\<forall>w q. nt_now N w \<le> nt_now N (snd (nt_send N w q)))"

lemma now_attempt: "clock_mono (h_net H) \<Longrightarrow> now H s \<le> now H (attempt H i r body s)"
  by (simp add: now_def clock_mono_def)

lemma now_bump [simp]: "now H (s\<lparr>hs_pool := p\<rparr>) = now H s"
  by (simp add: now_def)

lemma fetch_loop_now: "clock_mono (h_net H) \<Longrightarrow> now H s \<le> now H (snd (fetch_loop H k r body m s))"
  by (induction k arbitrary: s)
    (auto simp: fetch_loop_Suc now_attempt split: option.splits intro: order_trans [OF now_attempt])

lemma direct_loop_now: "clock_mono (h_net H) \<Longrightarrow> now H s \<le> now H (snd (direct_loop H k r body m s))"
  by (induction k arbitrary: s)
    (auto simp: direct_loop_Suc now_attempt split: option.splits intro: order_trans [OF now_attempt])

section \<open>Answers come from nodes, and every node is tried\<close>

text \<open>Some request with this body was once answered with a successful status and body \<open>b\<close>.\<close>

definition answers :: "'w Net \<Rightarrow> bytes \<Rightarrow> bytes \<Rightarrow> bool" where
  "answers N body b \<longleftrightarrow>
     (\<exists>w q st hdr. cq_Body q = body \<and> fst (nt_send N w q) = Reply st hdr b \<and> ok_status st)"

lemma reverse_proxy_ok:
  assumes "reverse_proxy t = Some b" and "ok_status (bf_status b)"
  shows "t = Reply (bf_status b) (bf_header b) (bf_body b)"
  using assms by (auto simp: reverse_proxy_def split: transport.splits)

lemma cq_Body_outReq [simp]: "cq_Body (outReq node r body) = body"
  by (simp add: outReq_def Director_def)

lemma attempt_answers:
  assumes "attempt_buf H i r body s = Some b" and "ok_status (bf_status b)"
  shows "answers (h_net H) body (bf_body b)"
  using assms reverse_proxy_ok cq_Body_outReq unfolding attempt_buf_eq answers_def by blast

lemma fetch_loop_answers:
  "fst (fetch_loop H k r body m s) = FetchBody b \<Longrightarrow> answers (h_net H) body b"
  by (induction k arbitrary: s)
    (auto simp: fetch_loop_Suc split: option.splits if_splits intro: attempt_answers)

text \<open>The node \<open>i\<close> was sent the request and did not answer with success.\<close>

definition refused :: "('s, 'w) Handler \<Rightarrow> Upstream \<Rightarrow> client_req \<Rightarrow> bytes \<Rightarrow> bool" where
  "refused H node r body \<longleftrightarrow>
     (\<exists>w b. reverse_proxy (fst (nt_send (h_net H) w (outReq node r body))) = Some b \<and>
        \<not> ok_status (bf_status b))"

abbreviation picks :: "string \<Rightarrow> nat \<Rightarrow> Pool \<Rightarrow> nat list" where
  "picks m k p \<equiv> node_source.picks (route_pick m) bump k p"

lemma fetch_loop_refused:
  assumes "fst (fetch_loop H k r body m s) = FetchNone" and "i \<in> set (picks m k (hs_pool s))"
  shows "refused H (p_nodes (hs_pool s) ! i) r body"
  using assms
proof (induction k arbitrary: s)
  case 0
  then show ?case by simp
next
  case (Suc k)
  then obtain j b where j: "route_pick m (hs_pool s) = Some j" "attempt_buf H j r body s = Some b"
      and st: "\<not> ok_status (bf_status b)"
      and rest: "fst (fetch_loop H k r body m (attempt H j r body s)) = FetchNone"
    by (auto simp: fetch_loop_Suc split: option.splits if_splits)
  with Suc.IH [OF rest] Suc.prems(2) show ?case
    by (auto simp: refused_def attempt_buf_eq)
qed

lemma direct_loop_refused:
  assumes "fst (direct_loop H k r body m s) = Some (resp, True)"
    and "i \<in> set (picks m k (hs_pool s))"
  shows "refused H (p_nodes (hs_pool s) ! i) r body"
  using assms
proof (induction k arbitrary: s)
  case 0
  then show ?case by simp
next
  case (Suc k)
  then obtain j b where j: "route_pick m (hs_pool s) = Some j" "attempt_buf H j r body s = Some b"
      and st: "\<not> ok_status (bf_status b)"
      and rest: "fst (direct_loop H k r body m (attempt H j r body s)) = Some (resp, True)"
    by (auto simp: direct_loop_Suc split: option.splits if_splits)
  with Suc.IH [OF rest] Suc.prems(2) show ?case
    by (auto simp: refused_def attempt_buf_eq)
qed

lemma failover:
  assumes "pool_ready (hs_pool s) (length (p_nodes (hs_pool s)))" and "serves (hs_pool s) m i"
    and "\<not> refused H (p_nodes (hs_pool s) ! i) r body"
  shows "fst (fetchFromUpstream H r body m s) \<noteq> FetchNone"
    and "fst (proxyDirect H r body m s) \<noteq> Some (resp, True)"
proof -
  have "i \<in> set (picks m (length (p_nodes (hs_pool s))) (hs_pool s))"
    using route_source.picks_all [OF assms(1), of m] assms(2) by simp
  then show "fst (fetchFromUpstream H r body m s) \<noteq> FetchNone"
    and "fst (proxyDirect H r body m s) \<noteq> Some (resp, True)"
    unfolding fetchFromUpstream_def proxyDirect_def
    using fetch_loop_refused direct_loop_refused assms(3) by blast+
qed

section \<open>The flight\<close>

text \<open>A result an upstream gave for a request with this body.\<close>

definition gave_result :: "'w Net \<Rightarrow> bytes \<Rightarrow> bytes \<Rightarrow> bool" where
  "gave_result N body v \<longleftrightarrow>
     (\<exists>b parsed. answers N body b \<and> Unmarshal_RPCResponse b = Some parsed \<and>
        rs_Error parsed = None \<and> rs_Result parsed = v \<and> v \<noteq> [])"

lemma fetch_frame: "same_but_net s (snd (fetchFromUpstream H r body m s))"
  unfolding fetchFromUpstream_def by (rule fetch_loop_frame)

lemma fetch_answers: "fst (fetchFromUpstream H r body m s) = FetchBody b \<Longrightarrow> answers (h_net H) body b"
  unfolding fetchFromUpstream_def by (rule fetch_loop_answers)

lemma cache_Set_sel [go_state, simp]:
  "hs_store (cache_Set H k v ttl s) = st_Set (h_cache H) (hs_store s) (now H s) k v ttl"
  "hs_world (cache_Set H k v ttl s) = hs_world s" "hs_pool (cache_Set H k v ttl s) = hs_pool s"
  "hs_finality (cache_Set H k v ttl s) = hs_finality s"
  "now H (cache_Set H k v ttl s) = now H s"
  by (simp_all add: cache_Set_def now_def)

text \<open>The store after a flight, by outcome.\<close>

definition store_after :: "('s, 'w) Handler \<Rightarrow> Layer \<Rightarrow> string \<Rightarrow> flown \<Rightarrow> instant \<Rightarrow> 's \<Rightarrow> 's" where
  "store_after H layer key res t st =
     (case res of
        FlightFailed \<Rightarrow> st_Set (h_cache H) st t (neg_key key) negSentinel Second
      | FlightOk ret \<Rightarrow>
          if sf_result ret = [] then st
          else st_Set (h_cache H) st t key (sf_result ret)
                 (if layer = LayerMutable then h_mutableTTL H else 0)
      | _ \<Rightarrow> st)"

lemma flight_cases:
  assumes "flight H r body m layer key s = (res, s')"
  obtains (failed) "res = FlightFailed"
      "s' = cache_Set H (neg_key key) negSentinel Second (snd (fetchFromUpstream H r body m s))"
  | (limited) ra where "res = FlightLimited ra" "s' = snd (fetchFromUpstream H r body m s)"
  | (panic) "res = FlightPanic" "s' = snd (fetchFromUpstream H r body m s)"
  | (raw) b where "res = FlightOk (raw_ret b)" "s' = snd (fetchFromUpstream H r body m s)"
      "answers (h_net H) body b"
      "\<forall>p. Unmarshal_RPCResponse b = Some p \<longrightarrow> rs_Error p = None \<and> rs_Result p = []"
  | (rpc_error) b p e where "res = FlightOk \<lparr>sf_result = [], sf_rpcError = Some e, sf_rawBody = []\<rparr>"
      "s' = snd (fetchFromUpstream H r body m s)" "answers (h_net H) body b"
      "Unmarshal_RPCResponse b = Some p" "rs_Error p = Some e"
  | (result) b p where
      "res = FlightOk \<lparr>sf_result = rs_Result p, sf_rpcError = None, sf_rawBody = []\<rparr>"
      "s' = cache_Set H key (rs_Result p) (if layer = LayerMutable then h_mutableTTL H else 0)
              (snd (fetchFromUpstream H r body m s))"
      "answers (h_net H) body b" "Unmarshal_RPCResponse b = Some p" "rs_Error p = None"
      "rs_Result p \<noteq> []"
proof -
  obtain f s1 where f: "fetchFromUpstream H r body m s = (f, s1)"
    by (cases "fetchFromUpstream H r body m s")
  note def = assms [unfolded flight_def Let_def f, simplified]
  show thesis
  proof (cases f)
    case (FetchBody b)
    with f fetch_answers have b: "answers (h_net H) body b" by (metis fst_conv)
    show thesis
    proof (cases "Unmarshal_RPCResponse b")
      case None
      with def FetchBody b f show thesis by (intro raw [of b]) auto
    next
      case (Some p)
      show thesis
      proof (cases "rs_Error p")
        case None
        with Some def FetchBody b f show thesis
          by (cases "rs_Result p = []") (auto intro: raw [of b] result [of p b])
      next
        case (Some e)
        with \<open>Unmarshal_RPCResponse b = Some p\<close> def FetchBody b f show thesis
          by (intro rpc_error [of e b p]) auto
      qed
    qed
  qed (use def f in \<open>auto intro: failed limited panic\<close>)
qed

lemma flight_store:
  assumes "flight H r body m layer key s = (res, s')"
  shows "hs_store s' = store_after H layer key res (now H s') (hs_store s)"
  using assms fetch_frame [of s H r body m]
  by (cases rule: flight_cases)
    (simp_all add: same_but_net_def store_after_def raw_ret_def)

lemma flight_now:
  assumes "clock_mono (h_net H)" and "flight H r body m layer key s = (res, s')"
  shows "now H s \<le> now H s'"
  using assms(2) fetch_loop_now [OF assms(1), of s "length (p_nodes (hs_pool s))" r body m]
  by (cases rule: flight_cases) (simp_all add: fetchFromUpstream_def)

lemma flight_result:
  assumes "flight H r body m layer key s = (FlightOk ret, s')" and "sf_result ret \<noteq> []"
  shows "gave_result (h_net H) body (sf_result ret)"
  using assms(1)
proof (cases rule: flight_cases)
  case (result b p)
  then show ?thesis unfolding gave_result_def by (intro exI [of _ b] exI [of _ p]) auto
qed (use assms(2) in \<open>auto simp: raw_ret_def\<close>)

section \<open>Properties\<close>


text \<open>A handler without a cache in front of nodes that all give the same answer.\<close>

definition demo_handler :: "transport \<Rightarrow> (unit, unit) Handler" where
  "demo_handler t =
     \<lparr>h_cache = \<lparr>st_Get = (\<lambda>s _ _. (None, s)), st_Set = (\<lambda>s _ _ _ _. s), st_Delete = (\<lambda>s _ _. s)\<rparr>,
      h_mutableTTL = 12 * Second, h_net = \<lparr>nt_send = (\<lambda>w _. (t, w)), nt_now = (\<lambda>_. 0)\<rparr>\<rparr>"

definition demo_state :: "'s \<Rightarrow> ('s, unit) hstate" where
  "demo_state st =
     \<lparr>hs_pool = \<lparr>p_nodes = [demo_node True 1 0], p_counter = 0\<rparr>, hs_store = st,
      hs_finality = NewFinalityChecker 12, hs_world = (), hs_requests = [], hs_durations = [], hs_lookups = []\<rparr>"

definition demo_request :: "bytes \<Rightarrow> client_req" where
  "demo_request b =
     \<lparr>cq_Method = ''POST'', cq_URL = empty_URL, cq_Host = ''proxy'', cq_Header = no_header,
      cq_Body = b, cq_broken = False\<rparr>"

lemmas demo_defs = demo_handler_def demo_state_def demo_request_def demo_node_def




section \<open>What a caller is sent\<close>

text \<open>The body is a request that is cached under \<open>key\<close>.\<close>

definition request_for :: "bytes \<Rightarrow> string \<Rightarrow> string \<Rightarrow> bool" where
  "request_for body m key \<longleftrightarrow>
     m \<in> set cacheable_methods \<and>
     (case Unmarshal_RPCRequest body of
        None \<Rightarrow> False
      | Some req \<Rightarrow> rq_Method req = m \<and> CacheKey (rq_Method req) (rq_Params req) = key)"

lemma request_for_method: "request_for body m key \<Longrightarrow> request_for body' m' key \<Longrightarrow> m' = m"
  using CacheKey_method_inj by (auto simp: request_for_def split: option.splits)

text \<open>The body a caller with id \<open>i\<close> is sent for an upstream's reply \<open>b\<close>.\<close>

definition render :: "bytes \<Rightarrow> bytes \<Rightarrow> bytes option" where
  "render i b =
     (case Unmarshal_RPCResponse b of
        None \<Rightarrow> if b = [] then buildResultEnvelope i [] else Some b
      | Some p \<Rightarrow>
          (case rs_Error p of
             Some e \<Rightarrow> buildErrorEnvelope i e
           | None \<Rightarrow> if rs_Result p = [] then Some b else buildResultEnvelope i (rs_Result p)))"

text \<open>
  What a flight makes of what the fetch brought: the result the callers get, and what is written to
  the cache.
\<close>

definition outcome :: "('s, 'w) Handler \<Rightarrow> Layer \<Rightarrow> string \<Rightarrow> fetched \<Rightarrow>
    flown \<times> (string \<times> bytes \<times> duration) option" where
  "outcome H layer key res =
     (case res of
        FetchPanic \<Rightarrow> (FlightPanic, None)
      | FetchRateLimited ra \<Rightarrow> (FlightLimited ra, None)
      | FetchNone \<Rightarrow> (FlightFailed, Some (neg_key key, negSentinel, 1 * Second))
      | FetchBody rawResp \<Rightarrow>
          (case Unmarshal_RPCResponse rawResp of
             None \<Rightarrow> (FlightOk (raw_ret rawResp), None)
           | Some parsed \<Rightarrow>
               (case rs_Error parsed of
                  Some e \<Rightarrow> (FlightOk \<lparr>sf_result = [], sf_rpcError = Some e, sf_rawBody = []\<rparr>, None)
                | None \<Rightarrow>
                    if rs_Result parsed = [] then (FlightOk (raw_ret rawResp), None)
                    else
                      (FlightOk \<lparr>sf_result = rs_Result parsed, sf_rpcError = None, sf_rawBody = []\<rparr>,
                       Some (key, rs_Result parsed,
                         if layer = LayerMutable then h_mutableTTL H else 0)))))"

definition write_back :: "('s, 'w) Handler \<Rightarrow> (string \<times> bytes \<times> duration) option \<Rightarrow>
    ('s, 'w) hstate \<Rightarrow> ('s, 'w) hstate" where
  "write_back H wr s = (case wr of None \<Rightarrow> s | Some (k, v, ttl) \<Rightarrow> cache_Set H k v ttl s)"

lemma flight_outcome:
  "flight H r body m layer key s =
     (let (res, s1) = fetchFromUpstream H r body m s; (fl, wr) = outcome H layer key res
      in (fl, write_back H wr s1))"
  by (auto simp: flight_def outcome_def write_back_def Let_def
      split: prod.splits fetched.splits option.splits)

lemma finish_outcome:
  assumes "finish i (fst (outcome H layer key res)) = (Some resp, ''ok'')"
  obtains b where "res = FetchBody b" and "render i b = Some (rp_body resp)"
    and "resp = json_response (rp_body resp)"
proof (cases res)
  case (FetchBody b)
  have "Unmarshal_RPCResponse [] = None" by code_simp
  with assms FetchBody
  have "render i b = Some (rp_body resp) \<and> resp = json_response (rp_body resp)"
    by (auto simp: finish_def outcome_def raw_ret_def render_def json_response_def
        split: option.splits if_splits)
  with FetchBody that show thesis by blast
qed (use assms in \<open>simp_all add: finish_def outcome_def\<close>)

definition gas_body :: "string \<Rightarrow> bytes" where
  "gas_body i = ''{\"id\":'' @ i @ '',\"method\":\"eth_gasPrice\"}''"

definition gas_reply :: transport where
  "gas_reply = Reply 200 no_header ''{\"jsonrpc\":\"2.0\",\"id\":1,\"result\":\"0x3b\"}''"

section \<open>Requests that are turned away, and metrics\<close>

definition statuses :: "string list" where
  "statuses =
     [''cache_hit'', ''neg_hit'', ''uncacheable'', ''ok'', ''rate_limited'', ''error'']"

lemma statuses_mem [simp]:
  "''cache_hit'' \<in> set statuses" "''neg_hit'' \<in> set statuses" "''uncacheable'' \<in> set statuses"
  "''ok'' \<in> set statuses" "''rate_limited'' \<in> set statuses" "''error'' \<in> set statuses"
  by (simp_all add: statuses_def)

lemma finish_status [simp]: "snd (finish i res) \<in> set statuses"
  by (simp add: finish_def split: flown.splits option.splits)

lemma direct_status [simp]: "snd (fst (direct H r body m s)) \<in> set statuses"
  by (simp add: direct_def split: option.splits prod.splits)

lemma serve_cacheable_status [simp]:
  "snd (fst (serve_cacheable H g r body req layer s)) \<in> set statuses"
  by (simp add: serve_cacheable_def Let_def split: option.split prod.split)

lemma serve_status: "snd (fst (snd (serve H g r s))) \<in> set statuses"
  by (simp add: serve_def Let_def split: option.split)

text \<open>
  However requests are coalesced, each is counted under one pair of labels, both from fixed finite
  sets whatever the client sends as method name: the number of time series is bounded.
\<close>

lemma request_labels_bounded:
  "\<exists>label status before. label \<in> set (''other'' # knownMethods) \<and> status \<in> set statuses \<and>
     hs_requests (snd (ServeHTTP H g r s)) = before @ [(label, status)]"
proof -
  obtain l resp status s' where "serve H g r s = (l, (resp, status), s')"
    by (metis prod.collapse)
  with serve_status [of H g r s] NormalizeMethod_known [of l] show ?thesis
    by (auto simp: ServeHTTP_def Let_def)
qed




text \<open>
  A reply that breaks off makes the reverse proxy panic, so that the client gets no answer; the
  request is counted as \<open>ok\<close> all the same.
\<close>

lemma panic_counted_ok:
  "let (resp, s') = ServeHTTP (demo_handler (BrokenReply 200 no_header [])) (\<lambda>_ _. None)
         (demo_request (gas_body ''7'')) (demo_state ())
   in resp = None \<and> hs_requests s' = [(''eth_gasPrice'', ''ok'')]"
  by code_simp

end
