(* ===== verification/WsOrigin.thy ===== *)
theory WsOrigin
  imports GoCase Handler
begin

text \<open>
  The origin check of WebSocket upgrades (\<open>makeUpgrader\<close> and \<open>normaliseOrigin\<close> of
  internal/proxy/ws.go).  The upgrader of gorilla/websocket is reduced to the \<open>CheckOrigin\<close> function
  the program gives it, a predicate on the header of the request.
\<close>

section \<open>The code\<close>

definition normaliseOrigin :: "(int \<Rightarrow> int) \<Rightarrow> string \<Rightarrow> string" where
  "normaliseOrigin uni s0 =
     (let s = TrimSpace s0 in
      if s = [] then []
      else
        (case url_Parse s of
           None \<Rightarrow> []
         | Some u \<Rightarrow>
             if u_Scheme u = [] \<or> u_Host u = [] then []
             else
               (let scheme = ToLower uni (u_Scheme u);
                    host = ToLower uni (Hostname u);
                    port = (if scheme = ''http'' \<and> Port u = ''80'' \<or> scheme = ''https'' \<and> Port u = ''443''
                            then [] else Port u)
                in if port \<noteq> [] then scheme @ ''://'' @ host @ '':'' @ port
                   else scheme @ ''://'' @ host)))"

text \<open>The keys of the map \<open>normalised\<close>; then the function \<open>CheckOrigin\<close>.\<close>

definition normalised :: "(int \<Rightarrow> int) \<Rightarrow> string list \<Rightarrow> string list" where
  "normalised uni allowedOrigins =
     filter (\<lambda>n. n \<noteq> []) (map (normaliseOrigin uni) allowedOrigins)"

definition makeUpgrader :: "(int \<Rightarrow> int) \<Rightarrow> string list \<Rightarrow> header \<Rightarrow> bool" where
  "makeUpgrader uni allowedOrigins h =
     (if normalised uni allowedOrigins = [] then True
      else
        (let origin = normaliseOrigin uni (header_Get h ''Origin'') in
         if origin = [] then False else origin \<in> set (normalised uni allowedOrigins)))"

section \<open>Origins\<close>

text \<open>
  The specification: an origin is a scheme, a host and a port (empty if not given), and two origins
  are the same when scheme and host agree up to case and the ports agree once a default port is
  dropped (RFC 6454).
\<close>

record origin =
  or_scheme :: string
  or_host :: string
  or_port :: string

definition host_char :: "char \<Rightarrow> bool" where
  "host_char c \<longleftrightarrow> is_alpha c \<or> is_num c \<or> c = CHR ''-'' \<or> c = CHR ''.''"

definition plain_origin :: "origin \<Rightarrow> bool" where
  "plain_origin a \<longleftrightarrow>
     or_scheme a \<noteq> [] \<and> list_all is_alpha (or_scheme a) \<and>
     or_host a \<noteq> [] \<and> list_all host_char (or_host a) \<and> list_all is_num (or_port a)"

definition own_port :: "origin \<Rightarrow> string" where
  "own_port a =
     (if lower_ascii (or_scheme a) = ''http'' \<and> or_port a = ''80'' \<or>
         lower_ascii (or_scheme a) = ''https'' \<and> or_port a = ''443''
      then [] else or_port a)"

definition same_origin :: "origin \<Rightarrow> origin \<Rightarrow> bool" where
  "same_origin a b \<longleftrightarrow>
     lower_ascii (or_scheme a) = lower_ascii (or_scheme b) \<and>
     lower_ascii (or_host a) = lower_ascii (or_host b) \<and> own_port a = own_port b"

text \<open>An origin as it is written, with or without a trailing slash.\<close>

definition port_part :: "string \<Rightarrow> string" where
  "port_part p = (if p = [] then [] else CHR '':'' # p)"

definition written :: "origin \<times> bool \<Rightarrow> string" where
  "written w =
     or_scheme (fst w) @ ''://'' @ or_host (fst w) @ port_part (or_port (fst w)) @
     (if snd w then ''/'' else [])"

section \<open>Parsing a written origin\<close>

lemma IndexByte_absent: "b \<notin> set s \<Longrightarrow> IndexByte b s = None"
  by simp

lemma Cut_absent: "b \<notin> set s \<Longrightarrow> Cut b s = (s, [])"
  by (simp add: Cut_def IndexByte_absent)

lemma cut_last_absent: "b \<notin> set s \<Longrightarrow> cut_last b s = None"
  by (simp add: cut_last_def IndexByte_absent)

lemma cut_last_at: "b \<notin> set t \<Longrightarrow> cut_last b (s @ b # t) = Some (s, b # t)"
  by (simp add: cut_last_def IndexByte_append)

lemma alpha_char: "is_alpha c \<Longrightarrow> host_char c"
  by (simp add: host_char_def)

lemma num_char: "is_num c \<Longrightarrow> host_char c"
  by (simp add: host_char_def)

lemma host_charD:
  assumes "host_char c"
  shows "32 < (of_char c :: int)" and "(of_char c :: int) < 127"
    and "c \<notin> set ''#?/:@[]%''" and "\<not> shouldEscape m c"
proof -
  show "32 < (of_char c :: int)" "(of_char c :: int) < 127"
    using assms by (auto simp: host_char_def is_alpha_def is_num_def Let_def)
  show "c \<notin> set ''#?/:@[]%''"
    using assms by (auto simp: host_char_def is_alpha_def is_num_def Let_def)
  show "\<not> shouldEscape m c"
    using assms by (auto simp: host_char_def shouldEscape_def)
qed

text \<open>The characters of a written origin.\<close>

definition origin_char :: "char \<Rightarrow> bool" where
  "origin_char c \<longleftrightarrow> host_char c \<or> c = CHR '':'' \<or> c = CHR ''/''"

lemma origin_charD:
  assumes "origin_char c"
  shows "32 < (of_char c :: int)" and "(of_char c :: int) < 127" and "c \<noteq> CHR ''#''" and "c \<noteq> CHR ''?''"
  using assms host_charD(1-3) [of c] by (auto simp: origin_char_def)

lemma written_chars:
  assumes "plain_origin a"
  shows "list_all origin_char (written (a, sl))"
proof -
  have "list_all origin_char (or_scheme a)" "list_all origin_char (or_host a)"
    "list_all origin_char (or_port a)"
    using assms by (auto simp: plain_origin_def origin_char_def host_char_def elim!: list.pred_mono_strong)
  then show ?thesis
    by (simp add: written_def port_part_def origin_char_def)
qed

lemma written_trim:
  assumes "list_all origin_char s"
  shows "TrimSpace s = s" and "Cut (CHR ''#'') s = (s, [])" and "\<not> has_ctl_byte s"
proof -
  show "TrimSpace s = s"
  proof (rule TrimSpace_noop)
    fix c
    assume "c \<in> set s"
    then have "origin_char c" using assms by (simp add: list_all_iff)
    from origin_charD(1,2) [OF this] show "(of_char c :: int) < 128 \<and> \<not> ascii_space c"
      by (simp add: ascii_space_def Let_def)
  qed
  have "CHR ''#'' \<notin> set s"
    using assms origin_charD(3) by (auto simp: list_all_iff)
  then show "Cut (CHR ''#'') s = (s, [])" by (rule Cut_absent)
  show "\<not> has_ctl_byte s"
    unfolding has_ctl_byte_def list_ex_iff
  proof (rule notI, elim bexE)
    fix c
    assume "c \<in> set s" and c: "(of_char c :: int) < 32 \<or> c = CHR 0x7F"
    then have "origin_char c" using assms by (simp add: list_all_iff)
    from origin_charD(1,2) [OF this] c show False by auto
  qed
qed

lemma shouldEscape_colon: "\<not> shouldEscape encodeHost (CHR '':'')"
  by (simp add: shouldEscape_def)

lemma unescape_plain:
  assumes "list_all (\<lambda>c. host_char c \<or> c = CHR '':'') s"
  shows "unescape encodeHost s = Some s"
  using assms
proof (induction s)
  case (Cons c s)
  then have "c \<noteq> CHR ''%''" "\<not> shouldEscape encodeHost c"
    using host_charD(3,4) [of c] shouldEscape_colon by auto
  with Cons show ?case by simp
qed simp

text \<open>Host and port as \<open>url.Parse\<close> finds them.\<close>

lemma host_charsD:
  assumes "list_all host_char s" and "c \<in> set ''#?/:@[]%''"
  shows "c \<notin> set s"
  using assms host_charD(3) by (auto simp: list_all_iff)

lemma not_bracket: "list_all host_char h \<Longrightarrow> \<not> HasPrefix (h @ t) ''['' \<or> h = []"
  using host_charD(3) by (cases h) auto

lemma authority_plain:
  assumes "h \<noteq> []" and "list_all host_char h" and "list_all is_num p"
  shows "parseAuthority (h @ port_part p) = Some (None, h @ port_part p)"
    and "splitHostPort (h @ port_part p) = (h, p)"
proof -
  have p: "list_all host_char p"
    using assms(3) by (auto simp: host_char_def elim!: list.pred_mono_strong)
  have at: "CHR ''@'' \<notin> set (h @ port_part p)"
    using host_charsD [OF assms(2)] host_charsD [OF p] by (auto simp: port_part_def)
  have last: "cut_last (CHR '':'') (h @ port_part p) = (if p = [] then None else Some (h, CHR '':'' # p))"
    using host_charsD [OF assms(2)] host_charsD [OF p]
    by (auto simp: port_part_def cut_last_absent cut_last_at)
  have un: "unescape encodeHost (h @ port_part p) = Some (h @ port_part p)"
    by (rule unescape_plain)
       (use assms(2) p in \<open>auto simp: port_part_def elim!: list.pred_mono_strong\<close>)
  have "parseHost (h @ port_part p) = Some (h @ port_part p)"
    using not_bracket [OF assms(2), of "port_part p"] assms last un
    by (cases "p = []") (simp_all add: parseHost_def validOptionalPort_def)
  then show "parseAuthority (h @ port_part p) = Some (None, h @ port_part p)"
    using at by (simp add: parseAuthority_def cut_last_absent)
  show "splitHostPort (h @ port_part p) = (h, p)"
    using not_bracket [OF assms(2), of "[]"] assms(1,3) last
    by (auto simp: splitHostPort_def validOptionalPort_def port_part_def)
qed

lemma getScheme_plain:
  assumes "s \<noteq> []" and "list_all is_alpha s"
  shows "getScheme (s @ CHR '':'' # t) = Some (s, t)"
proof -
  let ?ok = "\<lambda>c. is_alpha c \<or> is_num c \<or> c \<in> set ''+-.''"
  have "takeWhile ?ok (s @ CHR '':'' # t) = s"
    using assms(2) by (subst takeWhile_append2)
      (auto simp: list_all_iff is_alpha_def is_num_def Let_def)
  then show ?thesis
    using assms by (simp add: getScheme_def list_all_iff)
qed

definition origin_URL :: "origin \<Rightarrow> bool \<Rightarrow> URL" where
  "origin_URL a sl =
     empty_URL\<lparr>u_Scheme := lower_ascii (or_scheme a), u_Host := or_host a @ port_part (or_port a),
               u_Path := if sl then ''/'' else []\<rparr>"

lemma url_Parse_written:
  assumes "plain_origin a"
  shows "url_Parse (written (a, sl)) = Some (origin_URL a sl)"
proof -
  let ?hp = "or_host a @ port_part (or_port a)" and ?path = "if sl then ''/'' else []"
  let ?rest = "''//'' @ ?hp @ ?path"
  have w: "written (a, sl) = or_scheme a @ CHR '':'' # ?rest" by (simp add: written_def)
  have a: "or_scheme a \<noteq> []" "list_all is_alpha (or_scheme a)" "or_host a \<noteq> []"
    "list_all host_char (or_host a)" "list_all is_num (or_port a)"
    using assms by (simp_all add: plain_origin_def)
  have chars: "list_all origin_char (written (a, sl))" by (rule written_chars [OF assms])
  then have q: "CHR ''?'' \<notin> set ?rest"
    using origin_charD(4) by (auto simp: w list_all_iff)
  have p: "list_all host_char (or_port a)"
    using a(5) by (auto simp: host_char_def elim!: list.pred_mono_strong)
  have "CHR ''/'' \<notin> set ?hp"
    using host_charsD [OF a(4)] host_charsD [OF p] by (auto simp: port_part_def)
  then have split: "IndexByte (CHR ''/'') (?hp @ ?path) = (if sl then Some (length ?hp) else None)"
    by (cases sl) (simp_all add: IndexByte_absent IndexByte_append del: append_assoc)
  have force: "(?rest \<noteq> [] \<and> last ?rest = CHR ''?'' \<and> CHR ''?'' \<notin> set (butlast ?rest)) = False"
    using q last_in_set [of ?rest] by metis
  have rest: "drop 2 ?rest = ?hp @ ?path" "HasPrefix ?rest ''/''" "HasPrefix ?rest ''//''" by simp_all
  have star: "written (a, sl) \<noteq> ''*''" using a(1) by (cases "or_scheme a") (auto simp: w)
  have "parse_no_fragment (written (a, sl)) =
      setPath ?path (empty_URL\<lparr>u_Scheme := lower_ascii (or_scheme a), u_Host := ?hp\<rparr>)"
    unfolding parse_no_fragment_def Let_def w getScheme_plain [OF a(1,2)] option.case prod.case
      force if_False Cut_absent [OF q] rest split
    using written_trim(3) [OF chars] star a(1) authority_plain(1) [OF a(3-5)]
    by (cases sl) (simp_all add: written_def empty_URL_def)
  also have "\<dots> = Some (origin_URL a sl)"
    by (cases sl) (simp_all add: setPath_def origin_URL_def empty_URL_def shouldEscape_def)
  finally have "parse_no_fragment (written (a, sl)) = Some (origin_URL a sl)" .
  then show ?thesis
    using written_trim(2) [OF chars] by (simp add: url_Parse_def)
qed

text \<open>The canonical form, and that it determines the origin.\<close>

definition canonical :: "origin \<Rightarrow> string" where
  "canonical a =
     lower_ascii (or_scheme a) @ ''://'' @ lower_ascii (or_host a) @ port_part (own_port a)"

lemma is_alpha_ascii: "list_all is_alpha s \<Longrightarrow> is_ascii s"
  using host_charD(2) [OF alpha_char] by (fastforce simp: is_ascii_def list_all_iff)

lemma host_ascii: "list_all host_char s \<Longrightarrow> is_ascii s"
  using host_charD(2) by (fastforce simp: is_ascii_def list_all_iff)

lemma normaliseOrigin_written:
  assumes "plain_origin a"
  shows "normaliseOrigin uni (written (a, sl)) = canonical a"
proof -
  have a: "or_scheme a \<noteq> []" "list_all is_alpha (or_scheme a)" "or_host a \<noteq> []"
    "list_all host_char (or_host a)" "list_all is_num (or_port a)"
    using assms by (simp_all add: plain_origin_def)
  have trim: "TrimSpace (written (a, sl)) = written (a, sl)"
    by (rule written_trim(1) [OF written_chars [OF assms]])
  have u: "u_Scheme (origin_URL a sl) = lower_ascii (or_scheme a)"
    "u_Host (origin_URL a sl) = or_host a @ port_part (or_port a)"
    by (simp_all add: origin_URL_def)
  then have hp: "Hostname (origin_URL a sl) = or_host a" "Port (origin_URL a sl) = or_port a"
    using authority_plain(2) [OF a(3-5)] by (simp_all add: Hostname_def Port_def)
  have "written (a, sl) \<noteq> []" by (simp add: written_def)
  moreover have "ToLower uni (lower_ascii (or_scheme a)) = lower_ascii (or_scheme a)"
    and "ToLower uni (or_host a) = lower_ascii (or_host a)"
    using is_alpha_ascii [OF a(2)] host_ascii [OF a(4)]
    by (simp_all add: ToLower_ascii is_ascii_lower)
  ultimately show ?thesis
    unfolding normaliseOrigin_def Let_def trim url_Parse_written [OF assms] hp u option.case
      canonical_def own_port_def port_part_def
    using a(1,3) by simp
qed

lemma lower_char:
  "host_char c \<Longrightarrow> host_char (hd (lower_ascii [c]))"
  by (auto simp: lower_ascii_def host_char_def is_alpha_def is_num_def Let_def)

lemma host_char_lower:
  assumes "list_all host_char s"
  shows "list_all host_char (lower_ascii s)"
  using assms lower_char by (auto simp: list_all_iff lower_ascii_def)

lemma split_unique:
  fixes b :: char
  assumes "b \<notin> set s" and "b \<notin> set s'" and "s @ b # t = s' @ b # t'"
  shows "s = s' \<and> t = t'"
  using assms(3) IndexByte_append [OF assms(1), of t] IndexByte_append [OF assms(2), of t']
  by (metis append_eq_append_conv list.inject option.inject)

lemma port_part_unique:
  assumes "CHR '':'' \<notin> set h" and "CHR '':'' \<notin> set h'" and "h @ port_part p = h' @ port_part p'"
  shows "h = h' \<and> p = p'"
proof -
  have "p = [] \<longleftrightarrow> p' = []"
    using assms by (metis UnCI append_Nil2 list.set_intros(1) port_part_def set_append)
  with assms split_unique [of "CHR '':''" h h' p p'] show ?thesis
    by (auto simp: port_part_def split: if_splits)
qed

lemma canonical_eq_iff:
  assumes "plain_origin a" and "plain_origin b"
  shows "canonical a = canonical b \<longleftrightarrow> same_origin a b"
proof
  have no_colon: "CHR '':'' \<notin> set (lower_ascii (or_scheme x))" "CHR '':'' \<notin> set (lower_ascii (or_host x))"
    if "plain_origin x" for x
  proof -
    have "list_all host_char (or_scheme x)" "list_all host_char (or_host x)"
      using that by (auto simp: plain_origin_def host_char_def elim!: list.pred_mono_strong)
    then show "CHR '':'' \<notin> set (lower_ascii (or_scheme x))" "CHR '':'' \<notin> set (lower_ascii (or_host x))"
      using host_charsD [OF host_char_lower, of _ "CHR '':''"] by simp_all
  qed
  assume "canonical a = canonical b"
  then have "lower_ascii (or_scheme a) = lower_ascii (or_scheme b) \<and>
      lower_ascii (or_host a) @ port_part (own_port a) = lower_ascii (or_host b) @ port_part (own_port b)"
    using split_unique [OF no_colon(1) [OF assms(1)] no_colon(1) [OF assms(2)],
        of "''//'' @ lower_ascii (or_host a) @ port_part (own_port a)"
           "''//'' @ lower_ascii (or_host b) @ port_part (own_port b)"]
    by (simp add: canonical_def)
  then show "same_origin a b"
    using port_part_unique [OF no_colon(2) [OF assms(1)] no_colon(2) [OF assms(2)],
        of "own_port a" "own_port b"]
    by (simp add: same_origin_def)
qed (simp add: same_origin_def canonical_def)

section \<open>Properties\<close>

text \<open>
  Property C13.  With a non-empty allowlist of well-formed origins (with or without trailing slash),
  an upgrade request that carries a well-formed origin is accepted exactly if one of the listed
  origins is the same: scheme and host equal up to case, and equal ports once the default ports of
  \<open>http\<close> and \<open>https\<close> are dropped.  A request without an origin is refused.
\<close>

theorem origin_check_exact:
  assumes "allowed \<noteq> []" and "\<forall>w \<in> set allowed. plain_origin (fst w)"
  shows "(\<forall>b sl h. plain_origin b \<longrightarrow> header_Get h ''Origin'' = written (b, sl) \<longrightarrow>
            makeUpgrader uni (map written allowed) h = (\<exists>w \<in> set allowed. same_origin (fst w) b)) \<and>
         (\<forall>h. header_Get h ''Origin'' = [] \<longrightarrow> \<not> makeUpgrader uni (map written allowed) h)"
proof -
  have norm: "normaliseOrigin uni (written w) = canonical (fst w)" if "w \<in> set allowed" for w
    using that assms(2) normaliseOrigin_written [of "fst w" uni "snd w"] by simp
  then have eq: "normalised uni (map written allowed) = map (\<lambda>w. canonical (fst w)) allowed"
    unfolding normalised_def by (subst filter_True) (auto simp: canonical_def)
  have "makeUpgrader uni (map written allowed) h \<longleftrightarrow> (\<exists>w \<in> set allowed. same_origin (fst w) b)"
    if "plain_origin b" and "header_Get h ''Origin'' = written (b, sl)" for b sl h
  proof -
    have "makeUpgrader uni (map written allowed) h \<longleftrightarrow> canonical b \<in> (\<lambda>w. canonical (fst w)) ` set allowed"
      using assms(1) normaliseOrigin_written [OF that(1), of uni sl]
      by (simp add: makeUpgrader_def eq that(2)) (simp add: canonical_def)
    also have "\<dots> \<longleftrightarrow> (\<exists>w \<in> set allowed. canonical (fst w) = canonical b)"
      unfolding image_iff by (simp only: eq_commute [of "canonical b"])
    also have "\<dots> \<longleftrightarrow> (\<exists>w \<in> set allowed. same_origin (fst w) b)"
      by (rule bex_cong [OF refl]) (use assms(2) that(1) canonical_eq_iff in blast)
    finally show ?thesis .
  qed
  moreover have "normaliseOrigin uni [] = []"
    by (simp add: normaliseOrigin_def TrimSpace_def)
  ultimately show ?thesis
    using assms(1) by (simp add: makeUpgrader_def eq)
qed

definition app_origin :: origin where
  "app_origin = \<lparr>or_scheme = ''https'', or_host = ''app.example.com'', or_port = []\<rparr>"

theorem origin_check_exact_witness:
  "makeUpgrader id [''https://app.example.com/''] (no_header(''Origin'' := [''HTTPS://App.Example.com:443''])) \<and>
   \<not> makeUpgrader id [''https://app.example.com/''] (no_header(''Origin'' := [''http://app.example.com'']))"
proof -
  let ?up = "\<lparr>or_scheme = ''HTTPS'', or_host = ''App.Example.com'', or_port = ''443''\<rparr>"
  let ?http = "app_origin\<lparr>or_scheme := ''http''\<rparr>"
  have "plain_origin app_origin" "plain_origin ?up" "plain_origin ?http" by code_simp+
  moreover have "same_origin app_origin ?up" "\<not> same_origin app_origin ?http" by code_simp+
  moreover have "written (app_origin, True) = ''https://app.example.com/''"
    "written (?up, False) = ''HTTPS://App.Example.com:443''"
    "written (?http, False) = ''http://app.example.com''"
    by code_simp+
  moreover have "header_Get (no_header(''Origin'' := [v])) ''Origin'' = v" for v
    by (simp add: header_Get_def)
  ultimately show ?thesis
    using origin_check_exact [of "[(app_origin, True)]" id] by simp metis
qed

text \<open>
  An allowlist whose entries all lack a scheme normalises to nothing and lets every origin in.
\<close>

lemma origin_allowlist_fails_open: "makeUpgrader uni [''app.example.com''] h"
proof -
  have "url_Parse (TrimSpace ''app.example.com'') = Some (empty_URL\<lparr>u_Path := ''app.example.com''\<rparr>)"
    by code_simp
  then show ?thesis
    by (simp add: makeUpgrader_def normalised_def normaliseOrigin_def Let_def empty_URL_def)
qed

text \<open>Two different IPv6 origins are not told apart.\<close>

lemma ipv6_origins_conflated:
  "normaliseOrigin id ''http://[::1:3000]'' = normaliseOrigin id ''http://[::1]:3000''"
  by code_simp

end
