(* ===== verification/HttpApi.thy ===== *)
theory HttpApi
  imports WsOrigin WsSession
begin

text \<open>
  The HTTP server (internal/httpapi/server.go) with the routing of \<open>http.ServeMux\<close>, and \<open>ServeWS\<close> of
  internal/proxy/ws.go up to the start of a session.  The rest of the handshake that gorilla/websocket
  checks, the metrics page of promhttp and the outcomes of \<open>ListenAndServe\<close> and \<open>http.Server.Shutdown\<close>
  are parameters.  The request target \<open>*\<close> never reaches the routes and is left out.
\<close>

section \<open>Routing\<close>

text \<open>\<open>path.Clean\<close> on a rooted path: the elements that stay, innermost first.\<close>

fun clean_elems :: "string list \<Rightarrow> string list \<Rightarrow> string list" where
  "clean_elems [] out = out"
| "clean_elems (e # es) out =
     (if e = [] \<or> e = ''.'' then clean_elems es out
      else if e = ''..'' then clean_elems es (tl out)
      else clean_elems es (e # out))"

definition path_Clean :: "string \<Rightarrow> string" where
  "path_Clean p =
     (case rev (clean_elems (Split (CHR ''/'') p) []) of
        [] \<Rightarrow> ''/''
      | es \<Rightarrow> concat (map (\<lambda>e. CHR ''/'' # e) es))"

definition cleanPath :: "string \<Rightarrow> string" where
  "cleanPath p0 =
     (if p0 = [] then ''/''
      else
        (let p = (if hd p0 = CHR ''/'' then p0 else CHR ''/'' # p0); np = path_Clean p in
         if last p = CHR ''/'' \<and> np \<noteq> ''/'' then np @ ''/'' else np))"

datatype route = RouteRoot | RouteWS | RouteMetrics | RouteHealthz | RouteRedirect string

text \<open>An element of the path is compared unescaped; one that cannot be unescaped stays as it is.\<close>

definition pathUnescape :: "string \<Rightarrow> string" where
  "pathUnescape s = (case unescape encodePath s of None \<Rightarrow> s | Some t \<Rightarrow> t)"

definition match_path :: "string \<Rightarrow> route" where
  "match_path path =
     (if \<not> HasPrefix path ''/'' \<or> CHR ''/'' \<in> set (tl path) then RouteRoot
      else
        (let e = pathUnescape (tl path) in
         if e = ''ws'' then RouteWS
         else if e = ''metrics'' then RouteMetrics
         else if e = ''healthz'' then RouteHealthz
         else RouteRoot))"

definition mux :: "client_req \<Rightarrow> route" where
  "mux r =
     (let esc = EscapedPath (cq_URL r);
          path = (if cq_Method r = ''CONNECT'' then esc else cleanPath esc)
      in if path \<noteq> esc
         then RouteRedirect (URL_String (empty_URL\<lparr>u_Path := path, u_RawQuery := u_RawQuery (cq_URL r)\<rparr>))
         else match_path path)"

section \<open>The server\<close>

record Server =
  sv_Addr :: string
  sv_draining :: bool
  sv_ReadHeaderTimeout :: duration
  sv_ReadTimeout :: duration
  sv_WriteTimeout :: duration
  sv_IdleTimeout :: duration
  sv_wsReplayPendingCap :: int
  sv_wsAllowedOrigins :: "string list"

definition New :: "int \<Rightarrow> duration \<Rightarrow> int \<Rightarrow> string list \<Rightarrow> Server" where
  "New port writeTimeout wsReplayPendingCap wsAllowedOrigins =
     \<lparr>sv_Addr = CHR '':'' # Itoa port, sv_draining = False,
      sv_ReadHeaderTimeout = 5 * Second, sv_ReadTimeout = 30 * Second,
      sv_WriteTimeout = writeTimeout, sv_IdleTimeout = 120 * Second,
      sv_wsReplayPendingCap = wsReplayPendingCap, sv_wsAllowedOrigins = wsAllowedOrigins\<rparr>"

definition healthz :: "Server \<Rightarrow> response" where
  "healthz sv =
     \<lparr>rp_status = if sv_draining sv then 503 else 200,
      rp_header = no_header(''Content-Type'' := [''text/plain; charset=utf-8'']),
      rp_body = (if sv_draining sv then ''draining'' else ''ok'') @ [CHR 0x0A]\<rparr>"

text \<open>What a request leads to; \<open>Aborted\<close> is a connection the RPC handler broke off.\<close>

datatype served =
    Replied response
  | Aborted
  | Redirected string
  | WsSession wsSession
  | WsRefused
  | MetricsPage

text \<open>\<open>handshake\<close>: whether the request is a WebSocket upgrade gorilla accepts, its origin apart.\<close>

definition ServeWS :: "(int \<Rightarrow> int) \<Rightarrow> (client_req \<Rightarrow> bool) \<Rightarrow> int \<Rightarrow> string list \<Rightarrow> client_req \<Rightarrow> served" where
  "ServeWS uni handshake replayPendingCap allowedOrigins r =
     (if handshake r \<and> makeUpgrader uni allowedOrigins (cq_Header r)
      then WsSession (newWSSession replayPendingCap) else WsRefused)"

definition root_handler :: "('s, 'w) Handler \<Rightarrow> ('s, 'w) group \<Rightarrow> client_req \<Rightarrow> ('s, 'w) hstate \<Rightarrow>
    served \<times> ('s, 'w) hstate" where
  "root_handler H g r s =
     (if cq_Method r \<noteq> ''POST'' then (Replied (http_Error no_header ''Method not allowed'' 405), s)
      else
        (case ServeHTTP H g r s of
           (None, s') \<Rightarrow> (Aborted, s')
         | (Some resp, s') \<Rightarrow> (Replied resp, s')))"

definition serve_request :: "(int \<Rightarrow> int) \<Rightarrow> (client_req \<Rightarrow> bool) \<Rightarrow> Server \<Rightarrow> ('s, 'w) Handler \<Rightarrow> ('s, 'w) group \<Rightarrow>
    client_req \<Rightarrow> ('s, 'w) hstate \<Rightarrow> served \<times> ('s, 'w) hstate" where
  "serve_request uni handshake sv H g r s =
     (case mux r of
        RouteRedirect u \<Rightarrow> (Redirected u, s)
      | RouteRoot \<Rightarrow> root_handler H g r s
      | RouteWS \<Rightarrow> (ServeWS uni handshake (sv_wsReplayPendingCap sv) (sv_wsAllowedOrigins sv) r, s)
      | RouteMetrics \<Rightarrow> (MetricsPage, s)
      | RouteHealthz \<Rightarrow> (Replied (healthz sv), s))"

text \<open>How \<open>ListenAndServe\<close> ends; a closed server is not an error.\<close>

datatype listen_end = ListenNil | ErrServerClosed | ListenError string

definition Start :: "listen_end \<Rightarrow> string option" where
  "Start e = (case e of ListenError m \<Rightarrow> Some m | _ \<Rightarrow> None)"

text \<open>\<open>closed\<close> is what \<open>http.Server.Shutdown\<close> returns once the flag is set.\<close>

definition Shutdown :: "(duration \<Rightarrow> string option) \<Rightarrow> duration \<Rightarrow> Server \<Rightarrow> string option \<times> Server" where
  "Shutdown closed timeout sv = (closed timeout, sv\<lparr>sv_draining := True\<rparr>)"

section \<open>Lemmas\<close>

text \<open>A clean path is left alone, so no redirect leads to another one.\<close>

definition kept :: "string \<Rightarrow> bool" where
  "kept e \<longleftrightarrow> e \<noteq> [] \<and> e \<noteq> ''.'' \<and> e \<noteq> ''..'' \<and> CHR ''/'' \<notin> set e"

lemma clean_elems_kept:
  assumes "list_all kept out" and "list_all (\<lambda>e. CHR ''/'' \<notin> set e) es"
  shows "list_all kept (clean_elems es out)"
  using assms
proof (induction es out rule: clean_elems.induct)
  case (2 e es out)
  have tl: "list_all kept (tl out)" using "2.prems"(1) by (cases out) auto
  consider "e = [] \<or> e = ''.''" | "e = ''..''" | "kept e" "e \<noteq> []" "e \<noteq> ''.''" "e \<noteq> ''..''"
    using "2.prems"(2) by (auto simp: kept_def)
  then show ?case
    using 2 tl by cases auto
qed simp

lemma clean_elems_id: "list_all kept es \<Longrightarrow> clean_elems es out = rev es @ out"
  by (induction es arbitrary: out) (auto simp: kept_def)

lemma clean_elems_append: "clean_elems (xs @ ys) out = clean_elems ys (clean_elems xs out)"
  by (induction xs out rule: clean_elems.induct) auto

lemma Split_elems: "e \<in> set (Split b s) \<Longrightarrow> b \<notin> set e"
proof (induction s arbitrary: e)
  case (Cons c s)
  then show ?case by (cases "Split b s") (auto split: if_splits)
qed simp

definition slashed :: "string list \<Rightarrow> string" where
  "slashed es = concat (map (\<lambda>e. CHR ''/'' # e) es)"

lemma Split_slashed:
  "es \<noteq> [] \<Longrightarrow> list_all kept es \<Longrightarrow> Split (CHR ''/'') (slashed es) = [] # es"
  "es \<noteq> [] \<Longrightarrow> list_all kept es \<Longrightarrow> Split (CHR ''/'') (slashed es @ ''/'') = [] # es @ [[]]"
proof (induction es)
  case (Cons e es)
  {
    case 1
    with Cons.IH(1) show ?case
      by (cases es) (auto simp: slashed_def kept_def Split_no_sep Split_join)
  next
    case 2
    with Cons.IH(2) show ?case
      by (cases es) (auto simp: slashed_def kept_def Split_no_sep Split_join)
  }
qed simp_all

lemma path_Clean_slashed:
  obtains es where "list_all kept es" and "path_Clean p = (if es = [] then ''/'' else slashed es)"
proof
  let ?es = "rev (clean_elems (Split (CHR ''/'') p) [])"
  show "list_all kept ?es"
    using clean_elems_kept [of "[]" "Split (CHR ''/'') p"] Split_elems
    by (auto simp: list_all_iff)
  show "path_Clean p = (if ?es = [] then ''/'' else slashed ?es)"
    by (simp add: path_Clean_def slashed_def split: list.split)
qed

lemma cleanPath_idem: "cleanPath (cleanPath p) = cleanPath p"
proof (cases "p = []")
  case True
  then show ?thesis by (simp add: cleanPath_def path_Clean_def)
next
  case False
  define q where "q = (if hd p = CHR ''/'' then p else CHR ''/'' # p)"
  obtain es where es: "list_all kept es" "path_Clean q = (if es = [] then ''/'' else slashed es)"
    by (rule path_Clean_slashed)
  have clean: "path_Clean (slashed es) = slashed es" "path_Clean (slashed es @ ''/'') = slashed es"
    if "es \<noteq> []"
    using that es(1) Split_slashed [OF that es(1)] clean_elems_id [OF es(1)]
    by (auto simp: path_Clean_def slashed_def clean_elems_append split: list.split)
  have ends: "slashed es \<noteq> []" "hd (slashed es) = CHR ''/''" "last (slashed es) \<noteq> CHR ''/''"
    "slashed es \<noteq> ''/''" if ne: "es \<noteq> []"
  proof -
    have "kept (last es)" using es(1) ne by (auto simp: list_all_iff)
    then have l: "last es \<noteq> []" "CHR ''/'' \<notin> set (last es)" by (simp_all add: kept_def)
    have "slashed es = slashed (butlast es) @ CHR ''/'' # last es"
      using ne append_butlast_last_id [OF ne] by (metis concat_append concat.simps list.simps(8,9)
          map_append slashed_def append_Nil2)
    with l have "last (slashed es) = last (last es)" by simp
    with l show "last (slashed es) \<noteq> CHR ''/''" by (metis last_in_set)
    then show "slashed es \<noteq> ''/''" by auto
    show "slashed es \<noteq> []" "hd (slashed es) = CHR ''/''"
      using ne by (cases es; simp add: slashed_def)+
  qed
  have p: "cleanPath p = (if last q = CHR ''/'' \<and> path_Clean q \<noteq> ''/'' then path_Clean q @ ''/'' else path_Clean q)"
    using False by (simp add: cleanPath_def q_def Let_def)
  show ?thesis
  proof (cases "es = []")
    case True
    then have "cleanPath p = ''/''" by (simp add: p es(2))
    moreover have "cleanPath ''/'' = ''/''" by code_simp
    ultimately show ?thesis by simp
  next
    case False
    with clean [OF False] ends [OF False] show ?thesis
      unfolding p es(2) by (auto simp: cleanPath_def Let_def)
  qed
qed

lemma mux_redirect:
  assumes "mux r = RouteRedirect u"
  shows "\<exists>path. path \<noteq> EscapedPath (cq_URL r) \<and> cleanPath path = path \<and>
           u = URL_String (empty_URL\<lparr>u_Path := path, u_RawQuery := u_RawQuery (cq_URL r)\<rparr>)"
  using assms cleanPath_idem
  by (auto simp: mux_def match_path_def Let_def split: if_splits)

section \<open>Properties\<close>

text \<open>
  Property C27.  Only a \<open>POST\<close> request that no other route takes reaches the JSON-RPC handler and its
  state; any other method there is refused with 405.  A WebSocket session is started only on \<open>/ws\<close>,
  for a request whose origin passes the check, and with an empty state and the configured cap.  The
  readiness probe answers 200 until \<open>Shutdown\<close> has begun and 503 from then on.  A redirect leads to a
  clean path, which is not redirected again.
\<close>

theorem http_routes:
  fixes s :: "('s, 'w) hstate"
  shows "(snd (serve_request uni handshake sv H g r s) \<noteq> s \<longrightarrow>
            mux r = RouteRoot \<and> cq_Method r = ''POST'' \<and>
            snd (serve_request uni handshake sv H g r s) = snd (ServeHTTP H g r s)) \<and>
         (mux r = RouteRoot \<longrightarrow> cq_Method r \<noteq> ''POST'' \<longrightarrow>
            (\<exists>resp. serve_request uni handshake sv H g r s = (Replied resp, s) \<and> rp_status resp = 405)) \<and>
         (\<forall>w. fst (serve_request uni handshake sv H g r s) = WsSession w \<longrightarrow>
            mux r = RouteWS \<and> makeUpgrader uni (sv_wsAllowedOrigins sv) (cq_Header r) \<and>
            w = newWSSession (sv_wsReplayPendingCap sv)) \<and>
         (mux r = RouteHealthz \<longrightarrow>
            (\<exists>resp. serve_request uni handshake (New port wt cap origins) H g r s = (Replied resp, s) \<and>
               rp_status resp = 200) \<and>
            (\<exists>resp. serve_request uni handshake (snd (Shutdown closed timeout sv)) H g r s = (Replied resp, s) \<and>
               rp_status resp = 503)) \<and>
         (\<forall>u. mux r = RouteRedirect u \<longrightarrow>
            (\<exists>path. path \<noteq> EscapedPath (cq_URL r) \<and> cleanPath path = path \<and>
               u = URL_String (empty_URL\<lparr>u_Path := path, u_RawQuery := u_RawQuery (cq_URL r)\<rparr>)))"
proof (intro conjI allI impI)
  fix u
  assume "mux r = RouteRedirect u"
  then show "\<exists>path. path \<noteq> EscapedPath (cq_URL r) \<and> cleanPath path = path \<and>
      u = URL_String (empty_URL\<lparr>u_Path := path, u_RawQuery := u_RawQuery (cq_URL r)\<rparr>)"
    by (rule mux_redirect)
qed (auto simp: serve_request_def root_handler_def ServeWS_def http_Error_def New_def Shutdown_def healthz_def
     split: route.splits if_splits prod.splits option.splits)

definition api_request :: "string \<Rightarrow> string \<Rightarrow> client_req" where
  "api_request method path =
     \<lparr>cq_Method = method, cq_URL = empty_URL\<lparr>u_Path := path\<rparr>, cq_Host = ''proxy'', cq_Header = no_header,
      cq_Body = [], cq_broken = False\<rparr>"

theorem http_routes_witness:
  "\<forall>(H :: (unit, unit) Handler) g s.
     (\<exists>resp. serve_request id (\<lambda>_. True) (New 8080 Second 8 []) H g
       (api_request ''GET'' ''/rpc'') s = (Replied resp, s) \<and> rp_status resp = 405) \<and>
     (\<exists>resp. serve_request id (\<lambda>_. True) (snd (Shutdown (\<lambda>_. None) Second (New 8080 Second 8 []))) H g
       (api_request ''GET'' ''/healthz'') s = (Replied resp, s) \<and> rp_status resp = 503)"
proof (intro allI)
  fix H :: "(unit, unit) Handler" and g s
  have "mux (api_request ''GET'' ''/rpc'') = RouteRoot" "mux (api_request ''GET'' ''/healthz'') = RouteHealthz"
    "cq_Method (api_request ''GET'' ''/rpc'') \<noteq> ''POST''"
    by code_simp+
  with http_routes [of id "\<lambda>_. True" "New 8080 Second 8 []" H g "api_request ''GET'' ''/rpc''" s]
    http_routes [of id "\<lambda>_. True" "New 8080 Second 8 []" H g "api_request ''GET'' ''/healthz''" s
      8080 Second 8 "[]" "\<lambda>_. None" Second]
  show "(\<exists>resp. serve_request id (\<lambda>_. True) (New 8080 Second 8 []) H g
       (api_request ''GET'' ''/rpc'') s = (Replied resp, s) \<and> rp_status resp = 405) \<and>
     (\<exists>resp. serve_request id (\<lambda>_. True) (snd (Shutdown (\<lambda>_. None) Second (New 8080 Second 8 []))) H g
       (api_request ''GET'' ''/healthz'') s = (Replied resp, s) \<and> rp_status resp = 503)"
    by blast
qed

end
