(* ===== verification/LocalDemo.thy ===== *)
theory LocalDemo
  imports WsClient HttpApi
begin

text \<open>
  The demonstration of examples/local-demo: two fake upstreams that share a block counter, a proxy
  session between them and its routes, and the client.  The random number a connection draws, the
  ticks, the signals and the outcomes of writes are arguments; \<open>e\<close> stands for the blanks \<open>WriteJSON\<close>
  may put after a message.
\<close>

section \<open>The fake upstream\<close>

definition hex_lower :: "uint64 \<Rightarrow> string" where
  "hex_lower n = FormatUint 16 (uint n)"

definition pad_zeros :: "nat \<Rightarrow> string \<Rightarrow> string" where
  "pad_zeros k s = replicate (k - length s) (CHR ''0'') @ s"

definition fake_subID :: "uint64 \<Rightarrow> string" where
  "fake_subID r = ''0x'' @ pad_zeros 16 (hex_lower r)"

definition head_number :: "uint64 \<Rightarrow> string" where
  "head_number num = ''0x'' @ hex_lower num"

definition head_hash :: "uint64 \<Rightarrow> string" where
  "head_hash num = ''0xdeadbeef'' @ pad_zeros 8 (hex_lower num)"

text \<open>Maps are marshalled with their keys in order.\<close>

definition marshal_object :: "(string \<times> bytes) list \<Rightarrow> bytes" where
  "marshal_object ms = ''{'' @ join '','' (map (\<lambda>(k, v). json_member k v) ms) @ ''}''"

definition newHead :: "string \<Rightarrow> uint64 \<Rightarrow> bytes" where
  "newHead subID num =
     marshal_object
       [(''jsonrpc'', encode_string ''2.0''),
        (''method'', encode_string ''eth_subscription''),
        (''params'', marshal_object
           [(''result'', marshal_object
               [(''hash'', encode_string (head_hash num)), (''number'', encode_string (head_number num))]),
            (''subscription'', encode_string subID)])]"

definition fake_reply :: "string \<Rightarrow> bytes \<Rightarrow> bytes \<Rightarrow> frame list" where
  "fake_reply e i result =
     (case Marshal_raw i of
        None \<Rightarrow> []
      | Some v \<Rightarrow>
          [WriteJSON e (marshal_object [(''id'', v), (''jsonrpc'', encode_string ''2.0''), (''result'', result)])])"

record fakeUpstream =
  fu_name :: string
  fu_crashAfter :: duration

text \<open>
  One connection: its subscription id, whether \<open>subActive\<close> is closed, whether the goroutine that pushes
  blocks is alive, and whether the connection is open.
\<close>

record fake_conn =
  fk_subID :: string
  fk_subClosed :: bool
  fk_pushing :: bool
  fk_open :: bool

definition fake_accept :: "uint64 \<Rightarrow> fake_conn" where
  "fake_accept r = \<lparr>fk_subID = fake_subID r, fk_subClosed = False, fk_pushing = True, fk_open = True\<rparr>"

definition fake_request :: "string \<Rightarrow> bytes \<Rightarrow> uint64 \<Rightarrow> fake_conn \<Rightarrow> frame list \<times> fake_conn" where
  "fake_request e raw blockNum c =
     (case Unmarshal_ws_request raw of
        None \<Rightarrow> ([], c)
      | Some req \<Rightarrow>
          if wq_Method req = ''eth_subscribe'' then
            (fake_reply e (wq_ID req) (encode_string (fk_subID c)), c)
          else if wq_Method req = ''eth_unsubscribe'' then
            (fake_reply e (wq_ID req) ''true'', c\<lparr>fk_subClosed := True\<rparr>)
          else if wq_Method req = ''eth_blockNumber'' then
            (fake_reply e (wq_ID req) (encode_string (head_number blockNum)), c)
          else ([], c))"

text \<open>
  What happens to a connection: the ticker fires (and the write succeeds or not), the goroutine
  notices that \<open>subActive\<close> is closed, a request arrives, the crash timer fires, reading fails.
\<close>

datatype fake_event = Tick bool | PushEnds | Request bytes | Crash | Hangup

definition fake_step :: "fakeUpstream \<Rightarrow> string \<Rightarrow> fake_event \<Rightarrow> fake_conn \<times> uint64 \<Rightarrow>
    frame list \<times> fake_conn \<times> uint64" where
  "fake_step f e ev st =
     (let (c, blockNum) = st in
      case ev of
        Tick ok \<Rightarrow>
          if \<not> fk_pushing c then ([], c, blockNum)
          else
            (let num = blockNum + 1; ok' = (ok \<and> fk_open c) in
             ((if ok' then [WriteJSON e (newHead (fk_subID c) num)] else []), c\<lparr>fk_pushing := ok'\<rparr>, num))
      | PushEnds \<Rightarrow> ([], if fk_subClosed c then c\<lparr>fk_pushing := False\<rparr> else c, blockNum)
      | Request raw \<Rightarrow>
          if \<not> fk_open c then ([], c, blockNum)
          else (let (fs, c') = fake_request e raw blockNum c in (fs, c', blockNum))
      | Crash \<Rightarrow> ([], if 0 < fu_crashAfter f then c\<lparr>fk_open := False\<rparr> else c, blockNum)
      | Hangup \<Rightarrow> ([], c\<lparr>fk_open := False\<rparr>, blockNum))"

section \<open>The client\<close>

definition demo_rpc :: "int \<Rightarrow> string \<Rightarrow> string list \<Rightarrow> bytes" where
  "demo_rpc i m params =
     marshal_object
       [(''id'', Itoa i), (''jsonrpc'', encode_string ''2.0''), (''method'', encode_string m),
        (''params'', ''['' @ join '','' (map encode_string params) @ '']'')]"

definition demo_subReq :: bytes where
  "demo_subReq = demo_rpc 1 ''eth_subscribe'' [''newHeads'']"

record demo_subResp =
  ds_ID :: int
  ds_Result :: string

definition put_demo_subResp :: "string \<Rightarrow> bytes \<Rightarrow> json \<Rightarrow> demo_subResp \<Rightarrow> demo_subResp option" where
  "put_demo_subResp f raw v x =
     (if f = ''id'' then map_option (\<lambda>n. x\<lparr>ds_ID := n\<rparr>) (decode_int v (ds_ID x))
      else map_option (\<lambda>s. x\<lparr>ds_Result := s\<rparr>) (decode_string v (ds_Result x)))"

definition demo_clientSubID :: "bytes \<Rightarrow> string option" where
  "demo_clientSubID raw =
     map_option ds_Result
       (Decode_struct [''id'', ''result''] put_demo_subResp raw \<lparr>ds_ID = 0, ds_Result = []\<rparr>)"

record demo_notif =
  dn_Subscription :: string
  dn_Result :: WsClient.header

definition store_demo_params :: "string \<Rightarrow> bytes \<Rightarrow> json \<Rightarrow> demo_notif \<Rightarrow> demo_notif" where
  "store_demo_params f raw v x =
     (if f = ''subscription'' then x\<lparr>dn_Subscription := store_string v (dn_Subscription x)\<rparr>
      else x\<lparr>dn_Result := store_struct [''number'', ''hash''] store_header v (dn_Result x)\<rparr>)"

definition demo_notification :: "bytes \<Rightarrow> demo_notif" where
  "demo_notification raw =
     Unmarshal_ignore [''params'']
       (\<lambda>f raw v x. store_struct [''subscription'', ''result''] store_demo_params v x) raw
       \<lparr>dn_Subscription = [], dn_Result = zero_header\<rparr>"

definition store_rpcResponse :: "string \<Rightarrow> bytes \<Rightarrow> json \<Rightarrow> rpcResponse \<Rightarrow> rpcResponse" where
  "store_rpcResponse f raw v x =
     (if f = ''id'' then x\<lparr>rp_ID := store_int v (rp_ID x)\<rparr>
      else if f = ''result'' then x\<lparr>rp_Result := raw\<rparr>
      else x\<lparr>rp_Error := raw\<rparr>)"

text \<open>A line for a block says whether the id is the client's, and if not which it is.\<close>

datatype demo_output =
    HeadLine string string "string option"
  | DemoError int bytes
  | DemoResult int bytes

definition demo_show :: "string \<Rightarrow> bytes \<Rightarrow> demo_output" where
  "demo_show clientSubID raw =
     (if probe_method raw = ''eth_subscription'' then
        (let p = demo_notification raw in
         HeadLine (hd_Number (dn_Result p)) (hd_Hash (dn_Result p))
           (if dn_Subscription p \<noteq> clientSubID then Some (dn_Subscription p) else None))
      else
        (let resp = Unmarshal_ignore rpcResponse_fields store_rpcResponse raw zero_rpcResponse in
         if rp_Error resp \<noteq> [] \<and> rp_Error resp \<noteq> ''null'' then DemoError (rp_ID resp) (rp_Error resp)
         else DemoResult (rp_ID resp) (rp_Result resp)))"

datatype demo_action = DemoSent frame | DemoPrinted demo_output | DemoExited int

text \<open>The poll goroutine ignores failed writes; after the signal the proxy is shut down and the program ends.\<close>

definition demo_step :: "string \<Rightarrow> string \<Rightarrow> client_event \<Rightarrow> client_state \<Rightarrow> demo_action list \<times> client_state" where
  "demo_step e clientSubID ev s =
     (if \<not> cl_running s then ([], s)
      else
        (case ev of
           Poll ok \<Rightarrow>
             ((if ok then [DemoSent (WriteJSON e (demo_rpc (cl_reqID s) ''eth_blockNumber'' []))] else []),
              s\<lparr>cl_reqID := cl_reqID s + 1\<rparr>)
         | Signal ok \<Rightarrow>
             if cl_quitting s then ([], s)
             else
               ((if ok then [DemoSent (WriteJSON e (demo_rpc 999 ''eth_unsubscribe'' [clientSubID]))] else []),
                s\<lparr>cl_quitting := True\<rparr>)
         | PauseOver ok \<Rightarrow>
             if \<not> cl_quitting s then ([], s) else ([DemoExited 0], s\<lparr>cl_running := False\<rparr>)
         | Incoming raw \<Rightarrow> ([DemoPrinted (demo_show clientSubID raw)], s)
         | ReadFailed \<Rightarrow> ([DemoExited 0], s\<lparr>cl_running := False\<rparr>)))"

section \<open>The program\<close>

definition demo_flags :: "(string \<times> flag_kind) list" where
  "demo_flags = [(''proxy-port'', IntFlag), (''crash-after'', DurationFlag)]"

record demo_setup =
  dm_port :: int
  dm_upA :: fakeUpstream
  dm_upB :: fakeUpstream
  dm_blockNum :: uint64
  dm_pool :: Pool
  dm_replayPendingCap :: int

text \<open>\<open>urlA\<close> and \<open>urlB\<close> are the addresses the two test servers listen on.\<close>

definition demo_main :: "string \<Rightarrow> string \<Rightarrow> string list \<Rightarrow> int + demo_setup" where
  "demo_main urlA urlB args =
     (case flag_Parse demo_flags args of
        FlagExit code \<Rightarrow> Inl code
      | FlagsSet m \<Rightarrow>
          (let crashAfter = (case map_of m ''crash-after'' of Some (FDuration d) \<Rightarrow> d | _ \<Rightarrow> 10 * Second) in
           case NewPool [urlA, urlB] of
             Inl err \<Rightarrow> Inl 1
           | Inr pool \<Rightarrow>
               Inr \<lparr>dm_port = (case map_of m ''proxy-port'' of Some (FInt p) \<Rightarrow> p | _ \<Rightarrow> 9191),
                    dm_upA = \<lparr>fu_name = ''upstream-A'', fu_crashAfter = crashAfter\<rparr>,
                    dm_upB = \<lparr>fu_name = ''upstream-B'', fu_crashAfter = 0\<rparr>,
                    dm_blockNum = 0x1234567,
                    dm_pool = pool\<lparr>p_nodes := map (SetHealthy True) (p_nodes pool)\<rparr>,
                    dm_replayPendingCap = 1024\<rparr>))"

text \<open>The routes of the demonstration: the session, a reply for curl, and nothing else.\<close>

definition demo_serve :: "(int \<Rightarrow> int) \<Rightarrow> (client_req \<Rightarrow> bool) \<Rightarrow> demo_setup \<Rightarrow> client_req \<Rightarrow> served" where
  "demo_serve uni handshake d r =
     (let esc = EscapedPath (cq_URL r);
          path = (if cq_Method r = ''CONNECT'' then esc else cleanPath esc);
          elem = (if HasPrefix path ''/'' \<and> CHR ''/'' \<notin> set (tl path) then pathUnescape (tl path) else [])
      in if path \<noteq> esc
         then Redirected (URL_String (empty_URL\<lparr>u_Path := path, u_RawQuery := u_RawQuery (cq_URL r)\<rparr>))
         else if elem = ''ws'' then ServeWS uni handshake (dm_replayPendingCap d) [] r
         else if elem = ''ping''
         then Replied \<lparr>rp_status = 200,
                       rp_header = no_header(''Content-Type'' := [''text/plain; charset=utf-8'']),
                       rp_body = ''pong'' @ [CHR 0x0A]\<rparr>
         else Replied (http_Error no_header ''404 page not found'' 404))"

text \<open>The exit status when the proxy cannot listen; a closed server is no failure.\<close>

definition demo_listen :: "listen_end \<Rightarrow> int option" where
  "demo_listen e = (case e of ListenError m \<Rightarrow> Some 1 | _ \<Rightarrow> None)"

text \<open>The client connects, subscribes and reads the first message; any failure ends the program.\<close>

datatype demo_start = DemoFatal | DemoSubscribed string frame string

definition demo_connect :: "string \<Rightarrow> demo_setup \<Rightarrow> (string \<Rightarrow> bool) \<Rightarrow> bool \<Rightarrow> bytes option \<Rightarrow> demo_start" where
  "demo_connect e d dial ok answer =
     (let proxyURL = ''ws://localhost:'' @ Itoa (dm_port d) @ ''/ws'' in
      if \<not> dial proxyURL then DemoFatal
      else if \<not> ok then DemoFatal
      else
        (case answer of
           None \<Rightarrow> DemoFatal
         | Some raw \<Rightarrow>
             (case demo_clientSubID raw of
                None \<Rightarrow> DemoFatal
              | Some clientSubID \<Rightarrow> DemoSubscribed proxyURL (WriteJSON e demo_subReq) clientSubID)))"

text \<open>
  The path the client dials leads to a session with the buffer the demonstration asks for, whatever the
  origin; the reply for curl is there, and every other clean path is not found.
\<close>

lemma demo_routes:
  "EscapedPath (cq_URL r) = ''/ws'' \<Longrightarrow> handshake r \<Longrightarrow>
     demo_serve uni handshake d r = WsSession (newWSSession (dm_replayPendingCap d))"
  "EscapedPath (cq_URL r) = ''/ping'' \<Longrightarrow>
     \<exists>resp. demo_serve uni handshake d r = Replied resp \<and> rp_status resp = 200 \<and> rp_body resp = ''pong'' @ [CHR 0x0A]"
  "EscapedPath (cq_URL r) = ''/'' \<Longrightarrow>
     \<exists>resp. demo_serve uni handshake d r = Replied resp \<and> rp_status resp = 404"
proof -
  have "cleanPath ''/ws'' = ''/ws''" "cleanPath ''/ping'' = ''/ping''" "cleanPath ''/'' = ''/''"
    "pathUnescape ''ws'' = ''ws''" "pathUnescape ''ping'' = ''ping''" "pathUnescape [] = []"
    "HasPrefix ''/ws'' ''/''" "HasPrefix ''/ping'' ''/''" "HasPrefix ''/'' ''/''"
    by code_simp+
  note this [simp]
  show "EscapedPath (cq_URL r) = ''/ws'' \<Longrightarrow> handshake r \<Longrightarrow>
      demo_serve uni handshake d r = WsSession (newWSSession (dm_replayPendingCap d))"
    by (simp add: demo_serve_def Let_def ServeWS_def makeUpgrader_def normalised_def)
  show "EscapedPath (cq_URL r) = ''/ping'' \<Longrightarrow>
      \<exists>resp. demo_serve uni handshake d r = Replied resp \<and> rp_status resp = 200 \<and> rp_body resp = ''pong'' @ [CHR 0x0A]"
    by (simp add: demo_serve_def Let_def)
  show "EscapedPath (cq_URL r) = ''/'' \<Longrightarrow>
      \<exists>resp. demo_serve uni handshake d r = Replied resp \<and> rp_status resp = 404"
    by (simp add: demo_serve_def Let_def http_Error_def)
qed

section \<open>The messages as texts\<close>

definition head_text :: "string \<Rightarrow> uint64 \<Rightarrow> jtext" where
  "head_text u n =
     TObj [(''jsonrpc'', TStr ''2.0''), (''method'', TStr ''eth_subscription''),
       (''params'', TObj [(''result'', TObj [(''hash'', TStr (head_hash n)), (''number'', TStr (head_number n))]),
          (''subscription'', TStr u)])]"

lemma safe_words [simp]:
  "safe ''2.0''" "safe ''eth_subscription''" "safe ''eth_subscribe''" "safe ''hash''" "safe ''number''"
  "safe ''subscription''" "safe ''newHeads''"
  by code_simp+

lemma safe_append [simp]: "safe (s @ t) \<longleftrightarrow> safe s \<and> safe t"
  by (simp add: safe_def)

lemma safe_pad_zeros: "safe s \<Longrightarrow> safe (pad_zeros k s)"
proof -
  have "safe_char (CHR ''0'')" by code_simp
  then show "safe s \<Longrightarrow> safe (pad_zeros k s)" by (auto simp: pad_zeros_def safe_def list_all_iff)
qed

lemma safe_ids [simp]:
  "safe (fake_subID r)" "safe (head_number n)" "safe (head_hash n)"
proof -
  have hex: "safe (hex_lower n)" for n by (simp add: hex_lower_def safe_FormatUint)
  have "safe ''0x''" "safe ''0xdeadbeef''" by code_simp+
  with hex safe_pad_zeros [OF hex] show "safe (fake_subID r)" "safe (head_number n)" "safe (head_hash n)"
    unfolding fake_subID_def head_number_def head_hash_def safe_append by blast+
qed

lemma newHead_text: "safe u \<Longrightarrow> newHead u n = jprint (head_text u n)"
  by (simp add: newHead_def head_text_def marshal_object_def json_member_def)

lemma jok_head_text: "safe u \<Longrightarrow> jok 0 (head_text u n)"
  by (simp add: head_text_def)

definition reply_text :: "jtext \<Rightarrow> string \<Rightarrow> jtext" where
  "reply_text i u = TObj [(''id'', i), (''jsonrpc'', TStr ''2.0''), (''result'', TStr u)]"

lemma fake_reply_text:
  assumes "jok 1 i" and "safe u"
  shows "fake_reply e (jprint i) (encode_string u) = [WriteJSON e (jprint (reply_text i u))]"
    and "jok 0 (reply_text i u)"
  using assms Marshal_raw_jprint [OF jok_mono(1) [OF assms(1), of 0]]
  by (simp_all add: fake_reply_def reply_text_def marshal_object_def json_member_def)

section \<open>What each side reads\<close>

lemma match_envelope:
  "match_field [''id'', ''result'', ''method'', ''params''] ''jsonrpc'' = None"
  "match_field [''id'', ''result'', ''method'', ''params''] ''id'' = Some ''id''"
  "match_field [''id'', ''result'', ''method'', ''params''] ''result'' = Some ''result''"
  "match_field [''id'', ''result'', ''method'', ''params''] ''method'' = Some ''method''"
  "match_field [''id'', ''result'', ''method'', ''params''] ''params'' = Some ''params''"
  "match_field [''subscription''] ''result'' = None"
  "match_field [''subscription''] ''subscription'' = Some ''subscription''"
  by code_simp+

lemma match_reply:
  "match_field [''id'', ''result'', ''error''] ''jsonrpc'' = None"
  "match_field [''id'', ''result'', ''error''] ''id'' = Some ''id''"
  "match_field [''id'', ''result'', ''error''] ''result'' = Some ''result''"
  "match_field [''id'', ''result'', ''error''] ''method'' = None"
  "match_field [''id'', ''result'', ''error''] ''params'' = None"
  "match_field [''id'', ''result''] ''id'' = Some ''id''"
  "match_field [''id'', ''result''] ''jsonrpc'' = None"
  "match_field [''id'', ''result''] ''result'' = Some ''result''"
  by code_simp+

lemma match_shown:
  "match_field [''method''] ''jsonrpc'' = None" "match_field [''method''] ''method'' = Some ''method''"
  "match_field [''method''] ''params'' = None" "match_field [''params''] ''jsonrpc'' = None"
  "match_field [''params''] ''method'' = None" "match_field [''params''] ''params'' = Some ''params''"
  "match_field [''subscription'', ''result''] ''subscription'' = Some ''subscription''"
  "match_field [''subscription'', ''result''] ''result'' = Some ''result''"
  "match_field [''number'', ''hash''] ''number'' = Some ''number''"
  "match_field [''number'', ''hash''] ''hash'' = Some ''hash''"
  by code_simp+

lemmas decoding = Unmarshal_struct_def decode_struct_def decode_string_def decode_int_def
lemmas storing = Unmarshal_ignore_def store_struct_def store_string_def decode_string_def

lemma head_parse:
  "safe u \<Longrightarrow> list_all is_ws e \<Longrightarrow> json_parse (newHead u n @ e) = Some (jval (head_text u n))"
  by (simp add: newHead_text json_parse_jprint jok_head_text)

lemma head_envelope:
  "safe u \<Longrightarrow> list_all is_ws e \<Longrightarrow> Unmarshal_ws_envelope (newHead u n @ e) =
     Some \<lparr>we_ID = [], we_Result = [], we_Method = ''eth_subscription'', we_Params = Some u\<rparr>"
  by (simp add: Unmarshal_ws_envelope_def decoding head_parse)
     (simp add: head_text_def match_envelope put_ws_envelope_def put_ws_params_def decoding)

lemma head_no_reply:
  "safe u \<Longrightarrow> list_all is_ws e \<Longrightarrow> Unmarshal_ws_reply (newHead u n @ e) =
     Some \<lparr>wr_ID = [], wr_Result = [], wr_Err = []\<rparr>"
  by (simp add: Unmarshal_ws_reply_def decoding head_parse) (simp add: head_text_def match_reply)

lemma head_shown:
  "safe u \<Longrightarrow> list_all is_ws e \<Longrightarrow> demo_show c (newHead u n @ e) =
     HeadLine (head_number n) (head_hash n) (if u \<noteq> c then Some u else None)"
  by (simp add: demo_show_def probe_method_def demo_notification_def storing head_parse)
     (simp add: head_text_def match_shown storing store_demo_params_def store_header_def zero_header_def)

lemma head_rewritten:
  assumes "safe u" and "safe c" and "list_all is_ws e"
  shows "rewriteNotification (newHead u n @ e) c = Some (newHead c n)"
proof -
  let ?ps = "\<lambda>u. [(''result'', TObj [(''hash'', TStr (head_hash n)), (''number'', TStr (head_number n))]),
     (''subscription'', TStr u)]"
  let ?ms = "\<lambda>u. [(''jsonrpc'', TStr ''2.0''), (''method'', TStr ''eth_subscription''), (''params'', TObj (?ps u))]"
  have "rewriteNotification (jprint (TObj (?ms u)) @ e) c = Some (jprint (with_subscription c (?ps u) (?ms u)))"
    by (rule rewriteNotification_text) (use assms in simp_all)
  moreover have "with_subscription c (?ps u) (?ms u) = head_text c n"
    by (simp add: with_subscription_def go_map_def head_text_def)
  ultimately show ?thesis using assms by (simp add: newHead_text head_text_def)
qed

section \<open>Subscribing and replaying\<close>

definition sub_text :: "jtext \<Rightarrow> jtext" where
  "sub_text i =
     TObj [(''id'', i), (''jsonrpc'', TStr ''2.0''), (''method'', TStr ''eth_subscribe''), (''params'', strs [''newHeads''])]"

lemma jok_sub_text: "jok 1 i \<Longrightarrow> jok 0 (sub_text i)"
  by (simp add: sub_text_def strs_def)

lemma sub_text_request:
  "jok 1 i \<Longrightarrow> list_all is_ws e \<Longrightarrow> Unmarshal_ws_request (jprint (sub_text i) @ e) =
     Some \<lparr>wq_ID = jprint i, wq_Method = ''eth_subscribe'', wq_Params = jprint (strs [''newHeads''])\<rparr>"
  using json_parse_jprint [OF jok_sub_text, of i e]
  by (simp add: Unmarshal_ws_request_def decoding) (simp add: sub_text_def match_ws_request put_ws_request_def decoding)

lemma demo_subReq_text: "demo_subReq = jprint (sub_text (TNum ''1''))"
  by code_simp

lemma jok_one: "jok 1 (TNum ''1'')"
  by code_simp

lemma fake_subscribe:
  assumes "jok 1 i" and "list_all is_ws e" and "safe (fk_subID c)"
  shows "fake_request e' (jprint (sub_text i) @ e) n c = ([WriteJSON e' (jprint (reply_text i (fk_subID c)))], c)"
  using sub_text_request [OF assms(1,2)] fake_reply_text(1) [OF assms(1,3)] by (simp add: fake_request_def)

lemma reply_parse:
  "jok 1 i \<Longrightarrow> safe u \<Longrightarrow> list_all is_ws e \<Longrightarrow> json_parse (jprint (reply_text i u) @ e) = Some (jval (reply_text i u))"
  by (simp add: json_parse_jprint fake_reply_text(2))

lemma reply_envelope:
  "jok 1 i \<Longrightarrow> safe u \<Longrightarrow> list_all is_ws e \<Longrightarrow> Unmarshal_ws_envelope (jprint (reply_text i u) @ e) =
     Some \<lparr>we_ID = jprint i, we_Result = jprint (TStr u), we_Method = [], we_Params = None\<rparr>"
  by (simp add: Unmarshal_ws_envelope_def decoding reply_parse)
     (simp add: reply_text_def match_envelope put_ws_envelope_def decoding)

lemma reply_replayed:
  "jok 1 i \<Longrightarrow> safe u \<Longrightarrow> list_all is_ws e \<Longrightarrow> Unmarshal_ws_reply (jprint (reply_text i u) @ e) =
     Some \<lparr>wr_ID = jprint i, wr_Result = u, wr_Err = []\<rparr>"
  by (simp add: Unmarshal_ws_reply_def decoding reply_parse)
     (simp add: reply_text_def match_reply put_ws_reply_def decoding)

lemma Unmarshal_string_text: "safe u \<Longrightarrow> Unmarshal_string (jprint (TStr u)) = Some u"
  using json_parse_text [of "TStr u"] by (simp add: Unmarshal_string_def decoding del: jprint.simps)

lemma reply_subID:
  assumes "safe u" and "list_all is_ws e"
  shows "demo_clientSubID (jprint (reply_text (TNum ''1'') u) @ e) = Some u"
proof -
  have "ParseInt ''1'' = Some 1" by code_simp
  then show ?thesis
    unfolding demo_clientSubID_def Decode_jprint [OF fake_reply_text(2) [OF jok_one assms(1)] assms(2)]
    by (simp add: reply_text_def decoding match_reply put_demo_subResp_def)
qed

text \<open>The client subscribes through the proxy to the first upstream.\<close>

definition demo_subscribe :: "string \<Rightarrow> int \<Rightarrow> uint64 \<Rightarrow> fake_conn \<Rightarrow> (string \<times> wsSession) option" where
  "demo_subscribe e cap n c =
     (case forwardToUpstream (WriteJSON e demo_subReq) (newWSSession cap) of
        (ToUpstream q, s) \<Rightarrow>
          (case fst (fake_request e (fr_msg q) n c) of
             [answer] \<Rightarrow>
               (case forwardToClient answer s of
                  (Some g, s') \<Rightarrow> map_option (\<lambda>i. (i, s')) (demo_clientSubID (fr_msg g))
                | _ \<Rightarrow> None)
           | _ \<Rightarrow> None)
      | _ \<Rightarrow> None)"

text \<open>
  After the crash the session replays on the second, which has pushed the blocks \<open>early\<close> by the time it
  answers.
\<close>

definition demo_replay :: "string \<Rightarrow> uint64 list \<Rightarrow> uint64 \<Rightarrow> fake_conn \<Rightarrow> wsSession \<Rightarrow>
    (replay_error + frame list) \<times> wsSession" where
  "demo_replay e early n c s =
     (let subs = map snd (ws_subs s) in
      replaySubscriptions subs (map (\<lambda>_. True) subs)
        (map (\<lambda>k. WriteJSON e (newHead (fk_subID c) k)) early @
         concat (map (\<lambda>sub. case replay_request sub of
                    None \<Rightarrow> [] | Some req \<Rightarrow> fst (fake_request e req n c)) subs)) s)"

definition demo_session :: "int \<Rightarrow> string \<Rightarrow> string \<Rightarrow> wsSession" where
  "demo_session cap a u =
     \<lparr>ws_subs = [(a, \<lparr>sub_params = jprint (strs [''newHeads'']), sub_clientID = a, sub_upstreamID = u\<rparr>)],
      ws_upToClient = [(u, a)], ws_pending = [], ws_pingPeriod = upstreamPingPeriod,
      ws_pongWait = upstreamPongWait, ws_replayPendingCap = cap\<rparr>"

lemma demo_subscribe_session:
  assumes "list_all is_ws e" and "safe (fk_subID c)" and "fk_subID c \<noteq> []"
  shows "demo_subscribe e cap n c = Some (fk_subID c, demo_session cap (fk_subID c) (fk_subID c))"
proof -
  let ?u = "fk_subID c"
  have one: "jprint (TNum ''1'') = ''1''" by simp
  show ?thesis
    using sub_text_request [OF jok_one assms(1)] fake_subscribe [OF jok_one assms(1,2), of e n]
      reply_envelope [OF jok_one assms(2,1)] reply_subID [OF assms(2,1)] Unmarshal_string_text [OF assms(2)] assms(3)
    by (simp add: demo_subscribe_def forwardToUpstream_def demo_subReq_text WriteJSON_def newWSSession_def
        maxPendingSubscribes_def forwardToClient_def settle_def register_def demo_session_def one del: jprint.simps)
qed

lemma safe_replay_id: "safe a \<Longrightarrow> safe (replay_id a)"
proof -
  have "safe ''replay:''" by code_simp
  then show "safe a \<Longrightarrow> safe (replay_id a)" unfolding replay_id_def safe_append by blast
qed

lemma demo_replay_request:
  assumes "safe a"
  shows "replay_request \<lparr>sub_params = jprint (strs [''newHeads'']), sub_clientID = a, sub_upstreamID = u\<rparr> =
     Some (jprint (sub_text (TStr (replay_id a))))"
proof -
  have "Marshal_raw (jprint (strs [''newHeads''])) = Some (jprint (strs [''newHeads'']))"
    by (rule Marshal_raw_jprint) (simp add: jok_strs)
  with safe_replay_id [OF assms] show ?thesis
    by (simp add: replay_request_def sub_text_def json_member_def)
qed

lemma replay_holds_heads:
  assumes "safe u" and "list_all is_ws e" and "pr \<noteq> []"
  shows "int (length pf + length ks) \<le> ws_replayPendingCap s \<Longrightarrow>
     replay_recv (map (\<lambda>k. WriteJSON e (newHead u k)) ks @ fs) pr pf s =
     replay_recv fs pr (pf @ map (\<lambda>k. WriteJSON e (newHead u k)) ks) s"
proof (induction ks arbitrary: pf)
  case (Cons k ks)
  have "Unmarshal_string [] = None" by code_simp
  with assms have "replay_recv (map (\<lambda>k. WriteJSON e (newHead u k)) (k # ks) @ fs) pr pf s =
      replay_recv (map (\<lambda>k. WriteJSON e (newHead u k)) ks @ fs) pr (stash s (WriteJSON e (newHead u k)) pf) s"
    by (subst replay_recv.simps) (simp add: head_no_reply WriteJSON_def)
  also have "stash s (WriteJSON e (newHead u k)) pf = pf @ [WriteJSON e (newHead u k)]"
    using Cons.prems by (simp add: stash_def)
  finally show ?case using Cons by simp
qed simp

lemma demo_replay_session:
  assumes "list_all is_ws e" and "safe a" and "safe (fk_subID c)" and "fk_subID c \<noteq> []"
    and "int (length early) \<le> cap"
  shows "demo_replay e early n c (demo_session cap a a) =
     (Inr (map (\<lambda>k. WriteJSON e (newHead (fk_subID c) k)) early), demo_session cap a (fk_subID c))"
proof -
  let ?u = "fk_subID c" and ?i = "TStr (replay_id a)" and ?s = "demo_session cap a a"
  let ?sub = "\<lparr>sub_params = jprint (strs [''newHeads'']), sub_clientID = a, sub_upstreamID = a\<rparr>"
  let ?heads = "map (\<lambda>k. WriteJSON e (newHead ?u k)) early"
  have i: "jok 1 ?i" using safe_replay_id [OF assms(2)] by simp
  have "fake_request e (jprint (sub_text ?i)) n c = ([WriteJSON e (jprint (reply_text ?i ?u))], c)"
    using fake_subscribe [OF i _ assms(3), of "[]" e n] by simp
  then have "demo_replay e early n c ?s =
      replaySubscriptions [?sub] [True] (?heads @ [WriteJSON e (jprint (reply_text ?i ?u))]) ?s"
    using demo_replay_request [OF assms(2)] by (simp add: demo_replay_def demo_session_def)
  also have "\<dots> = replay_recv (?heads @ [WriteJSON e (jprint (reply_text ?i ?u))]) [(replay_id a, ?sub)] [] ?s"
    using demo_replay_request [OF assms(2)] by (simp add: replaySubscriptions_def)
  also have "\<dots> = replay_recv [WriteJSON e (jprint (reply_text ?i ?u))] [(replay_id a, ?sub)] ?heads ?s"
    using replay_holds_heads [OF assms(3,1), of "[(replay_id a, ?sub)]" "[]" early ?s] assms(5)
    by (simp add: demo_session_def)
  also have "\<dots> = (Inr ?heads, remap ?sub ?u ?s)"
    using reply_replayed [OF i assms(3,1)] Unmarshal_string_text [OF safe_replay_id [OF assms(2)]] assms(4)
    by (subst replay_recv.simps) (simp add: WriteJSON_def replay_recv.simps [of "[]"])
  also have "remap ?sub ?u ?s = demo_session cap a ?u"
    by (simp add: remap_def demo_session_def)
  finally show ?thesis .
qed

lemma demo_delivers:
  assumes "list_all is_ws e" and "safe a" and "safe u"
  shows "\<exists>g. forwardToClient (WriteJSON e (newHead u k)) (demo_session cap a u) = (Some g, demo_session cap a u) \<and>
     demo_show a (fr_msg g) = HeadLine (head_number k) (head_hash k) None"
  using head_envelope [OF assms(3,1), of k] head_rewritten [OF assms(3,2,1), of k]
    head_shown [OF assms(3,1), of a k] head_shown [OF assms(2), of "[]" a k]
  by (cases "u = a") (simp_all add: forwardToClient_def WriteJSON_def demo_session_def)

text \<open>Two nodes that accept are taken in turn.\<close>

lemma demo_connects_in_turn:
  assumes "demo_main urlA urlB args = Inr d"
  shows "connectUpstream (\<lambda>_ _. True) (dm_pool d) = (Some 0, (dm_pool d)\<lparr>p_counter := 1\<rparr>)"
    and "connectUpstream (\<lambda>_ _. True) ((dm_pool d)\<lparr>p_counter := 1\<rparr>) = (Some 1, (dm_pool d)\<lparr>p_counter := 2\<rparr>)"
proof -
  obtain x y where "p_nodes (dm_pool d) = [x, y]" "IsHealthy x" "IsHealthy y" "p_counter (dm_pool d) = 0"
    using assms by (auto simp: demo_main_def NewPool_def SetHealthy_def IsHealthy_def Let_def
        split: flag_result.splits sum.splits)
  then show "connectUpstream (\<lambda>_ _. True) (dm_pool d) = (Some 0, (dm_pool d)\<lparr>p_counter := 1\<rparr>)"
    "connectUpstream (\<lambda>_ _. True) ((dm_pool d)\<lparr>p_counter := 1\<rparr>) = (Some 1, (dm_pool d)\<lparr>p_counter := 2\<rparr>)"
    by (simp_all add: connectUpstream_def Next_def bump_def slot_def Let_def)
qed

section \<open>Properties\<close>

text \<open>
  Property C17.  The failover of the demonstration is invisible to its client, whatever ids and block
  numbers the upstreams hand out: the session connects to the first upstream and, after a crash, to
  the second; the client gets the id of its subscription from the first; the replay on the second
  succeeds and keeps the blocks pushed before its answer; and every block of the first before and of
  the second after the crash is shown with its number, its hash and the id the client knows.
\<close>

theorem demo_failover_invisible:
  assumes "demo_main urlA urlB args = Inr d" and "list_all is_ws e" and "length early \<le> 1024"
  shows "\<exists>s s'.
     fst (connectUpstream (\<lambda>_ _. True) (dm_pool d)) = Some 0 \<and>
     fst (connectUpstream (\<lambda>_ _. True) (snd (connectUpstream (\<lambda>_ _. True) (dm_pool d)))) = Some 1 \<and>
     demo_subscribe e (dm_replayPendingCap d) n (fake_accept ra) = Some (fake_subID ra, s) \<and>
     demo_replay e early m (fake_accept rb) s =
       (Inr (map (\<lambda>k. WriteJSON e (newHead (fake_subID rb) k)) early), s') \<and>
     (\<forall>k. \<exists>g. forwardToClient (WriteJSON e (newHead (fake_subID ra) k)) s = (Some g, s) \<and>
            demo_show (fake_subID ra) (fr_msg g) = HeadLine (head_number k) (head_hash k) None) \<and>
     (\<forall>k. \<exists>g. forwardToClient (WriteJSON e (newHead (fake_subID rb) k)) s' = (Some g, s') \<and>
            demo_show (fake_subID ra) (fr_msg g) = HeadLine (head_number k) (head_hash k) None)"
proof -
  let ?a = "fake_subID ra" and ?b = "fake_subID rb"
  have conn: "fk_subID (fake_accept r) = fake_subID r" "fake_subID r \<noteq> []" for r
    by (simp_all add: fake_accept_def fake_subID_def)
  have cap: "dm_replayPendingCap d = 1024"
    using assms(1) by (auto simp: demo_main_def Let_def split: flag_result.splits sum.splits)
  have "demo_subscribe e (dm_replayPendingCap d) n (fake_accept ra) = Some (?a, demo_session 1024 ?a ?a)"
    using demo_subscribe_session [OF assms(2), of "fake_accept ra" 1024 n] by (simp add: cap conn)
  moreover have "demo_replay e early m (fake_accept rb) (demo_session 1024 ?a ?a) =
      (Inr (map (\<lambda>k. WriteJSON e (newHead ?b k)) early), demo_session 1024 ?a ?b)"
    using demo_replay_session [OF assms(2), of ?a "fake_accept rb" early 1024 m] assms(3) by (simp add: conn)
  moreover note demo_delivers [OF assms(2), of ?a ?a _ 1024] demo_delivers [OF assms(2), of ?a ?b _ 1024]
    demo_connects_in_turn [OF assms(1)]
  ultimately show ?thesis
    by (intro exI [of _ "demo_session 1024 ?a ?a"] exI [of _ "demo_session 1024 ?a ?b"]) simp
qed

definition demo_default :: demo_setup where
  "demo_default = (case demo_main ''http://a'' ''http://b'' [] of Inr d \<Rightarrow> d)"

lemma demo_default: "demo_main ''http://a'' ''http://b'' [] = Inr demo_default"
proof -
  have "(case demo_main ''http://a'' ''http://b'' [] of Inl _ \<Rightarrow> False | Inr _ \<Rightarrow> True)" by code_simp
  then show ?thesis by (auto simp: demo_default_def split: sum.splits)
qed

theorem demo_failover_invisible_witness:
  "\<exists>s s'.
     fst (connectUpstream (\<lambda>_ _. True) (dm_pool demo_default)) = Some 0 \<and>
     fst (connectUpstream (\<lambda>_ _. True) (snd (connectUpstream (\<lambda>_ _. True) (dm_pool demo_default)))) = Some 1 \<and>
     demo_subscribe [CHR 0x0A] (dm_replayPendingCap demo_default) 7 (fake_accept 1) = Some (fake_subID 1, s) \<and>
     demo_replay [CHR 0x0A] [8] 8 (fake_accept 2) s =
       (Inr (map (\<lambda>k. WriteJSON [CHR 0x0A] (newHead (fake_subID 2) k)) [8]), s') \<and>
     (\<forall>k. \<exists>g. forwardToClient (WriteJSON [CHR 0x0A] (newHead (fake_subID 1) k)) s = (Some g, s) \<and>
            demo_show (fake_subID 1) (fr_msg g) = HeadLine (head_number k) (head_hash k) None) \<and>
     (\<forall>k. \<exists>g. forwardToClient (WriteJSON [CHR 0x0A] (newHead (fake_subID 2) k)) s' = (Some g, s') \<and>
            demo_show (fake_subID 1) (fr_msg g) = HeadLine (head_number k) (head_hash k) None)"
proof -
  have "list_all is_ws [CHR 0x0A]" by code_simp
  then show ?thesis using demo_failover_invisible [OF demo_default, of "[CHR 0x0A]" "[8]" 7 1 8 2] by simp
qed

text \<open>
  The fake upstream pushes blocks from the moment of the connection, whether or not anybody has
  subscribed; after an unsubscribe request and the end of its goroutine it pushes none, even to a
  client that subscribes again.
\<close>

lemma fake_pushes_unasked:
  "fst (fake_step f e (Tick True) (fake_accept r, n)) = [WriteJSON e (newHead (fake_subID r) (n + 1))]"
  by (simp add: fake_step_def fake_accept_def Let_def)

lemma fake_never_resumes:
  "\<not> fk_pushing c \<Longrightarrow> fake_step f e ev (c, n) = (fs, c', n') \<Longrightarrow> \<not> fk_pushing c' \<and> n' = n"
  by (auto simp: fake_step_def fake_request_def Let_def split: fake_event.splits if_splits option.splits prod.splits)

end
