(* ===== verification/WsHeartbeat.thy ===== *)
theory WsHeartbeat
  imports WsRun
begin

text \<open>
  The heartbeat of an upstream connection (\<open>pump\<close> of internal/proxy/ws.go).  A ping is sent with every
  tick, and the reader of the connection ends when its read deadline passes; the deadline is set when
  the pump starts and moved by every pong that is read before it.  Other frames do not move it.
\<close>

section \<open>Deadlines\<close>

definition read_deadline :: "wsSession \<Rightarrow> instant \<Rightarrow> instant" where
  "read_deadline s t = t + (ws_pingPeriod s + ws_pongWait s)"

text \<open>The deadline after the pongs at the given instants, in their order: the reader's end.\<close>

fun pongs_read :: "wsSession \<Rightarrow> instant list \<Rightarrow> instant \<Rightarrow> instant" where
  "pongs_read s [] deadline = deadline"
| "pongs_read s (t # ts) deadline =
     (if t < deadline then pongs_read s ts (read_deadline s t) else deadline)"

definition reader_end :: "wsSession \<Rightarrow> instant \<Rightarrow> instant list \<Rightarrow> instant" where
  "reader_end s start pongs = pongs_read s pongs (read_deadline s start)"

definition ping_at :: "wsSession \<Rightarrow> instant \<Rightarrow> nat \<Rightarrow> instant" where
  "ping_at s start k = start + int (Suc k) * ws_pingPeriod s"

section \<open>Properties\<close>

lemma pongs_read_prompt:
  assumes "\<forall>i < length ts. ping_at s start (k + i) \<le> ts ! i \<and> ts ! i < ping_at s start (k + i) + ws_pongWait s"
    and "ping_at s start k + ws_pongWait s \<le> d"
  shows "ping_at s start (k + length ts) + ws_pongWait s \<le> pongs_read s ts d"
  using assms
proof (induction ts arbitrary: k d)
  case (Cons t ts)
  have t: "ping_at s start k \<le> t" "t < ping_at s start k + ws_pongWait s"
    using Cons.prems(1) [rule_format, of 0] by simp_all
  have "ping_at s start (Suc k) + ws_pongWait s \<le> read_deadline s t"
    using t by (simp add: read_deadline_def ping_at_def distrib_right)
  moreover have "\<forall>i < length ts. ping_at s start (Suc k + i) \<le> ts ! i \<and> ts ! i < ping_at s start (Suc k + i) + ws_pongWait s"
    using Cons.prems(1) by (metis add_Suc_shift length_Cons Suc_mono nth_Cons_Suc)
  ultimately have "ping_at s start (Suc k + length ts) + ws_pongWait s \<le> pongs_read s ts (read_deadline s t)"
    by (intro Cons.IH)
  with t Cons.prems(2) show ?case by simp
qed simp

lemma pongs_read_last:
  assumes "0 \<le> ws_pingPeriod s + ws_pongWait s" and "\<forall>t \<in> set ts. t \<le> u" and "d \<le> read_deadline s u"
  shows "pongs_read s ts d \<le> read_deadline s u"
  using assms by (induction ts arbitrary: d) (auto simp: read_deadline_def)



end
