(* ===== verification/Health.thy ===== *)
theory Health
  imports Upstream Finality
begin

text \<open>
  Health checks (internal/upstream/health.go): the probe of one node, the round of concurrent
  probes of all nodes, the lag check that ends a round and the callback that moves the finality
  head.  What a node answers to a probe is a parameter of the model: a function from the HTTP
  request to the outcome of \<open>http.DefaultClient.Do\<close>.
\<close>

section \<open>HTTP client\<close>

record probe_request =
  pr_method :: string
  pr_URL :: URL
  pr_Host :: string
  pr_header :: "(string \<times> string) list"
  pr_body :: bytes

text \<open>
  A response has a status code and a body, which delivers some bytes and then ends or fails with a
  read error.
\<close>

datatype http_outcome =
    DoError string
  | Response int bytes "string option"

type_synonym client = "probe_request \<Rightarrow> http_outcome"

text \<open>\<open>io.ReadAll(io.LimitReader(body, n))\<close>: an error after the first \<open>n\<close> bytes is never seen.\<close>

definition ReadAll_limited :: "int \<Rightarrow> bytes \<Rightarrow> string option \<Rightarrow> string + bytes" where
  "ReadAll_limited n b err =
     (if n \<le> int (length b) then Inr (take (nat n) b)
      else (case err of None \<Rightarrow> Inr b | Some e \<Rightarrow> Inl e))"

section \<open>Probing one node\<close>

definition healthCheckPayload :: bytes where
  "healthCheckPayload =
     ''{\"jsonrpc\":\"2.0\",\"method\":\"eth_blockNumber\",\"params\":[],\"id\":1}''"

definition parseBlockNumber :: "string \<Rightarrow> uint64 option" where
  "parseBlockNumber hexStr =
     (if length hexStr < 2 \<or> take 2 hexStr \<noteq> ''0x'' then None else ParseUint 16 (drop 2 hexStr))"

definition wsToHTTP :: "string \<Rightarrow> string" where
  "wsToHTTP u =
     (if HasPrefix u ''wss://'' then ''https://'' @ drop 6 u
      else if HasPrefix u ''ws://'' then ''http://'' @ drop 5 u
      else u)"

text \<open>The local struct of \<open>validateRPCResponse\<close>: the error's message if there is one, the result.\<close>

record probe_reply =
  py_Error :: "string option"
  py_Result :: string

definition put_probe_error :: "string \<Rightarrow> bytes \<Rightarrow> json \<Rightarrow> string \<Rightarrow> string option" where
  "put_probe_error f raw v x = decode_string v x"

definition put_probe_reply :: "string \<Rightarrow> bytes \<Rightarrow> json \<Rightarrow> probe_reply \<Rightarrow> probe_reply option" where
  "put_probe_reply f raw v x =
     (if f = ''error'' then
        (case v of
           JNull \<Rightarrow> Some (x\<lparr>py_Error := None\<rparr>)
         | JObj ms \<Rightarrow>
             map_option (\<lambda>m. x\<lparr>py_Error := Some m\<rparr>)
               (decode_members [''Message''] put_probe_error ms
                  (case py_Error x of None \<Rightarrow> [] | Some m \<Rightarrow> m))
         | _ \<Rightarrow> None)
      else map_option (\<lambda>s. x\<lparr>py_Result := s\<rparr>) (decode_string v (py_Result x)))"

datatype rpc_problem =
    InvalidJSON
  | RPCErrorMessage string
  | EmptyResult
  | InvalidBlockNumber

definition validateRPCResponse :: "bytes \<Rightarrow> rpc_problem + uint64" where
  "validateRPCResponse body =
     (case Unmarshal_struct [''error'', ''result''] put_probe_reply body
             \<lparr>py_Error = None, py_Result = []\<rparr> of
        None \<Rightarrow> Inl InvalidJSON
      | Some rpcResp \<Rightarrow>
          (case py_Error rpcResp of
             Some m \<Rightarrow> Inl (RPCErrorMessage m)
           | None \<Rightarrow>
               if py_Result rpcResp = [] then Inl EmptyResult
               else (case parseBlockNumber (py_Result rpcResp) of
                       None \<Rightarrow> Inl InvalidBlockNumber
                     | Some blockHeight \<Rightarrow> Inr blockHeight)))"

datatype reason =
    Clean
  | BuildRequest
  | Unreachable string
  | RateLimited
  | HTTPStatus int
  | ReadBody string
  | RPCProblem rpc_problem

text \<open>The URL of a request made by \<open>http.NewRequest\<close>: a colon without a port is dropped from the host.\<close>

definition NewRequest_URL :: "string \<Rightarrow> URL option" where
  "NewRequest_URL s =
     map_option
       (\<lambda>u. u\<lparr>u_Host := if u_Host u \<noteq> [] \<and> last (u_Host u) = CHR '':'' then butlast (u_Host u) else u_Host u\<rparr>)
       (url_Parse s)"

definition probe_request_of :: "Upstream \<Rightarrow> probe_request option" where
  "probe_request_of node =
     map_option
       (\<lambda>u. \<lparr>pr_method = ''POST'', pr_URL = u, pr_Host = u_Host (n_URL node),
             pr_header = [(''Content-Type'', ''application/json'')], pr_body = healthCheckPayload\<rparr>)
       (NewRequest_URL (wsToHTTP (URL_String (n_URL node))))"

definition probeNode :: "client \<Rightarrow> Upstream \<Rightarrow> bool \<times> uint64 \<times> reason" where
  "probeNode net node =
     (case probe_request_of node of
        None \<Rightarrow> (False, 0, BuildRequest)
      | Some req \<Rightarrow>
          (case net req of
             DoError e \<Rightarrow> (False, 0, Unreachable e)
           | Response status b err \<Rightarrow>
               if status = 429 then (True, 0, RateLimited)
               else if status \<noteq> 200 then (False, 0, HTTPStatus status)
               else
                 (case ReadAll_limited (1 * 1024 * 1024) b err of
                    Inl e \<Rightarrow> (False, 0, ReadBody e)
                  | Inr body \<Rightarrow>
                      (case validateRPCResponse body of
                         Inl p \<Rightarrow> (False, 0, RPCProblem p)
                       | Inr height \<Rightarrow> (True, height, Clean)))))"

text \<open>The log lines of \<open>checkNode\<close>.\<close>

datatype health_log =
    Degraded string reason
  | Recovered string uint64
  | StillOk string uint64 reason
  | StillDegraded string reason

definition checkNode :: "client \<Rightarrow> Upstream \<Rightarrow> Upstream \<times> health_log" where
  "checkNode net node =
     (let wasHealthy = IsHealthy node;
          (healthy, blockHeight, why) = probeNode net node;
          node' = SetHealthy healthy node;
          node'' = (if 0 < blockHeight then SetBlockHeight blockHeight node' else node');
          host = u_Host (n_URL node)
      in (node'',
          if wasHealthy \<and> \<not> healthy then Degraded host why
          else if \<not> wasHealthy \<and> healthy then Recovered host blockHeight
          else if healthy then StillOk host blockHeight why
          else StillDegraded host why))"

section \<open>A round of probes\<close>

text \<open>
  The body of the ticker case: all nodes are probed, then lagging nodes are marked and the
  callback receives the best height.  \<open>main\<close> passes one callback, \<open>FinalityChecker.SetHead\<close>.
\<close>

definition probe_all :: "client \<Rightarrow> Pool \<Rightarrow> Pool" where
  "probe_all net p = p\<lparr>p_nodes := map (\<lambda>n. fst (checkNode net n)) (p_nodes p)\<rparr>"

definition health_round ::
  "client \<Rightarrow> uint64 \<Rightarrow> Pool \<times> FinalityChecker \<Rightarrow> Pool \<times> FinalityChecker" where
  "health_round net lagThreshold = (\<lambda>(p, fc).
     let (bestHeight, p') = markLaggingNodes lagThreshold (probe_all net p)
     in (p', SetHead bestHeight fc))"

text \<open>
  The loop: in each turn the ticker fires, and \<open>net\<close> is the network of that round, or the context is
  cancelled.  The first component says whether the channel \<open>done\<close> is closed.
\<close>

datatype health_event = Ticked client | Cancelled

fun StartHealthChecks :: "uint64 \<Rightarrow> health_event list \<Rightarrow> Pool \<times> FinalityChecker \<Rightarrow>
    bool \<times> Pool \<times> FinalityChecker" where
  "StartHealthChecks lagThreshold [] st = (False, st)"
| "StartHealthChecks lagThreshold (Cancelled # evs) st = (True, st)"
| "StartHealthChecks lagThreshold (Ticked net # evs) st =
     StartHealthChecks lagThreshold evs (health_round net lagThreshold st)"

text \<open>
  In the code the nodes are probed by one goroutine each.  A goroutine reads the health of its
  node and sends the probe, then sets the health, then (if a height was seen) the height; these
  steps of different goroutines interleave freely, and \<open>wg.Wait()\<close> lets the round go on when
  all of them have finished.
\<close>

datatype pc =
    Spawned
  | Probed bool uint64
  | HealthSet uint64
  | Finished

record round =
  rd_nodes :: "Upstream list"
  rd_pcs :: "pc list"

definition round_start :: "Upstream list \<Rightarrow> round" where
  "round_start ns = \<lparr>rd_nodes = ns, rd_pcs = replicate (length ns) Spawned\<rparr>"

definition round_done :: "round \<Rightarrow> bool" where
  "round_done r \<longleftrightarrow> list_all (\<lambda>c. c = Finished) (rd_pcs r)"

inductive round_step :: "client \<Rightarrow> round \<Rightarrow> round \<Rightarrow> bool" for net where
  step_probe: "i < length (rd_pcs r) \<Longrightarrow> rd_pcs r ! i = Spawned \<Longrightarrow>
     probeNode net (rd_nodes r ! i) = (healthy, h, why) \<Longrightarrow>
     round_step net r
       \<lparr>rd_nodes = rd_nodes r, rd_pcs = (rd_pcs r)[i := Probed healthy h]\<rparr>"
| step_health: "i < length (rd_pcs r) \<Longrightarrow> rd_pcs r ! i = Probed healthy h \<Longrightarrow>
     round_step net r
       \<lparr>rd_nodes = (rd_nodes r)[i := SetHealthy healthy (rd_nodes r ! i)],
        rd_pcs = (rd_pcs r)[i := HealthSet h]\<rparr>"
| step_height: "i < length (rd_pcs r) \<Longrightarrow> rd_pcs r ! i = HealthSet h \<Longrightarrow>
     round_step net r
       \<lparr>rd_nodes = (if 0 < h then (rd_nodes r)[i := SetBlockHeight h (rd_nodes r ! i)]
                    else rd_nodes r),
        rd_pcs = (rd_pcs r)[i := Finished]\<rparr>"

inductive_cases round_stepE: "round_step net r r'"

section \<open>Lemmas on one probe\<close>

lemma parseBlockNumber_hex:
  "parseBlockNumber s = (if HasPrefix s ''0x'' then parseHexBlock s else None)"
  by (auto simp: parseBlockNumber_def parseHexBlock_def HasPrefix_def numeral_2_eq_2)

text \<open>A probe depends on the node's URL alone, and leaves URL and capabilities alone.\<close>

lemma probeNode_URL: "n_URL n = n_URL n' \<Longrightarrow> probeNode net n = probeNode net n'"
  by (simp add: probeNode_def probe_request_of_def)

lemma checkNode_node:
  assumes "probeNode net n = (healthy, h, why)"
  shows "fst (checkNode net n) =
           n\<lparr>n_healthy := healthy, n_blockHeight := if h = 0 then n_blockHeight n else h\<rparr>"
  using assms by (auto simp: checkNode_def Let_def node_defs word_neq_0_conv)

lemma checkNode_steps:
  assumes "probeNode net n = (healthy, h, why)"
  shows "(if 0 < h then SetBlockHeight h (SetHealthy healthy n) else SetHealthy healthy n) =
           fst (checkNode net n)"
  using assms by (simp add: checkNode_def Let_def)

lemma probeNode_height: "probeNode net n = (healthy, h, why) \<Longrightarrow> h \<noteq> 0 \<Longrightarrow> healthy \<and> why = Clean"
  by (auto simp: probeNode_def split: option.splits http_outcome.splits if_splits sum.splits)

section \<open>Interleavings of a round\<close>

text \<open>What a goroutine has made of its node so far.\<close>

fun progress :: "client \<Rightarrow> Upstream \<Rightarrow> pc \<Rightarrow> Upstream \<Rightarrow> bool" where
  "progress net n0 Spawned n \<longleftrightarrow> n = n0"
| "progress net n0 (Probed b h) n \<longleftrightarrow> n = n0 \<and> (\<exists>why. probeNode net n0 = (b, h, why))"
| "progress net n0 (HealthSet h) n \<longleftrightarrow>
     (\<exists>b why. probeNode net n0 = (b, h, why) \<and> n = SetHealthy b n0)"
| "progress net n0 Finished n \<longleftrightarrow> n = fst (checkNode net n0)"

definition round_inv :: "client \<Rightarrow> Upstream list \<Rightarrow> round \<Rightarrow> bool" where
  "round_inv net ns r \<longleftrightarrow>
     length (rd_nodes r) = length ns \<and> length (rd_pcs r) = length ns \<and>
     (\<forall>i < length ns. progress net (ns ! i) (rd_pcs r ! i) (rd_nodes r ! i))"

fun steps_left :: "pc \<Rightarrow> nat" where
  "steps_left Spawned = 3"
| "steps_left (Probed b h) = 2"
| "steps_left (HealthSet h) = 1"
| "steps_left Finished = 0"

definition work :: "round \<Rightarrow> nat" where
  "work r = sum_list (map steps_left (rd_pcs r))"

lemma sum_list_update_less:
  "i < length xs \<Longrightarrow> f (xs ! i) = Suc (f x) \<Longrightarrow>
     sum_list (map f xs) = Suc (sum_list (map f (xs[i := x])))" for f :: "'a \<Rightarrow> nat"
  by (induction xs arbitrary: i) (auto split: nat.splits)

lemma round_inv_start: "round_inv net ns (round_start ns)"
  by (simp add: round_inv_def round_start_def)

lemma round_inv_update:
  assumes "round_inv net ns r" and "i < length (rd_pcs r)"
    and "progress net (ns ! i) c n"
  shows "round_inv net ns \<lparr>rd_nodes = (rd_nodes r)[i := n], rd_pcs = (rd_pcs r)[i := c]\<rparr>"
  using assms by (auto simp: round_inv_def nth_list_update)

lemma round_inv_at:
  assumes "round_inv net ns r" and "i < length (rd_pcs r)"
  shows "progress net (ns ! i) (rd_pcs r ! i) (rd_nodes r ! i)"
  using assms by (simp add: round_inv_def)

lemma round_step_inv:
  assumes "round_step net r r'" and "round_inv net ns r"
  shows "round_inv net ns r' \<and> work r = Suc (work r')"
  using assms(1)
proof cases
  case (step_probe i healthy h why)
  have "progress net (ns ! i) (Probed healthy h) (rd_nodes r ! i)"
    using round_inv_at [OF assms(2) step_probe(2)] step_probe by auto
  from round_inv_update [OF assms(2) step_probe(2) this] step_probe show ?thesis
    by (auto simp: work_def sum_list_update_less [of i _ steps_left "Probed healthy h"])
next
  case (step_health i healthy h)
  have "progress net (ns ! i) (HealthSet h) (SetHealthy healthy (rd_nodes r ! i))"
    using round_inv_at [OF assms(2) step_health(2)] step_health by auto
  from round_inv_update [OF assms(2) step_health(2) this] step_health show ?thesis
    by (auto simp: work_def sum_list_update_less [of i _ steps_left "HealthSet h"])
next
  case (step_height i h)
  have "progress net (ns ! i) Finished
      (if 0 < h then SetBlockHeight h (rd_nodes r ! i) else rd_nodes r ! i)"
    using round_inv_at [OF assms(2) step_height(2)] step_height checkNode_steps by fastforce
  from round_inv_update [OF assms(2) step_height(2) this] step_height show ?thesis
    by (auto simp: work_def sum_list_update_less [of i _ steps_left Finished])
qed

lemma round_steps_inv:
  assumes "(round_step net ^^ k) r r'" and "round_inv net ns r"
  shows "round_inv net ns r' \<and> work r = k + work r'"
  using assms
proof (induction k arbitrary: r')
  case 0
  then show ?case by simp
next
  case (Suc k)
  then obtain q where "(round_step net ^^ k) r q" "round_step net q r'" by auto
  with Suc.IH Suc.prems(2) round_step_inv show ?case by fastforce
qed

lemma work_start: "work (round_start ns) = 3 * length ns"
  by (simp add: work_def round_start_def sum_list_replicate)

lemma steps_left_0 [simp]: "steps_left c = 0 \<longleftrightarrow> c = Finished"
  by (cases c) auto

lemma work_0: "work r = 0 \<longleftrightarrow> round_done r"
  by (simp add: work_def round_done_def list_all_iff)

lemma round_progress:
  assumes "\<not> round_done r"
  shows "\<exists>r'. round_step net r r'"
proof -
  obtain i where i: "i < length (rd_pcs r)" "rd_pcs r ! i \<noteq> Finished"
    using assms by (auto simp: round_done_def list_all_length)
  show ?thesis
  proof (cases "rd_pcs r ! i")
    case Spawned
    obtain b h w where "probeNode net (rd_nodes r ! i) = (b, h, w)" by (metis prod_cases3)
    with i Spawned show ?thesis using step_probe by blast
  qed (use i step_health step_height in blast)+
qed

lemma round_done_nodes:
  assumes "round_inv net ns r" and "round_done r"
  shows "rd_nodes r = map (\<lambda>n. fst (checkNode net n)) ns"
  using assms
  by (intro nth_equalityI) (auto simp: round_inv_def round_done_def list_all_length)

section \<open>Properties\<close>

text \<open>
  Property C15.  However the goroutines of a round are scheduled, the round comes to its end after
  exactly three steps per node, it is never stuck before, and the nodes are then what probing them
  one after the other would have made of them.
\<close>

theorem round_schedule_independent:
  assumes "(round_step net ^^ k) (round_start (p_nodes p)) r"
  shows "k \<le> 3 * length (p_nodes p) \<and>
         (round_done r \<longleftrightarrow> k = 3 * length (p_nodes p)) \<and>
         (\<not> round_done r \<longrightarrow> (\<exists>r'. round_step net r r')) \<and>
         (round_done r \<longrightarrow> p\<lparr>p_nodes := rd_nodes r\<rparr> = probe_all net p)"
proof -
  have inv: "round_inv net (p_nodes p) r" and "3 * length (p_nodes p) = k + work r"
    using round_steps_inv [OF assms round_inv_start] by (simp_all add: work_start)
  then show ?thesis
    using round_progress work_0 [of r] round_done_nodes [OF inv]
    by (auto simp: probe_all_def)
qed

lemma round_steps_add:
  "(round_step net ^^ k) r q \<Longrightarrow> round_step net q r' \<Longrightarrow> (round_step net ^^ Suc k) r r'"
  by auto

theorem round_schedule_independent_witness:
  "\<exists>r. (round_step (\<lambda>_. DoError ''refused'') ^^ 3) (round_start [demo_node True 1 7]) r \<and>
       round_done r \<and>
       \<lparr>p_nodes = rd_nodes r, p_counter = 0\<rparr> =
         probe_all (\<lambda>_. DoError ''refused'') \<lparr>p_nodes = [demo_node True 1 7], p_counter = 0\<rparr>"
proof -
  let ?net = "\<lambda>_. DoError ''refused''" and ?n = "demo_node True 1 7"
  obtain b h w where probe: "probeNode ?net ?n = (b, h, w)" by (metis prod_cases3)
  let ?n2 = "SetHealthy b ?n" and ?n3 = "if 0 < h then SetBlockHeight h (SetHealthy b ?n) else SetHealthy b ?n"
  have "round_step ?net (round_start [?n]) \<lparr>rd_nodes = [?n], rd_pcs = [Probed b h]\<rparr>"
    using step_probe [of 0 "round_start [?n]" ?net b h w] probe by (simp add: round_start_def)
  moreover have "round_step ?net \<lparr>rd_nodes = [?n], rd_pcs = [Probed b h]\<rparr>
      \<lparr>rd_nodes = [?n2], rd_pcs = [HealthSet h]\<rparr>"
    using step_health [of 0 "\<lparr>rd_nodes = [?n], rd_pcs = [Probed b h]\<rparr>" b h ?net] by simp
  moreover have "round_step ?net \<lparr>rd_nodes = [?n2], rd_pcs = [HealthSet h]\<rparr>
      \<lparr>rd_nodes = [?n3], rd_pcs = [Finished]\<rparr>"
    using step_height [of 0 "\<lparr>rd_nodes = [?n2], rd_pcs = [HealthSet h]\<rparr>" h ?net]
    by (simp split: if_splits)
  ultimately have steps: "(round_step ?net ^^ 3) (round_start (p_nodes \<lparr>p_nodes = [?n], p_counter = 0\<rparr>))
      \<lparr>rd_nodes = [?n3], rd_pcs = [Finished]\<rparr>"
    unfolding numeral_3_eq_3 using round_steps_add by fastforce
  from round_schedule_independent [OF steps] show ?thesis
    using steps by (intro exI) (auto simp: round_done_def)
qed

text \<open>
  Property C24.  What one round does to a node: it is in service afterwards exactly when its probe
  succeeded (or was answered 429) and its height, the fresh one or else the last known one, is
  within the threshold of the best height; the finality head becomes that best height, which no
  node in service exceeds.
\<close>

theorem health_round_node:
  assumes "health_round net threshold (p, fc) = (p', fc')"
    and "i < length (p_nodes p)" and "n = p_nodes p ! i"
    and "probeNode net n = (ok, h, why)"
    and "height = (if h = 0 then n_blockHeight n else h)"
  shows "p_nodes p' ! i =
           n\<lparr>n_healthy := ok \<and> unat (fc_head fc') \<le> unat height + unat threshold,
             n_blockHeight := height\<rparr> \<and>
         (ok \<longrightarrow> height \<le> fc_head fc') \<and>
         (fc_head fc' = 0 \<or> (\<exists>m \<in> set (p_nodes p'). IsHealthy m \<and> BlockHeight m = fc_head fc'))"
proof -
  let ?q = "probe_all net p"
  obtain best where round: "markLaggingNodes threshold ?q = (best, p')" and head: "fc_head fc' = best"
    using assms(1) by (auto simp: health_round_def SetHead_def split: prod.splits)
  note nth = markLaggingNodes_nth [OF round]
  have i: "i < length (p_nodes ?q)" and qi: "p_nodes ?q ! i = n\<lparr>n_healthy := ok, n_blockHeight := height\<rparr>"
    using assms(2-5) checkNode_node [of net n ok h why] by (simp_all add: probe_all_def)
  have "height \<le> best" if ok
    using best_height_ge [OF nth_mem [OF i]] nth(1) qi that by (simp add: node_defs)
  with nth(4) [OF i] qi head markLaggingNodes_best [OF round] show ?thesis
    by simp
qed

theorem health_round_node_witness:
  "\<not> IsHealthy (p_nodes (fst (health_round (\<lambda>_. DoError ''refused'') 10
       (\<lparr>p_nodes = [demo_node True 1 7], p_counter = 0\<rparr>, NewFinalityChecker 12))) ! 0)"
proof -
  let ?net = "\<lambda>_. DoError ''refused''" and ?n = "demo_node True 1 7"
  let ?p = "\<lparr>p_nodes = [?n], p_counter = 0\<rparr>"
  obtain p' fc' where round: "health_round ?net 10 (?p, NewFinalityChecker 12) = (p', fc')"
    by (cases "health_round ?net 10 (?p, NewFinalityChecker 12)")
  obtain ok h why where probe: "probeNode ?net ?n = (ok, h, why)" by (metis prod_cases3)
  then have "\<not> ok"
    by (auto simp: probeNode_def split: option.splits)
  with health_round_node [OF round, of 0 ?n ok h why _, OF _ _ probe refl] round show ?thesis
    by (simp add: node_defs)
qed

text \<open>
  Property C36.  A rate-limited node is not kept in service by its probe alone: a node that answers
  429 in a round while its last known height (zero if no probe has succeeded yet) is further than
  the threshold behind the best node leaves that round out of service.
\<close>

theorem rate_limited_node_marked:
  assumes "health_round net threshold (p, fc) = (p', fc')"
    and "i < length (p_nodes p)" and "probeNode net (p_nodes p ! i) = (True, 0, RateLimited)"
    and "j < length (p_nodes p)" and "probeNode net (p_nodes p ! j) = (True, h, Clean)"
    and "unat (BlockHeight (p_nodes p ! i)) + unat threshold < unat h"
  shows "\<not> IsHealthy (p_nodes p' ! i)"
proof -
  let ?q = "probe_all net p"
  obtain best where round: "markLaggingNodes threshold ?q = (best, p')"
    using assms(1) by (auto simp: health_round_def split: prod.splits)
  note nth = markLaggingNodes_nth [OF round]
  have "h \<noteq> 0" using assms(6) by auto
  have qi: "p_nodes ?q ! i = (p_nodes p ! i)\<lparr>n_healthy := True\<rparr>"
    using checkNode_node [OF assms(3)] assms(2) by (simp add: probe_all_def)
  have qj: "p_nodes ?q ! j = (p_nodes p ! j)\<lparr>n_healthy := True, n_blockHeight := h\<rparr>"
    using checkNode_node [OF assms(5)] assms(4) \<open>h \<noteq> 0\<close> by (simp add: probe_all_def)
  have len: "length (p_nodes ?q) = length (p_nodes p)" by (simp add: probe_all_def)
  have "h \<le> best"
    using best_height_ge [OF nth_mem [of j "p_nodes ?q"]] nth(1) qj assms(4) len
    by (simp add: node_defs)
  then have "unat (BlockHeight (p_nodes p ! i)) + unat threshold < unat best"
    using assms(6) by (simp add: word_le_nat_alt)
  then show ?thesis
    using nth(4) [of i] assms(2) len qi by (simp add: node_defs)
qed

definition limited_host :: client where
  "limited_host r =
     (if pr_Host r = ''b'' then Response 200 ''{\"result\":\"0x64\"}'' None else Response 429 [] None)"

theorem rate_limited_node_marked_witness:
  "\<not> IsHealthy (p_nodes (fst (health_round limited_host 10
       (\<lparr>p_nodes = [demo_node True 1 0, (demo_node True 1 0)\<lparr>n_URL := empty_URL\<lparr>u_Host := ''b''\<rparr>\<rparr>],
         p_counter = 0\<rparr>, NewFinalityChecker 12))) ! 0)"
proof -
  let ?a = "demo_node True 1 0"
  let ?b = "?a\<lparr>n_URL := empty_URL\<lparr>u_Host := ''b''\<rparr>\<rparr>"
  let ?p = "\<lparr>p_nodes = [?a, ?b], p_counter = 0\<rparr>"
  obtain p' fc' where round: "health_round limited_host 10 (?p, NewFinalityChecker 12) = (p', fc')"
    by (cases "health_round limited_host 10 (?p, NewFinalityChecker 12)")
  have "probeNode limited_host ?a = (True, 0, RateLimited)"
    by code_simp
  moreover have "probeNode limited_host ?b = (True, 100, Clean)"
    by code_simp
  ultimately show ?thesis
    using rate_limited_node_marked [OF round, of 0 1 100] round
    by (simp add: node_defs demo_node_def)
qed

text \<open>
  Property C33.  A well-formed reply is understood for every height: the body an Ethereum node
  sends for \<open>eth_blockNumber\<close> at height \<open>h\<close> validates to exactly \<open>h\<close>.
\<close>

theorem validate_reply_roundtrip:
  "validateRPCResponse
     (''{\"jsonrpc\":\"2.0\",\"id\":1,\"result\":\"0x'' @ FormatUint 16 (uint h) @ ''\"}'') = Inr h"
proof -
  let ?s = "''{\"jsonrpc\":\"2.0\",\"id\":1,\"result\":\"0x'' @ FormatUint 16 (uint h) @ ''\"}''"
  have "list_all plain_char (''0x'' @ FormatUint 16 (uint h))"
    by (simp add: plain_FormatUint) (simp add: plain_char_def)
  note str = scan_string_plain [OF this, simplified] unquote_plain [OF this, simplified]
  obtain a b c where "json_parse ?s =
      Some (JObj [(''jsonrpc'', a, JStr ''2.0''), (''id'', b, JNum ''1''),
                  (''result'', c, JStr (''0x'' @ FormatUint 16 (uint h)))])"
    unfolding json_parse_more [of _ "Suc (Suc (Suc (Suc (Suc (Suc 0)))))"]
    by (simp add: parser_defs str scan_number_digit is_digit_def)
  then show ?thesis
    by (simp add: validateRPCResponse_def Unmarshal_struct_def decode_struct_def match_field_def
        put_probe_reply_def decode_string_def parseBlockNumber_hex parseHexBlock_def
        ParseUint_FormatUint)
qed

section \<open>Every height was reported\<close>

fun rounds :: "health_event list \<Rightarrow> client list" where
  "rounds (Ticked net # evs) = net # rounds evs"
| "rounds _ = []"

definition reports :: "client list \<Rightarrow> Upstream list \<Rightarrow> uint64 set" where
  "reports nets ns = {h. h \<noteq> 0 \<and> (\<exists>net \<in> set nets. \<exists>n \<in> set ns. fst (snd (probeNode net n)) = h)}"

definition heights_in :: "uint64 set \<Rightarrow> Upstream list \<Rightarrow> Upstream list \<Rightarrow> bool" where
  "heights_in R ns ms \<longleftrightarrow>
     map n_URL ms = map n_URL ns \<and> (\<forall>m \<in> set ms. BlockHeight m = 0 \<or> BlockHeight m \<in> R)"

lemma checkNode_URL: "n_URL (fst (checkNode net n)) = n_URL n"
  using checkNode_node [of net n] by (cases "probeNode net n") simp

lemma heights_in_nth:
  assumes "heights_in R ns q" and "length q' = length q"
    and "\<And>i. i < length q \<Longrightarrow> n_URL (q' ! i) = n_URL (q ! i) \<and> n_blockHeight (q' ! i) = n_blockHeight (q ! i)"
  shows "heights_in R ns q'"
proof -
  have "map n_URL q' = map n_URL q" using assms(2,3) by (auto intro: nth_equalityI)
  with assms show ?thesis by (auto simp: heights_in_def node_defs in_set_conv_nth) (metis nth_mem)
qed

lemma health_round_heights:
  assumes "health_round net threshold (p, fc) = (p', fc')" and "heights_in R ns (p_nodes p)"
    and "reports [net] ns \<subseteq> R"
  shows "heights_in R ns (p_nodes p')" and "fc_head fc' = 0 \<or> fc_head fc' \<in> R" and "fc_depth fc' = fc_depth fc"
proof -
  let ?q = "map (\<lambda>n. fst (checkNode net n)) (p_nodes p)"
  have urls: "map n_URL ?q = map n_URL ns"
    using assms(2) by (simp add: heights_in_def comp_def checkNode_URL)
  have "BlockHeight (fst (checkNode net n)) = 0 \<or> BlockHeight (fst (checkNode net n)) \<in> R" if "n \<in> set (p_nodes p)" for n
  proof -
    obtain ok h why where probe: "probeNode net n = (ok, h, why)" by (metis prod_cases3)
    have "n_URL n \<in> n_URL ` set ns"
      using that assms(2) by (metis heights_in_def image_eqI list.set_map)
    then obtain m where "m \<in> set ns" "n_URL m = n_URL n" by auto
    then have "h \<noteq> 0 \<Longrightarrow> h \<in> R"
      using assms(3) probeNode_URL [of m n net] probe by (force simp: reports_def)
    with checkNode_node [OF probe] assms(2) that show ?thesis by (auto simp: heights_in_def node_defs)
  qed
  with urls have q: "heights_in R ns ?q" by (auto simp: heights_in_def)
  obtain best where round: "markLaggingNodes threshold (probe_all net p) = (best, p')" and fc': "fc' = SetHead best fc"
    using assms(1) by (auto simp: health_round_def split: prod.splits)
  show nodes: "heights_in R ns (p_nodes p')"
    by (rule heights_in_nth [OF q]) (use markLaggingNodes_nth [OF round] in \<open>simp_all add: probe_all_def\<close>)
  show "fc_head fc' = 0 \<or> fc_head fc' \<in> R" "fc_depth fc' = fc_depth fc"
    using markLaggingNodes_best [OF round] nodes fc' by (auto simp: heights_in_def SetHead_def)
qed

lemma StartHealthChecks_heights:
  assumes "StartHealthChecks threshold evs (p, fc) = (closed, p', fc')" and "heights_in R ns (p_nodes p)"
    and "fc_head fc = 0 \<or> fc_head fc \<in> R" and "reports (rounds evs) ns \<subseteq> R"
  shows "heights_in R ns (p_nodes p') \<and> (fc_head fc' = 0 \<or> fc_head fc' \<in> R) \<and> fc_depth fc' = fc_depth fc \<and>
         closed = (Cancelled \<in> set evs)"
  using assms
proof (induction evs arbitrary: p fc)
  case (Cons ev evs)
  show ?case
  proof (cases ev)
    case (Ticked net)
    obtain p1 fc1 where round: "health_round net threshold (p, fc) = (p1, fc1)" by fastforce
    have "reports [net] ns \<subseteq> R" "reports (rounds evs) ns \<subseteq> R"
      using Cons.prems(4) by (auto simp: Ticked reports_def)
    with health_round_heights [OF round Cons.prems(2)] Cons.IH [of p1 fc1] Cons.prems(1) round Ticked
    show ?thesis by simp
  qed (use Cons.prems in simp)
qed simp

text \<open>
  Property C30.  Finality is never invented: from a fresh pool and checker, through any sequence of
  health rounds, a block counts as final only if some node reported, in a valid reply to a probe of
  one of these rounds, a height at least the finality depth above it; and the channel that tells of
  the end of the loop is closed exactly when the context was cancelled.
\<close>

theorem finality_reported:
  assumes "StartHealthChecks threshold evs (p, fc) = (closed, p', fc')"
    and "\<forall>n \<in> set (p_nodes p). BlockHeight n = 0" and "fc = NewFinalityChecker depth"
  shows "(\<forall>b. IsFinalized fc' b \<longrightarrow> b = 0 \<and> depth = 0 \<or>
            (\<exists>h \<in> reports (rounds evs) (p_nodes p). unat b + unat depth \<le> unat h)) \<and>
         closed = (Cancelled \<in> set evs)"
proof -
  have "heights_in (reports (rounds evs) (p_nodes p)) (p_nodes p) (p_nodes p)"
    using assms(2) by (simp add: heights_in_def)
  note inv = StartHealthChecks_heights [OF assms(1) this _ subset_refl]
  have "unat b + unat depth \<le> unat (fc_head fc')" if "IsFinalized fc' b" for b
    using that inv assms(3) by (simp add: IsFinalized_nat NewFinalityChecker_def)
  moreover from this have "b = 0 \<and> depth = 0" if "IsFinalized fc' b" "fc_head fc' = 0" for b
    using that by (metis add_is_0 le_zero_eq unat_0 unat_eq_zero)
  ultimately show ?thesis using inv assms(3) by (auto simp: NewFinalityChecker_def)
qed

definition one_node :: Pool where
  "one_node = \<lparr>p_nodes = [(demo_node True 1 0)\<lparr>n_URL := empty_URL\<lparr>u_Host := ''b''\<rparr>\<rparr>], p_counter = 0\<rparr>"

theorem finality_reported_witness:
  "IsFinalized (snd (snd (StartHealthChecks 10 [Ticked limited_host, Cancelled] (one_node, NewFinalityChecker 12)))) 88 \<and>
   (\<exists>h \<in> reports [limited_host] (p_nodes one_node). 88 + 12 \<le> unat h)"
proof -
  let ?evs = "[Ticked limited_host, Cancelled]"
  obtain closed p' fc' where run: "StartHealthChecks 10 ?evs (one_node, NewFinalityChecker 12) = (closed, p', fc')"
    by (metis prod_cases3)
  have fin: "IsFinalized (snd (snd (StartHealthChecks 10 ?evs (one_node, NewFinalityChecker 12)))) 88"
    by code_simp
  have "\<forall>n \<in> set (p_nodes one_node). BlockHeight n = 0"
    by (simp add: one_node_def demo_node_def node_defs)
  from spec [OF conjunct1 [OF finality_reported [OF run this refl]], of 88] run fin show ?thesis by simp
qed

end
