(* ===== verification/EthProber.thy ===== *)
theory EthProber
  imports Health Models
begin

text \<open>
  The capability prober for Ethereum nodes (internal/capability/eth/prober.go): three RPC calls whose
  replies tell whether a node keeps historical state and offers the debug and trace namespaces.  The
  HTTP client is a parameter, as in the health checks.
\<close>

section \<open>The RPC call\<close>

text \<open>The parameters the probes send: strings and an empty object.\<close>

datatype probe_param = PString string | PObject

fun param_text :: "probe_param \<Rightarrow> bytes" where
  "param_text (PString s) = encode_string s"
| "param_text PObject = ''{}''"

datatype probe_error =
    BadRequestURL
  | DoFailed string
  | ReadFailed string
  | BadReply
  | UnexpectedRPCError int string

text \<open>\<open>json.Marshal\<close> of a map prints the keys in order.\<close>

definition rpc_payload :: "string \<Rightarrow> probe_param list \<Rightarrow> bytes" where
  "rpc_payload method params =
     ''{'' @ join '',''
       [json_member ''id'' ''1'', json_member ''jsonrpc'' (encode_string ''2.0''),
        json_member ''method'' (encode_string method),
        json_member ''params'' (''['' @ join '','' (map param_text params) @ '']'')] @ ''}''"

definition sendRPCRequest :: "client \<Rightarrow> string \<Rightarrow> string \<Rightarrow> probe_param list \<Rightarrow> probe_error + bytes" where
  "sendRPCRequest net nodeURL method params =
     (case NewRequest_URL nodeURL of
        None \<Rightarrow> Inl BadRequestURL
      | Some u \<Rightarrow>
          (case net \<lparr>pr_method = ''POST'', pr_URL = u, pr_Host = u_Host u,
                     pr_header = [(''Content-Type'', ''application/json'')],
                     pr_body = rpc_payload method params\<rparr> of
             DoError e \<Rightarrow> Inl (DoFailed e)
           | Response status b err \<Rightarrow>
               (case ReadAll_limited (1 * 1024 * 1024) b err of
                  Inl e \<Rightarrow> Inl (ReadFailed e)
                | Inr body \<Rightarrow> Inr body)))"

section \<open>The replies\<close>

record rpc_error =
  re_Code :: int
  re_Message :: string

definition put_rpc_error :: "string \<Rightarrow> bytes \<Rightarrow> json \<Rightarrow> rpc_error \<Rightarrow> rpc_error option" where
  "put_rpc_error f raw v x =
     (if f = ''code'' then map_option (\<lambda>n. x\<lparr>re_Code := n\<rparr>) (decode_int v (re_Code x))
      else map_option (\<lambda>s. x\<lparr>re_Message := s\<rparr>) (decode_string v (re_Message x)))"

text \<open>The pointer \<open>Error\<close> to a struct with the given fields.\<close>

definition put_error :: "string list \<Rightarrow> string \<Rightarrow> bytes \<Rightarrow> json \<Rightarrow> rpc_error option \<Rightarrow> rpc_error option option" where
  "put_error flds f raw v x =
     (case v of
        JNull \<Rightarrow> Some None
      | JObj ms \<Rightarrow>
          map_option Some
            (decode_members flds put_rpc_error ms
               (case x of None \<Rightarrow> \<lparr>re_Code = 0, re_Message = []\<rparr> | Some e \<Rightarrow> e))
      | _ \<Rightarrow> None)"

definition Unmarshal_error :: "string list \<Rightarrow> bytes \<Rightarrow> rpc_error option option" where
  "Unmarshal_error flds body = Unmarshal_struct [''error''] (put_error flds) body None"

definition probeHistorical :: "client \<Rightarrow> string \<Rightarrow> probe_error + bool" where
  "probeHistorical net nodeURL =
     (case sendRPCRequest net nodeURL ''eth_getBalance''
             [PString ''0x0000000000000000000000000000000000000000'', PString ''0x1''] of
        Inl e \<Rightarrow> Inl e
      | Inr body \<Rightarrow>
          (case Unmarshal_error [''message''] body of
             None \<Rightarrow> Inl BadReply
           | Some None \<Rightarrow> Inr True
           | Some (Some e) \<Rightarrow>
               if Contains (re_Message e) ''missing trie node'' then Inr False
               else Inl (UnexpectedRPCError 0 (re_Message e))))"

text \<open>The two namespace probes differ in the call they make.\<close>

definition namespace_reply :: "probe_error + bytes \<Rightarrow> probe_error + bool" where
  "namespace_reply r =
     (case r of
        Inl e \<Rightarrow> Inl e
      | Inr body \<Rightarrow>
          (case Unmarshal_error [''code'', ''message''] body of
             None \<Rightarrow> Inl BadReply
           | Some None \<Rightarrow> Inr True
           | Some (Some e) \<Rightarrow>
               if re_Code e = - 32601 then Inr False
               else Inl (UnexpectedRPCError (re_Code e) (re_Message e))))"

definition probeDebug :: "client \<Rightarrow> string \<Rightarrow> probe_error + bool" where
  "probeDebug net nodeURL =
     namespace_reply (sendRPCRequest net nodeURL ''debug_traceBlockByNumber'' [PString ''latest'', PObject])"

definition probeTrace :: "client \<Rightarrow> string \<Rightarrow> probe_error + bool" where
  "probeTrace net nodeURL =
     namespace_reply (sendRPCRequest net nodeURL ''trace_block'' [PString ''latest''])"

definition Probe :: "client \<Rightarrow> string \<Rightarrow> probe_error + Capability" where
  "Probe net nodeURL =
     (case probeHistorical net nodeURL of
        Inl e \<Rightarrow> Inl e
      | Inr historical \<Rightarrow>
          (case probeDebug net nodeURL of
             Inl e \<Rightarrow> Inl e
           | Inr debug \<Rightarrow>
               (case probeTrace net nodeURL of
                  Inl e \<Rightarrow> Inl e
                | Inr trace \<Rightarrow>
                    Inr (CapBasic OR (if historical then CapHistorical else 0)
                                  OR (if debug then CapDebug else 0)
                                  OR (if trace then CapTrace else 0)))))"

text \<open>The Ethereum implementation of the interface; its client gives up on a call after ten seconds.\<close>

definition NewEthProber :: "(duration \<Rightarrow> client) \<Rightarrow> probe_error Prober" where
  "NewEthProber client_with = \<lparr>pb_Probe = Probe (client_with (10 * Second))\<rparr>"

section \<open>Lemmas\<close>

text \<open>What a node says to a call: the body of its reply, and the error in it.\<close>

definition call_error :: "client \<Rightarrow> string \<Rightarrow> string list \<Rightarrow> string \<Rightarrow> probe_param list \<Rightarrow> rpc_error option option" where
  "call_error net nodeURL flds method params =
     (case sendRPCRequest net nodeURL method params of
        Inl _ \<Rightarrow> None | Inr body \<Rightarrow> Unmarshal_error flds body)"

abbreviation balance_error where
  "balance_error net u \<equiv> call_error net u [''message''] ''eth_getBalance''
     [PString ''0x0000000000000000000000000000000000000000'', PString ''0x1'']"

abbreviation debug_error where
  "debug_error net u \<equiv> call_error net u [''code'', ''message''] ''debug_traceBlockByNumber''
     [PString ''latest'', PObject]"

abbreviation trace_error where
  "trace_error net u \<equiv> call_error net u [''code'', ''message''] ''trace_block'' [PString ''latest'']"

lemma probeHistorical_iff:
  "probeHistorical net u = Inr b \<longleftrightarrow>
     (if b then balance_error net u = Some None
      else \<exists>e. balance_error net u = Some (Some e) \<and> Contains (re_Message e) ''missing trie node'')"
  by (auto simp: probeHistorical_def call_error_def split: sum.split option.split)

lemma namespace_reply_iff:
  "namespace_reply r = Inr b \<longleftrightarrow>
     (let e = (case r of Inl _ \<Rightarrow> None | Inr body \<Rightarrow> Unmarshal_error [''code'', ''message''] body) in
      if b then e = Some None else \<exists>x. e = Some (Some x) \<and> re_Code x = - 32601)"
  by (auto simp: namespace_reply_def split: sum.split option.split)

lemma probe_namespace_iff:
  "probeDebug net u = Inr b \<longleftrightarrow>
     (if b then debug_error net u = Some None
      else \<exists>e. debug_error net u = Some (Some e) \<and> re_Code e = - 32601)"
  "probeTrace net u = Inr b \<longleftrightarrow>
     (if b then trace_error net u = Some None
      else \<exists>e. trace_error net u = Some (Some e) \<and> re_Code e = - 32601)"
  by (simp_all add: probeDebug_def probeTrace_def namespace_reply_iff call_error_def Let_def)

lemma Probe_Inr:
  "Probe net u = Inr caps \<longleftrightarrow>
     (\<exists>h d t. probeHistorical net u = Inr h \<and> probeDebug net u = Inr d \<and> probeTrace net u = Inr t \<and>
        caps = (CapBasic OR (if h then CapHistorical else 0) OR (if d then CapDebug else 0)
                         OR (if t then CapTrace else 0)))"
  by (auto simp: Probe_def split: sum.split)

lemma caps_bits:
  assumes "caps = (CapBasic OR (if h then CapHistorical else 0) OR (if d then CapDebug else 0)
                         OR (if t then CapTrace else 0))"
  shows "Has caps CapBasic" and "Has caps CapHistorical = h" and "Has caps CapDebug = d"
    and "Has caps CapTrace = t"
  unfolding assms by (simp_all add: Has_def CapBasic_def CapHistorical_def CapDebug_def CapTrace_def)

section \<open>Properties\<close>

text \<open>
  Property C28.  When probing succeeds, the capabilities are exactly what the three replies say:
  basic service always; historical state if the balance of the zero address at block 1 was answered
  without an error, and not if the answer was a missing trie node; the debug and the trace namespace
  if their call was answered without an error, and not if the answer was that the method does not
  exist.  Any other outcome of a call makes the probe fail.
\<close>

theorem probe_capabilities_exact:
  "(\<forall>caps. Probe net u = Inr caps \<longrightarrow>
      Has caps CapBasic \<and>
      (Has caps CapHistorical \<longleftrightarrow> balance_error net u = Some None) \<and>
      (Has caps CapDebug \<longleftrightarrow> debug_error net u = Some None) \<and>
      (Has caps CapTrace \<longleftrightarrow> trace_error net u = Some None)) \<and>
   ((\<exists>caps. Probe net u = Inr caps) \<longleftrightarrow>
      (balance_error net u = Some None \<or>
       (\<exists>e. balance_error net u = Some (Some e) \<and> Contains (re_Message e) ''missing trie node'')) \<and>
      (debug_error net u = Some None \<or> (\<exists>e. debug_error net u = Some (Some e) \<and> re_Code e = - 32601)) \<and>
      (trace_error net u = Some None \<or> (\<exists>e. trace_error net u = Some (Some e) \<and> re_Code e = - 32601)))"
proof -
  have "Has caps CapBasic \<and> (Has caps CapHistorical \<longleftrightarrow> balance_error net u = Some None) \<and>
      (Has caps CapDebug \<longleftrightarrow> debug_error net u = Some None) \<and>
      (Has caps CapTrace \<longleftrightarrow> trace_error net u = Some None)"
    if probe: "Probe net u = Inr caps" for caps
  proof -
    obtain h d t where r: "probeHistorical net u = Inr h" "probeDebug net u = Inr d" "probeTrace net u = Inr t"
      and caps: "caps = (CapBasic OR (if h then CapHistorical else 0) OR (if d then CapDebug else 0)
                         OR (if t then CapTrace else 0))"
      using probe unfolding Probe_Inr by blast
    from r show ?thesis
      unfolding caps_bits(2-4) [OF caps] probeHistorical_iff probe_namespace_iff
      using caps_bits(1) [OF caps] by (auto split: if_splits)
  qed
  moreover have "(\<exists>caps. Probe net u = Inr caps) \<longleftrightarrow>
      (\<exists>h. probeHistorical net u = Inr h) \<and> (\<exists>d. probeDebug net u = Inr d) \<and> (\<exists>t. probeTrace net u = Inr t)"
    unfolding Probe_Inr by blast
  then have "(\<exists>caps. Probe net u = Inr caps) \<longleftrightarrow>
      (balance_error net u = Some None \<or>
       (\<exists>e. balance_error net u = Some (Some e) \<and> Contains (re_Message e) ''missing trie node'')) \<and>
      (debug_error net u = Some None \<or> (\<exists>e. debug_error net u = Some (Some e) \<and> re_Code e = - 32601)) \<and>
      (trace_error net u = Some None \<or> (\<exists>e. trace_error net u = Some (Some e) \<and> re_Code e = - 32601))"
    unfolding probeHistorical_iff probe_namespace_iff ex_bool_eq by simp
  ultimately show ?thesis by blast
qed

text \<open>A node that answers every call as a geth full node without trace namespace would.\<close>

definition geth_node :: client where
  "geth_node q =
     Response 200
       (if Contains (pr_body q) ''eth_getBalance''
        then ''{\"id\":1,\"error\":{\"code\":-32000,\"message\":\"missing trie node 0a\"}}''
        else if Contains (pr_body q) ''trace_block'' then ''{\"id\":1,\"error\":{\"code\":-32601,\"message\":\"no\"}}''
        else ''{\"id\":1,\"result\":[]}'') None"

theorem probe_capabilities_exact_witness:
  "\<exists>caps. Probe geth_node ''http://node'' = Inr caps \<and> Has caps CapDebug \<and>
     \<not> Has caps CapHistorical \<and> \<not> Has caps CapTrace"
proof -
  have "debug_error geth_node ''http://node'' = Some None"
    and "balance_error geth_node ''http://node'' = Some (Some \<lparr>re_Code = 0, re_Message = ''missing trie node 0a''\<rparr>)"
    and "trace_error geth_node ''http://node'' = Some (Some \<lparr>re_Code = - 32601, re_Message = ''no''\<rparr>)"
    by code_simp+
  moreover have "Contains ''missing trie node 0a'' ''missing trie node''" by code_simp
  ultimately show ?thesis
    using probe_capabilities_exact [of geth_node "''http://node''"] by fastforce
qed

text \<open>
  The status of a reply is not looked at: a node that refuses every call with status 401 and a JSON
  object is taken to have every capability.
\<close>

lemma refusing_node_has_everything:
  "Probe (\<lambda>_. Response 401 ''{\"message\":\"Unauthorized\"}'' None) ''http://node'' =
     Inr (CapBasic OR CapHistorical OR CapDebug OR CapTrace)"
  by code_simp

end
