(* ===== verification/Config.thy ===== *)
theory Config
  imports GoFlag GoCase
begin

text \<open>
  The configuration and its four layers (internal/config/config.go): defaults, YAML file, environment
  and command line.  The file system and the YAML decoder of gopkg.in/yaml.v3 are the argument
  \<open>load\<close>, which gives the decoded file or an error; \<open>getenv\<close> is the environment, in which a variable
  that is not set reads as the empty string.
\<close>

section \<open>Data\<close>

record Config =
  c_Port :: int
  c_Upstreams :: "string list"
  c_MutableTTL :: duration
  c_MaxCacheEntries :: int
  c_FinalityDepth :: uint64
  c_HealthInterval :: duration
  c_ProbeTimeout :: duration
  c_LagThreshold :: uint64
  c_CacheBackend :: string
  c_RedisURL :: string
  c_LogLevel :: string
  c_LogFormat :: string
  c_WriteTimeout :: duration
  c_WSReplayPendingCap :: int
  c_WSAllowedOrigins :: "string list"

definition Default :: Config where
  "Default =
     \<lparr>c_Port = 8080, c_Upstreams = [''https://eth.llamarpc.com''], c_MutableTTL = 12 * Second,
      c_MaxCacheEntries = 10000, c_FinalityDepth = 12, c_HealthInterval = 15 * Second,
      c_ProbeTimeout = 5 * Second, c_LagThreshold = 10, c_CacheBackend = ''memory'', c_RedisURL = [],
      c_LogLevel = ''info'', c_LogFormat = ''text'', c_WriteTimeout = 30 * Second,
      c_WSReplayPendingCap = 1024, c_WSAllowedOrigins = []\<rparr>"

text \<open>A pointer field is an option, and so is a slice that is compared with nil.\<close>

record yamlConfig =
  y_Port :: "int option"
  y_Upstreams :: "string list"
  y_MutableTTL :: string
  y_MaxCacheEntries :: "int option"
  y_FinalityDepth :: "uint64 option"
  y_HealthInterval :: string
  y_ProbeTimeout :: string
  y_LagThreshold :: "uint64 option"
  y_CacheBackend :: string
  y_RedisURL :: string
  y_LogLevel :: string
  y_LogFormat :: string
  y_WriteTimeout :: string
  y_WSReplayPendingCap :: "int option"
  y_WSAllowedOrigins :: "string list option"

datatype config_error =
    OpenFile string
  | ParseFile string
  | InvalidDuration string string
  | NoUpstreams
  | PortRange int
  | NotPositive string int
  | ProbeTimeoutTooLong duration duration
  | RedisURLMissing
  | BadCacheBackend string
  | BadLogLevel string
  | BadLogFormat string

datatype file_result = CannotOpen | CannotDecode | Decoded yamlConfig

section \<open>The file\<close>

definition if_set :: "'a option \<Rightarrow> ('a \<Rightarrow> Config \<Rightarrow> Config) \<Rightarrow> Config \<Rightarrow> Config" where
  "if_set x upd c = (case x of None \<Rightarrow> c | Some v \<Rightarrow> upd v c)"

definition if_nonempty :: "'a list \<Rightarrow> ('a list \<Rightarrow> Config \<Rightarrow> Config) \<Rightarrow> Config \<Rightarrow> Config" where
  "if_nonempty x upd c = (if x = [] then c else upd x c)"

text \<open>A duration field: the rest \<open>k\<close> of the function runs unless it is malformed.\<close>

definition yaml_duration :: "string \<Rightarrow> string \<Rightarrow> (duration \<Rightarrow> Config \<Rightarrow> Config) \<Rightarrow>
    (Config \<Rightarrow> config_error option \<times> Config) \<Rightarrow> Config \<Rightarrow> config_error option \<times> Config" where
  "yaml_duration key v upd k c =
     (if v = [] then k c
      else (case ParseDuration v of
              None \<Rightarrow> (Some (InvalidDuration key v), c)
            | Some d \<Rightarrow> k (upd d c)))"

definition merge_yaml :: "yamlConfig \<Rightarrow> Config \<Rightarrow> config_error option \<times> Config" where
  "merge_yaml yc c0 =
     (let c1 = if_nonempty (y_Upstreams yc) (\<lambda>v c. c\<lparr>c_Upstreams := v\<rparr>)
                 (if_set (y_Port yc) (\<lambda>v c. c\<lparr>c_Port := v\<rparr>) c0) in
      yaml_duration ''mutable_ttl'' (y_MutableTTL yc) (\<lambda>d c. c\<lparr>c_MutableTTL := d\<rparr>)
        (\<lambda>c2. let c3 = if_set (y_FinalityDepth yc) (\<lambda>v c. c\<lparr>c_FinalityDepth := v\<rparr>)
                         (if_set (y_MaxCacheEntries yc) (\<lambda>v c. c\<lparr>c_MaxCacheEntries := v\<rparr>) c2) in
         yaml_duration ''health_interval'' (y_HealthInterval yc) (\<lambda>d c. c\<lparr>c_HealthInterval := d\<rparr>)
           (yaml_duration ''probe_timeout'' (y_ProbeTimeout yc) (\<lambda>d c. c\<lparr>c_ProbeTimeout := d\<rparr>)
              (\<lambda>c4. let c5 = if_nonempty (y_LogFormat yc) (\<lambda>v c. c\<lparr>c_LogFormat := v\<rparr>)
                               (if_nonempty (y_LogLevel yc) (\<lambda>v c. c\<lparr>c_LogLevel := v\<rparr>)
                                  (if_nonempty (y_RedisURL yc) (\<lambda>v c. c\<lparr>c_RedisURL := v\<rparr>)
                                     (if_nonempty (y_CacheBackend yc) (\<lambda>v c. c\<lparr>c_CacheBackend := v\<rparr>)
                                        (if_set (y_LagThreshold yc) (\<lambda>v c. c\<lparr>c_LagThreshold := v\<rparr>) c4)))) in
               yaml_duration ''write_timeout'' (y_WriteTimeout yc) (\<lambda>d c. c\<lparr>c_WriteTimeout := d\<rparr>)
                 (\<lambda>c6. (None,
                    if_set (y_WSAllowedOrigins yc) (\<lambda>v c. c\<lparr>c_WSAllowedOrigins := v\<rparr>)
                      (if_set (y_WSReplayPendingCap yc) (\<lambda>v c. c\<lparr>c_WSReplayPendingCap := v\<rparr>) c6))) c5))
           c3) c1)"

definition LoadFile :: "(string \<Rightarrow> file_result) \<Rightarrow> string \<Rightarrow> Config \<Rightarrow> config_error option \<times> Config" where
  "LoadFile load path c =
     (case load path of
        CannotOpen \<Rightarrow> (Some (OpenFile path), c)
      | CannotDecode \<Rightarrow> (Some (ParseFile path), c)
      | Decoded yc \<Rightarrow> merge_yaml yc c)"

section \<open>The environment\<close>

text \<open>
  The state is the configuration and the names of the variables a warning was logged for, in order.
\<close>

type_synonym env_state = "Config \<times> string list"

definition splitTrimmed :: "string \<Rightarrow> char \<Rightarrow> string list" where
  "splitTrimmed s sep = filter (\<lambda>t. t \<noteq> []) (map TrimSpace (Split sep s))"

text \<open>The common shape of the helpers: \<open>parse\<close> reads a value that is not empty.\<close>

definition env_with :: "(string \<Rightarrow> 'a option) \<Rightarrow> (string \<Rightarrow> string) \<Rightarrow> string \<Rightarrow>
    ('a \<Rightarrow> Config \<Rightarrow> Config) \<Rightarrow> env_state \<Rightarrow> env_state" where
  "env_with parse getenv name upd st =
     (let v = getenv name in
      if v = [] then st
      else (case parse v of
              None \<Rightarrow> (fst st, snd st @ [name])
            | Some x \<Rightarrow> (upd x (fst st), snd st)))"

definition parse_list :: "string \<Rightarrow> string list option" where
  "parse_list v = (let parts = splitTrimmed v (CHR '','') in if parts = [] then None else Some parts)"

definition envInt :: "(string \<Rightarrow> string) \<Rightarrow> string \<Rightarrow> (int \<Rightarrow> Config \<Rightarrow> Config) \<Rightarrow> env_state \<Rightarrow> env_state" where
  "envInt = env_with ParseInt"

definition envUint64 :: "(string \<Rightarrow> string) \<Rightarrow> string \<Rightarrow> (uint64 \<Rightarrow> Config \<Rightarrow> Config) \<Rightarrow> env_state \<Rightarrow> env_state" where
  "envUint64 = env_with (ParseUint 10)"

definition envDuration :: "(string \<Rightarrow> string) \<Rightarrow> string \<Rightarrow> (duration \<Rightarrow> Config \<Rightarrow> Config) \<Rightarrow> env_state \<Rightarrow> env_state" where
  "envDuration = env_with ParseDuration"

definition envString :: "(string \<Rightarrow> string) \<Rightarrow> string \<Rightarrow> (string \<Rightarrow> Config \<Rightarrow> Config) \<Rightarrow> env_state \<Rightarrow> env_state" where
  "envString = env_with Some"

definition envStringSlice :: "(string \<Rightarrow> string) \<Rightarrow> string \<Rightarrow> (string list \<Rightarrow> Config \<Rightarrow> Config) \<Rightarrow>
    env_state \<Rightarrow> env_state" where
  "envStringSlice = env_with parse_list"

definition ApplyEnv :: "(string \<Rightarrow> string) \<Rightarrow> Config \<Rightarrow> env_state" where
  "ApplyEnv getenv c =
     fold (\<lambda>step. step)
       [envInt getenv ''AEGIS_PORT'' (\<lambda>v c. c\<lparr>c_Port := v\<rparr>),
        envStringSlice getenv ''AEGIS_UPSTREAMS'' (\<lambda>v c. c\<lparr>c_Upstreams := v\<rparr>),
        envDuration getenv ''AEGIS_MUTABLE_TTL'' (\<lambda>v c. c\<lparr>c_MutableTTL := v\<rparr>),
        envInt getenv ''AEGIS_MAX_CACHE_ENTRIES'' (\<lambda>v c. c\<lparr>c_MaxCacheEntries := v\<rparr>),
        envUint64 getenv ''AEGIS_FINALITY_DEPTH'' (\<lambda>v c. c\<lparr>c_FinalityDepth := v\<rparr>),
        envDuration getenv ''AEGIS_HEALTH_INTERVAL'' (\<lambda>v c. c\<lparr>c_HealthInterval := v\<rparr>),
        envDuration getenv ''AEGIS_PROBE_TIMEOUT'' (\<lambda>v c. c\<lparr>c_ProbeTimeout := v\<rparr>),
        envUint64 getenv ''AEGIS_LAG_THRESHOLD'' (\<lambda>v c. c\<lparr>c_LagThreshold := v\<rparr>),
        envString getenv ''AEGIS_CACHE_BACKEND'' (\<lambda>v c. c\<lparr>c_CacheBackend := v\<rparr>),
        envString getenv ''AEGIS_REDIS_URL'' (\<lambda>v c. c\<lparr>c_RedisURL := v\<rparr>),
        envString getenv ''AEGIS_LOG_LEVEL'' (\<lambda>v c. c\<lparr>c_LogLevel := v\<rparr>),
        envString getenv ''AEGIS_LOG_FORMAT'' (\<lambda>v c. c\<lparr>c_LogFormat := v\<rparr>),
        envDuration getenv ''AEGIS_WRITE_TIMEOUT'' (\<lambda>v c. c\<lparr>c_WriteTimeout := v\<rparr>),
        envInt getenv ''AEGIS_WS_REPLAY_PENDING_CAP'' (\<lambda>v c. c\<lparr>c_WSReplayPendingCap := v\<rparr>),
        envStringSlice getenv ''AEGIS_WS_ALLOWED_ORIGINS'' (\<lambda>v c. c\<lparr>c_WSAllowedOrigins := v\<rparr>)]
       (c, [])"

section \<open>Validation\<close>

definition Validate :: "(int \<Rightarrow> int) \<Rightarrow> Config \<Rightarrow> config_error option" where
  "Validate uni c =
     (let backend = ToLower uni (TrimSpace (c_CacheBackend c));
          level = ToLower uni (TrimSpace (c_LogLevel c));
          form = ToLower uni (TrimSpace (c_LogFormat c))
      in if c_Upstreams c = [] then Some NoUpstreams
         else if c_Port c < 1 \<or> 65535 < c_Port c then Some (PortRange (c_Port c))
         else if c_MutableTTL c \<le> 0 then Some (NotPositive ''mutable_ttl'' (c_MutableTTL c))
         else if c_ProbeTimeout c \<le> 0 then Some (NotPositive ''probe_timeout'' (c_ProbeTimeout c))
         else if c_HealthInterval c \<le> 0 then Some (NotPositive ''health_interval'' (c_HealthInterval c))
         else if c_HealthInterval c \<le> c_ProbeTimeout c
         then Some (ProbeTimeoutTooLong (c_ProbeTimeout c) (c_HealthInterval c))
         else if backend \<noteq> ''memory'' \<and> backend \<noteq> ''redis'' then Some (BadCacheBackend (c_CacheBackend c))
         else if backend = ''redis'' \<and> c_RedisURL c = [] then Some RedisURLMissing
         else if level \<notin> set [''debug'', ''info'', ''warn'', ''error''] then Some (BadLogLevel (c_LogLevel c))
         else if form \<notin> set [''text'', ''json''] then Some (BadLogFormat (c_LogFormat c))
         else if c_WriteTimeout c \<le> 0 then Some (NotPositive ''write_timeout'' (c_WriteTimeout c))
         else if c_WSReplayPendingCap c \<le> 0
         then Some (NotPositive ''ws_replay_pending_cap'' (c_WSReplayPendingCap c))
         else None)"

section \<open>The command line, and the layers together\<close>

definition config_flags :: "(string \<times> flag_kind) list" where
  "config_flags =
     [(''config'', StringFlag), (''port'', IntFlag), (''upstreams'', StringFlag),
      (''mutable-ttl'', DurationFlag), (''max-cache-entries'', IntFlag), (''finality-depth'', Uint64Flag),
      (''health-interval'', DurationFlag), (''probe-timeout'', DurationFlag),
      (''lag-threshold'', Uint64Flag), (''cache-backend'', StringFlag), (''redis-url'', StringFlag),
      (''log-level'', StringFlag), (''log-format'', StringFlag), (''write-timeout'', DurationFlag),
      (''ws-replay-pending-cap'', IntFlag), (''ws-allowed-origins'', StringFlag)]"

text \<open>The variables the flags are read into, with the defaults they are declared with.\<close>

definition int_flag :: "flags \<Rightarrow> string \<Rightarrow> int \<Rightarrow> int" where
  "int_flag m name d = (case map_of m name of Some (FInt n) \<Rightarrow> n | _ \<Rightarrow> d)"

definition uint64_flag :: "flags \<Rightarrow> string \<Rightarrow> uint64 \<Rightarrow> uint64" where
  "uint64_flag m name d = (case map_of m name of Some (FUint64 n) \<Rightarrow> n | _ \<Rightarrow> d)"

definition duration_flag :: "flags \<Rightarrow> string \<Rightarrow> duration \<Rightarrow> duration" where
  "duration_flag m name d = (case map_of m name of Some (FDuration n) \<Rightarrow> n | _ \<Rightarrow> d)"

definition string_flag :: "flags \<Rightarrow> string \<Rightarrow> string \<Rightarrow> string" where
  "string_flag m name d = (case map_of m name of Some (FString s) \<Rightarrow> s | _ \<Rightarrow> d)"

text \<open>The function \<open>flag.Visit\<close> is given.\<close>

definition visit_flag :: "flags \<Rightarrow> string \<Rightarrow> Config \<Rightarrow> Config" where
  "visit_flag m name c =
     (if name = ''port'' then c\<lparr>c_Port := int_flag m ''port'' 8080\<rparr>
      else if name = ''upstreams'' then
        c\<lparr>c_Upstreams := splitTrimmed (string_flag m ''upstreams'' ''https://eth.llamarpc.com'') (CHR '','')\<rparr>
      else if name = ''mutable-ttl'' then c\<lparr>c_MutableTTL := duration_flag m ''mutable-ttl'' (12 * Second)\<rparr>
      else if name = ''max-cache-entries'' then c\<lparr>c_MaxCacheEntries := int_flag m ''max-cache-entries'' 10000\<rparr>
      else if name = ''finality-depth'' then c\<lparr>c_FinalityDepth := uint64_flag m ''finality-depth'' 12\<rparr>
      else if name = ''health-interval'' then
        c\<lparr>c_HealthInterval := duration_flag m ''health-interval'' (15 * Second)\<rparr>
      else if name = ''probe-timeout'' then c\<lparr>c_ProbeTimeout := duration_flag m ''probe-timeout'' (5 * Second)\<rparr>
      else if name = ''lag-threshold'' then c\<lparr>c_LagThreshold := uint64_flag m ''lag-threshold'' 10\<rparr>
      else if name = ''cache-backend'' then c\<lparr>c_CacheBackend := string_flag m ''cache-backend'' ''memory''\<rparr>
      else if name = ''redis-url'' then c\<lparr>c_RedisURL := string_flag m ''redis-url'' []\<rparr>
      else if name = ''log-level'' then c\<lparr>c_LogLevel := string_flag m ''log-level'' ''info''\<rparr>
      else if name = ''log-format'' then c\<lparr>c_LogFormat := string_flag m ''log-format'' ''text''\<rparr>
      else if name = ''write-timeout'' then c\<lparr>c_WriteTimeout := duration_flag m ''write-timeout'' (30 * Second)\<rparr>
      else if name = ''ws-replay-pending-cap'' then
        c\<lparr>c_WSReplayPendingCap := int_flag m ''ws-replay-pending-cap'' 1024\<rparr>
      else if name = ''ws-allowed-origins'' then
        c\<lparr>c_WSAllowedOrigins := splitTrimmed (string_flag m ''ws-allowed-origins'' []) (CHR '','')\<rparr>
      else c)"

datatype parsed = ParseExit int | ParseFailed config_error | Parsed Config

definition config_path :: "(string \<Rightarrow> string) \<Rightarrow> flags \<Rightarrow> string" where
  "config_path getenv m =
     (let p = string_flag m ''config'' [] in if p = [] then getenv ''AEGIS_CONFIG'' else p)"

definition canonical_names :: "(int \<Rightarrow> int) \<Rightarrow> Config \<Rightarrow> Config" where
  "canonical_names uni c =
     c\<lparr>c_CacheBackend := ToLower uni (TrimSpace (c_CacheBackend c)),
       c_LogLevel := ToLower uni (TrimSpace (c_LogLevel c)),
       c_LogFormat := ToLower uni (TrimSpace (c_LogFormat c))\<rparr>"

definition Parse :: "(int \<Rightarrow> int) \<Rightarrow> (string \<Rightarrow> file_result) \<Rightarrow> (string \<Rightarrow> string) \<Rightarrow> string list \<Rightarrow> parsed" where
  "Parse uni load getenv args =
     (case flag_Parse config_flags args of
        FlagExit code \<Rightarrow> ParseExit code
      | FlagsSet m \<Rightarrow>
          (let path = config_path getenv m;
               (err, c1) = (if path = [] then (None, Default) else LoadFile load path Default)
           in case err of
                Some e \<Rightarrow> ParseFailed e
              | None \<Rightarrow>
                  (let c2 = fst (ApplyEnv getenv c1);
                       c3 = fold (visit_flag m) (map fst m) c2;
                       c = canonical_names uni c3
                   in case Validate uni c of Some e \<Rightarrow> ParseFailed e | None \<Rightarrow> Parsed c)))"

section \<open>Layers\<close>

text \<open>
  The specification: every field is taken from the first layer that gives a value, the command line,
  then the environment, then the file, then the default.
\<close>

fun first_of :: "'a option list \<Rightarrow> 'a \<Rightarrow> 'a" where
  "first_of [] d = d"
| "first_of (None # xs) d = first_of xs d"
| "first_of (Some x # xs) d = x"

definition nonempty :: "'a list \<Rightarrow> 'a list option" where
  "nonempty xs = (if xs = [] then None else Some xs)"

definition yaml_dur :: "string \<Rightarrow> duration option" where
  "yaml_dur v = (if v = [] then None else ParseDuration v)"

definition env_value :: "(string \<Rightarrow> 'a option) \<Rightarrow> (string \<Rightarrow> string) \<Rightarrow> string \<Rightarrow> 'a option" where
  "env_value parse getenv name = (if getenv name = [] then None else parse (getenv name))"

definition int_opt :: "flags \<Rightarrow> string \<Rightarrow> int option" where
  "int_opt m name = (case map_of m name of Some (FInt n) \<Rightarrow> Some n | _ \<Rightarrow> None)"

definition uint64_opt :: "flags \<Rightarrow> string \<Rightarrow> uint64 option" where
  "uint64_opt m name = (case map_of m name of Some (FUint64 n) \<Rightarrow> Some n | _ \<Rightarrow> None)"

definition duration_opt :: "flags \<Rightarrow> string \<Rightarrow> duration option" where
  "duration_opt m name = (case map_of m name of Some (FDuration n) \<Rightarrow> Some n | _ \<Rightarrow> None)"

definition string_opt :: "flags \<Rightarrow> string \<Rightarrow> string option" where
  "string_opt m name = (case map_of m name of Some (FString s) \<Rightarrow> Some s | _ \<Rightarrow> None)"

definition slice_opt :: "flags \<Rightarrow> string \<Rightarrow> string list option" where
  "slice_opt m name = map_option (\<lambda>s. splitTrimmed s (CHR '','')) (string_opt m name)"

definition no_yaml :: yamlConfig where
  "no_yaml =
     \<lparr>y_Port = None, y_Upstreams = [], y_MutableTTL = [], y_MaxCacheEntries = None,
      y_FinalityDepth = None, y_HealthInterval = [], y_ProbeTimeout = [], y_LagThreshold = None,
      y_CacheBackend = [], y_RedisURL = [], y_LogLevel = [], y_LogFormat = [], y_WriteTimeout = [],
      y_WSReplayPendingCap = None, y_WSAllowedOrigins = None\<rparr>"

definition file_layer :: "(string \<Rightarrow> file_result) \<Rightarrow> string \<Rightarrow> yamlConfig" where
  "file_layer load path =
     (if path = [] then no_yaml else case load path of Decoded y \<Rightarrow> y | _ \<Rightarrow> no_yaml)"

definition layered :: "(int \<Rightarrow> int) \<Rightarrow> flags \<Rightarrow> (string \<Rightarrow> string) \<Rightarrow> yamlConfig \<Rightarrow> Config" where
  "layered uni m getenv y =
     \<lparr>c_Port =
        first_of [int_opt m ''port'', env_value ParseInt getenv ''AEGIS_PORT'', y_Port y] 8080,
      c_Upstreams =
        first_of [slice_opt m ''upstreams'', env_value parse_list getenv ''AEGIS_UPSTREAMS'', nonempty (y_Upstreams y)] [''https://eth.llamarpc.com''],
      c_MutableTTL =
        first_of [duration_opt m ''mutable-ttl'', env_value ParseDuration getenv ''AEGIS_MUTABLE_TTL'', yaml_dur (y_MutableTTL y)] (12 * Second),
      c_MaxCacheEntries =
        first_of [int_opt m ''max-cache-entries'', env_value ParseInt getenv ''AEGIS_MAX_CACHE_ENTRIES'', y_MaxCacheEntries y] 10000,
      c_FinalityDepth =
        first_of [uint64_opt m ''finality-depth'', env_value (ParseUint 10) getenv ''AEGIS_FINALITY_DEPTH'', y_FinalityDepth y] 12,
      c_HealthInterval =
        first_of [duration_opt m ''health-interval'', env_value ParseDuration getenv ''AEGIS_HEALTH_INTERVAL'', yaml_dur (y_HealthInterval y)] (15 * Second),
      c_ProbeTimeout =
        first_of [duration_opt m ''probe-timeout'', env_value ParseDuration getenv ''AEGIS_PROBE_TIMEOUT'', yaml_dur (y_ProbeTimeout y)] (5 * Second),
      c_LagThreshold =
        first_of [uint64_opt m ''lag-threshold'', env_value (ParseUint 10) getenv ''AEGIS_LAG_THRESHOLD'', y_LagThreshold y] 10,
      c_CacheBackend =
        ToLower uni (TrimSpace (first_of [string_opt m ''cache-backend'',
          env_value Some getenv ''AEGIS_CACHE_BACKEND'', nonempty (y_CacheBackend y)] ''memory'')),
      c_RedisURL =
        first_of [string_opt m ''redis-url'', env_value Some getenv ''AEGIS_REDIS_URL'', nonempty (y_RedisURL y)] [],
      c_LogLevel =
        ToLower uni (TrimSpace (first_of [string_opt m ''log-level'',
          env_value Some getenv ''AEGIS_LOG_LEVEL'', nonempty (y_LogLevel y)] ''info'')),
      c_LogFormat =
        ToLower uni (TrimSpace (first_of [string_opt m ''log-format'',
          env_value Some getenv ''AEGIS_LOG_FORMAT'', nonempty (y_LogFormat y)] ''text'')),
      c_WriteTimeout =
        first_of [duration_opt m ''write-timeout'', env_value ParseDuration getenv ''AEGIS_WRITE_TIMEOUT'', yaml_dur (y_WriteTimeout y)] (30 * Second),
      c_WSReplayPendingCap =
        first_of [int_opt m ''ws-replay-pending-cap'', env_value ParseInt getenv ''AEGIS_WS_REPLAY_PENDING_CAP'', y_WSReplayPendingCap y] 1024,
      c_WSAllowedOrigins =
        first_of [slice_opt m ''ws-allowed-origins'', env_value parse_list getenv ''AEGIS_WS_ALLOWED_ORIGINS'', y_WSAllowedOrigins y] []\<rparr>"

lemma if_set_upd:
  "if_set x0 (\<lambda>v c. c\<lparr>c_Port := v\<rparr>) c = c\<lparr>c_Port := first_of [x0] (c_Port c)\<rparr>"
  "if_set x1 (\<lambda>v c. c\<lparr>c_Upstreams := v\<rparr>) c = c\<lparr>c_Upstreams := first_of [x1] (c_Upstreams c)\<rparr>"
  "if_set x2 (\<lambda>v c. c\<lparr>c_MutableTTL := v\<rparr>) c = c\<lparr>c_MutableTTL := first_of [x2] (c_MutableTTL c)\<rparr>"
  "if_set x3 (\<lambda>v c. c\<lparr>c_MaxCacheEntries := v\<rparr>) c = c\<lparr>c_MaxCacheEntries := first_of [x3] (c_MaxCacheEntries c)\<rparr>"
  "if_set x4 (\<lambda>v c. c\<lparr>c_FinalityDepth := v\<rparr>) c = c\<lparr>c_FinalityDepth := first_of [x4] (c_FinalityDepth c)\<rparr>"
  "if_set x5 (\<lambda>v c. c\<lparr>c_HealthInterval := v\<rparr>) c = c\<lparr>c_HealthInterval := first_of [x5] (c_HealthInterval c)\<rparr>"
  "if_set x6 (\<lambda>v c. c\<lparr>c_ProbeTimeout := v\<rparr>) c = c\<lparr>c_ProbeTimeout := first_of [x6] (c_ProbeTimeout c)\<rparr>"
  "if_set x7 (\<lambda>v c. c\<lparr>c_LagThreshold := v\<rparr>) c = c\<lparr>c_LagThreshold := first_of [x7] (c_LagThreshold c)\<rparr>"
  "if_set x8 (\<lambda>v c. c\<lparr>c_CacheBackend := v\<rparr>) c = c\<lparr>c_CacheBackend := first_of [x8] (c_CacheBackend c)\<rparr>"
  "if_set x9 (\<lambda>v c. c\<lparr>c_RedisURL := v\<rparr>) c = c\<lparr>c_RedisURL := first_of [x9] (c_RedisURL c)\<rparr>"
  "if_set x10 (\<lambda>v c. c\<lparr>c_LogLevel := v\<rparr>) c = c\<lparr>c_LogLevel := first_of [x10] (c_LogLevel c)\<rparr>"
  "if_set x11 (\<lambda>v c. c\<lparr>c_LogFormat := v\<rparr>) c = c\<lparr>c_LogFormat := first_of [x11] (c_LogFormat c)\<rparr>"
  "if_set x12 (\<lambda>v c. c\<lparr>c_WriteTimeout := v\<rparr>) c = c\<lparr>c_WriteTimeout := first_of [x12] (c_WriteTimeout c)\<rparr>"
  "if_set x13 (\<lambda>v c. c\<lparr>c_WSReplayPendingCap := v\<rparr>) c = c\<lparr>c_WSReplayPendingCap := first_of [x13] (c_WSReplayPendingCap c)\<rparr>"
  "if_set x14 (\<lambda>v c. c\<lparr>c_WSAllowedOrigins := v\<rparr>) c = c\<lparr>c_WSAllowedOrigins := first_of [x14] (c_WSAllowedOrigins c)\<rparr>"
  by (simp_all add: if_set_def split: option.split)

lemma if_nonempty_set: "if_nonempty xs upd c = if_set (nonempty xs) upd c"
  by (simp add: if_nonempty_def if_set_def nonempty_def)

lemma env_with_fst: "fst (env_with parse getenv name upd st) = if_set (env_value parse getenv name) upd (fst st)"
  by (simp add: env_with_def if_set_def env_value_def Let_def split: option.split)

lemma yaml_duration_ok:
  "yaml_duration key v upd k c = (None, c') \<Longrightarrow> k (if_set (yaml_dur v) upd c) = (None, c')"
  by (auto simp: yaml_duration_def if_set_def yaml_dur_def split: if_splits option.splits)

lemma first_of_merge [simp]: "first_of [x] (first_of xs d) = first_of (x # xs) d"
  by (cases x) simp_all

lemmas env_helpers = envInt_def envUint64_def envDuration_def envString_def envStringSlice_def

text \<open>The environment as one update of all fields.\<close>

lemma ApplyEnv_fields:
  "fst (ApplyEnv getenv c) =
     \<lparr>c_Port = first_of [env_value ParseInt getenv ''AEGIS_PORT''] (c_Port c),
      c_Upstreams = first_of [env_value parse_list getenv ''AEGIS_UPSTREAMS''] (c_Upstreams c),
      c_MutableTTL = first_of [env_value ParseDuration getenv ''AEGIS_MUTABLE_TTL''] (c_MutableTTL c),
      c_MaxCacheEntries = first_of [env_value ParseInt getenv ''AEGIS_MAX_CACHE_ENTRIES''] (c_MaxCacheEntries c),
      c_FinalityDepth = first_of [env_value (ParseUint 10) getenv ''AEGIS_FINALITY_DEPTH''] (c_FinalityDepth c),
      c_HealthInterval = first_of [env_value ParseDuration getenv ''AEGIS_HEALTH_INTERVAL''] (c_HealthInterval c),
      c_ProbeTimeout = first_of [env_value ParseDuration getenv ''AEGIS_PROBE_TIMEOUT''] (c_ProbeTimeout c),
      c_LagThreshold = first_of [env_value (ParseUint 10) getenv ''AEGIS_LAG_THRESHOLD''] (c_LagThreshold c),
      c_CacheBackend = first_of [env_value Some getenv ''AEGIS_CACHE_BACKEND''] (c_CacheBackend c),
      c_RedisURL = first_of [env_value Some getenv ''AEGIS_REDIS_URL''] (c_RedisURL c),
      c_LogLevel = first_of [env_value Some getenv ''AEGIS_LOG_LEVEL''] (c_LogLevel c),
      c_LogFormat = first_of [env_value Some getenv ''AEGIS_LOG_FORMAT''] (c_LogFormat c),
      c_WriteTimeout = first_of [env_value ParseDuration getenv ''AEGIS_WRITE_TIMEOUT''] (c_WriteTimeout c),
      c_WSReplayPendingCap = first_of [env_value ParseInt getenv ''AEGIS_WS_REPLAY_PENDING_CAP''] (c_WSReplayPendingCap c),
      c_WSAllowedOrigins = first_of [env_value parse_list getenv ''AEGIS_WS_ALLOWED_ORIGINS''] (c_WSAllowedOrigins c)\<rparr>"
  by (cases c) (simp add: ApplyEnv_def env_helpers env_with_fst if_set_upd)

lemma merge_yaml_fields:
  assumes "merge_yaml y c = (None, c')"
  shows "c' =
     \<lparr>c_Port = first_of [y_Port y] (c_Port c),
      c_Upstreams = first_of [nonempty (y_Upstreams y)] (c_Upstreams c),
      c_MutableTTL = first_of [yaml_dur (y_MutableTTL y)] (c_MutableTTL c),
      c_MaxCacheEntries = first_of [y_MaxCacheEntries y] (c_MaxCacheEntries c),
      c_FinalityDepth = first_of [y_FinalityDepth y] (c_FinalityDepth c),
      c_HealthInterval = first_of [yaml_dur (y_HealthInterval y)] (c_HealthInterval c),
      c_ProbeTimeout = first_of [yaml_dur (y_ProbeTimeout y)] (c_ProbeTimeout c),
      c_LagThreshold = first_of [y_LagThreshold y] (c_LagThreshold c),
      c_CacheBackend = first_of [nonempty (y_CacheBackend y)] (c_CacheBackend c),
      c_RedisURL = first_of [nonempty (y_RedisURL y)] (c_RedisURL c),
      c_LogLevel = first_of [nonempty (y_LogLevel y)] (c_LogLevel c),
      c_LogFormat = first_of [nonempty (y_LogFormat y)] (c_LogFormat c),
      c_WriteTimeout = first_of [yaml_dur (y_WriteTimeout y)] (c_WriteTimeout c),
      c_WSReplayPendingCap = first_of [y_WSReplayPendingCap y] (c_WSReplayPendingCap c),
      c_WSAllowedOrigins = first_of [y_WSAllowedOrigins y] (c_WSAllowedOrigins c)\<rparr>"
  using assms unfolding merge_yaml_def Let_def
  by (cases c) (auto dest!: yaml_duration_ok simp: if_nonempty_set if_set_upd)

lemma visit_flag_sel:
  "c_Port (visit_flag m n c) = (if n = ''port'' then int_flag m ''port'' 8080 else c_Port c)"
  "c_Upstreams (visit_flag m n c) = (if n = ''upstreams'' then splitTrimmed (string_flag m ''upstreams'' ''https://eth.llamarpc.com'') (CHR '','') else c_Upstreams c)"
  "c_MutableTTL (visit_flag m n c) = (if n = ''mutable-ttl'' then duration_flag m ''mutable-ttl'' (12 * Second) else c_MutableTTL c)"
  "c_MaxCacheEntries (visit_flag m n c) = (if n = ''max-cache-entries'' then int_flag m ''max-cache-entries'' 10000 else c_MaxCacheEntries c)"
  "c_FinalityDepth (visit_flag m n c) = (if n = ''finality-depth'' then uint64_flag m ''finality-depth'' 12 else c_FinalityDepth c)"
  "c_HealthInterval (visit_flag m n c) = (if n = ''health-interval'' then duration_flag m ''health-interval'' (15 * Second) else c_HealthInterval c)"
  "c_ProbeTimeout (visit_flag m n c) = (if n = ''probe-timeout'' then duration_flag m ''probe-timeout'' (5 * Second) else c_ProbeTimeout c)"
  "c_LagThreshold (visit_flag m n c) = (if n = ''lag-threshold'' then uint64_flag m ''lag-threshold'' 10 else c_LagThreshold c)"
  "c_CacheBackend (visit_flag m n c) = (if n = ''cache-backend'' then string_flag m ''cache-backend'' ''memory'' else c_CacheBackend c)"
  "c_RedisURL (visit_flag m n c) = (if n = ''redis-url'' then string_flag m ''redis-url'' [] else c_RedisURL c)"
  "c_LogLevel (visit_flag m n c) = (if n = ''log-level'' then string_flag m ''log-level'' ''info'' else c_LogLevel c)"
  "c_LogFormat (visit_flag m n c) = (if n = ''log-format'' then string_flag m ''log-format'' ''text'' else c_LogFormat c)"
  "c_WriteTimeout (visit_flag m n c) = (if n = ''write-timeout'' then duration_flag m ''write-timeout'' (30 * Second) else c_WriteTimeout c)"
  "c_WSReplayPendingCap (visit_flag m n c) = (if n = ''ws-replay-pending-cap'' then int_flag m ''ws-replay-pending-cap'' 1024 else c_WSReplayPendingCap c)"
  "c_WSAllowedOrigins (visit_flag m n c) = (if n = ''ws-allowed-origins'' then splitTrimmed (string_flag m ''ws-allowed-origins'' []) (CHR '','') else c_WSAllowedOrigins c)"
  by (simp_all add: visit_flag_def)

lemma fold_sel:
  assumes "\<And>n c. g (f n c) = (if n = k then v else g c)"
  shows "g (fold f ns c) = (if k \<in> set ns then v else g c)"
  by (induction ns arbitrary: c) (auto simp: assms)

lemmas visit_fold_sel = visit_flag_sel [THEN fold_sel]

text \<open>A declared flag is read exactly if it was set.\<close>

lemma typed_lookup:
  assumes "typed_flags formal m" and "map_of m k = Some v"
  shows "has_kind (map_of formal k) v"
  using assms map_of_SomeD [of m k v] by (auto simp: typed_flags_def)

lemma flag_layer:
  assumes "typed_flags config_flags m"
  shows "map_of config_flags k = Some IntFlag \<Longrightarrow>
      (if k \<in> fst ` set m then int_flag m k d1 else x1) = first_of [int_opt m k] x1"
    and "map_of config_flags k = Some Uint64Flag \<Longrightarrow>
      (if k \<in> fst ` set m then uint64_flag m k d2 else x2) = first_of [uint64_opt m k] x2"
    and "map_of config_flags k = Some DurationFlag \<Longrightarrow>
      (if k \<in> fst ` set m then duration_flag m k d3 else x3) = first_of [duration_opt m k] x3"
    and "map_of config_flags k = Some StringFlag \<Longrightarrow>
      (if k \<in> fst ` set m then string_flag m k d4 else x4) = first_of [string_opt m k] x4"
    and "map_of config_flags k = Some StringFlag \<Longrightarrow>
      (if k \<in> fst ` set m then splitTrimmed (string_flag m k d4) (CHR '','') else x5) =
        first_of [slice_opt m k] x5"
  using typed_lookup [OF assms, of k] map_of_eq_None_iff [of m k]
  by (auto simp: int_opt_def int_flag_def uint64_opt_def uint64_flag_def duration_opt_def
      duration_flag_def string_opt_def string_flag_def slice_opt_def
      split: option.splits flag_value.splits)

lemma LoadFile_layer:
  assumes "(if path = [] then (None, Default) else LoadFile load path Default) = (None, c1)"
  shows "merge_yaml (file_layer load path) Default = (None, c1)"
proof (cases "path = []")
  case True
  have "merge_yaml no_yaml Default = (None, Default)"
    by (simp add: merge_yaml_def no_yaml_def yaml_duration_def if_set_def if_nonempty_def)
  with True assms show ?thesis by (simp add: file_layer_def)
next
  case False
  with assms show ?thesis
    by (simp add: file_layer_def LoadFile_def split: file_result.splits)
qed

lemma ParseE:
  assumes "Parse uni load getenv args = Parsed cfg"
  obtains m c1 where "flag_Parse config_flags args = FlagsSet m"
    and "merge_yaml (file_layer load (config_path getenv m)) Default = (None, c1)"
    and "cfg = canonical_names uni (fold (visit_flag m) (map fst m) (fst (ApplyEnv getenv c1)))"
    and "Validate uni cfg = None"
proof -
  obtain m where m: "flag_Parse config_flags args = FlagsSet m"
    using assms by (auto simp: Parse_def split: flag_result.splits)
  let ?path = "config_path getenv m"
  obtain err c1 where l: "(if ?path = [] then (None, Default) else LoadFile load ?path Default) = (err, c1)"
    by fastforce
  with assms m have "err = None"
    and "cfg = canonical_names uni (fold (visit_flag m) (map fst m) (fst (ApplyEnv getenv c1)))"
    and "Validate uni cfg = None"
    by (auto simp: Parse_def Let_def split: option.splits)
  with that m l LoadFile_layer show thesis by metis
qed

lemma Parse_layered:
  assumes "Parse uni load getenv args = Parsed cfg"
  shows "\<exists>m. flag_Parse config_flags args = FlagsSet m \<and>
           cfg = layered uni m getenv (file_layer load (config_path getenv m))"
proof -
  from assms obtain m c1 where m: "flag_Parse config_flags args = FlagsSet m"
    and y: "merge_yaml (file_layer load (config_path getenv m)) Default = (None, c1)"
    and cfg: "cfg = canonical_names uni (fold (visit_flag m) (map fst m) (fst (ApplyEnv getenv c1)))"
    by (rule ParseE)
  note typed = flag_layer [OF flag_Parse_typed [OF m]]
  have "cfg = layered uni m getenv (file_layer load (config_path getenv m))"
    by (rule Config.Config.equality)
       (simp_all add: cfg canonical_names_def visit_fold_sel typed config_flags_def layered_def
         ApplyEnv_fields merge_yaml_fields [OF y] Default_def)
  with m show ?thesis by blast
qed

section \<open>Properties\<close>

text \<open>
  Property C11.  A configuration that is accepted takes every field from the first layer that gives a
  value for it: a flag on the command line, else a well-formed environment variable (a malformed one
  counts as not set), else the YAML file, else the built-in default; the backend, the log level and
  the log format are then trimmed and put in lower case.
\<close>

theorem parse_layers:
  assumes "Parse uni load getenv args = Parsed cfg"
  shows "\<exists>m. flag_Parse config_flags args = FlagsSet m \<and>
           cfg = layered uni m getenv (file_layer load (config_path getenv m))"
  by (rule Parse_layered [OF assms])

definition sample_env :: "string \<Rightarrow> string" where
  "sample_env v =
     (if v = ''AEGIS_PORT'' then ''9000''
      else if v = ''AEGIS_LAG_THRESHOLD'' then ''many''
      else if v = ''AEGIS_LOG_LEVEL'' then '' WARN'' else [])"

theorem parse_layers_witness:
  "\<exists>cfg. Parse id (\<lambda>_. CannotOpen) sample_env [''--mutable-ttl=3s''] = Parsed cfg \<and>
     c_MutableTTL cfg = 3 * Second \<and> c_Port cfg = 9000 \<and> c_LagThreshold cfg = 10 \<and> c_LogLevel cfg = ''warn''"
proof -
  let ?p = "Parse id (\<lambda>_. CannotOpen) sample_env [''--mutable-ttl=3s'']"
  have "(case ?p of Parsed _ \<Rightarrow> True | _ \<Rightarrow> False)" by code_simp
  then obtain cfg where cfg: "?p = Parsed cfg" by (auto split: parsed.splits)
  have "flag_Parse config_flags [''--mutable-ttl=3s''] = FlagsSet [(''mutable-ttl'', FDuration (3 * Second))]"
    by code_simp
  with parse_layers [OF cfg] have
    "cfg = layered id [(''mutable-ttl'', FDuration (3 * Second))] sample_env (file_layer (\<lambda>_. CannotOpen) [])"
    by (simp add: config_path_def string_flag_def sample_env_def)
  moreover have "ToLower id (TrimSpace '' WARN'') = ''warn''" "ParseInt ''9000'' = Some 9000"
    "ParseUint 10 ''many'' = None"
    by code_simp+
  ultimately show ?thesis
    using cfg by (simp add: layered_def duration_opt_def int_opt_def uint64_opt_def string_opt_def env_value_def
        sample_env_def file_layer_def no_yaml_def nonempty_def)
qed

text \<open>A warning is logged for exactly the variables that are set and malformed.\<close>

definition warned :: "(string \<Rightarrow> 'a option) \<Rightarrow> (string \<Rightarrow> string) \<Rightarrow> string \<Rightarrow> string list" where
  "warned parse getenv name = (if getenv name \<noteq> [] \<and> parse (getenv name) = None then [name] else [])"

lemma env_with_snd: "snd (env_with parse getenv name upd st) = snd st @ warned parse getenv name"
  by (simp add: env_with_def warned_def Let_def split: option.split)

lemma env_warnings:
  "snd (ApplyEnv getenv c) =
     concat
        [warned ParseInt getenv ''AEGIS_PORT'',
         warned parse_list getenv ''AEGIS_UPSTREAMS'',
         warned ParseDuration getenv ''AEGIS_MUTABLE_TTL'',
         warned ParseInt getenv ''AEGIS_MAX_CACHE_ENTRIES'',
         warned (ParseUint 10) getenv ''AEGIS_FINALITY_DEPTH'',
         warned ParseDuration getenv ''AEGIS_HEALTH_INTERVAL'',
         warned ParseDuration getenv ''AEGIS_PROBE_TIMEOUT'',
         warned (ParseUint 10) getenv ''AEGIS_LAG_THRESHOLD'',
         warned ParseDuration getenv ''AEGIS_WRITE_TIMEOUT'',
         warned ParseInt getenv ''AEGIS_WS_REPLAY_PENDING_CAP'',
         warned parse_list getenv ''AEGIS_WS_ALLOWED_ORIGINS'']"
  by (simp add: ApplyEnv_def env_helpers env_with_snd) (simp add: warned_def)

text \<open>Names in canonical form are not changed by putting them in canonical form again.\<close>

lemma strip_space_ascii: "is_ascii s \<Longrightarrow> strip_space ps s = dropWhile ascii_space s"
  by (induction s) (auto simp: is_ascii_def)

lemma is_ascii_dropWhile: "is_ascii s \<Longrightarrow> is_ascii (dropWhile P s)"
  unfolding is_ascii_def list_all_iff using set_dropWhileD by metis

lemma is_ascii_rev [simp]: "is_ascii (rev s) = is_ascii s"
  by (simp add: is_ascii_def)

definition trimmed :: "string \<Rightarrow> bool" where
  "trimmed s \<longleftrightarrow> s = [] \<or> \<not> ascii_space (hd s) \<and> \<not> ascii_space (last s)"

lemma TrimSpace_ascii:
  assumes "is_ascii s"
  shows "TrimSpace s = rev (dropWhile ascii_space (rev (dropWhile ascii_space s)))"
  using assms by (simp add: TrimSpace_def strip_space_ascii is_ascii_dropWhile)

lemma TrimSpace_trimmed:
  assumes "is_ascii s"
  shows "is_ascii (TrimSpace s)" and "trimmed (TrimSpace s)"
proof -
  let ?t = "dropWhile ascii_space s" and ?r = "TrimSpace s"
  have r: "?r = rev (dropWhile ascii_space (rev ?t))" by (rule TrimSpace_ascii [OF assms])
  show "is_ascii ?r" using assms by (simp add: r is_ascii_dropWhile)
  have "?r @ rev (takeWhile ascii_space (rev ?t)) = rev (takeWhile ascii_space (rev ?t) @ dropWhile ascii_space (rev ?t))"
    unfolding r by (simp only: rev_append)
  then have t: "?t = ?r @ rev (takeWhile ascii_space (rev ?t))"
    by (simp only: takeWhile_dropWhile_id rev_rev_ident)
  show "trimmed ?r"
  proof (cases "?r = []")
    case False
    then have "hd ?r = hd ?t" by (subst t) simp
    moreover have "?t \<noteq> []" using False t by (metis append_is_Nil_conv)
    ultimately have "\<not> ascii_space (hd ?r)" using hd_dropWhile [of ascii_space s] by simp
    moreover have "last ?r = hd (dropWhile ascii_space (rev ?t))" "dropWhile ascii_space (rev ?t) \<noteq> []"
      using False by (simp_all add: r last_rev)
    then have "\<not> ascii_space (last ?r)" using hd_dropWhile [of ascii_space "rev ?t"] by simp
    ultimately show ?thesis by (simp add: trimmed_def)
  qed (simp add: trimmed_def)
qed

lemma TrimSpace_id:
  assumes "is_ascii s" and "trimmed s"
  shows "TrimSpace s = s"
proof -
  have hd: "dropWhile ascii_space u = u" if "u = [] \<or> \<not> ascii_space (hd u)" for u
    using that by (cases u) auto
  have "dropWhile ascii_space s = s" "dropWhile ascii_space (rev s) = rev s"
    using assms(2) by (auto intro!: hd simp: trimmed_def hd_rev)
  then show ?thesis by (simp add: TrimSpace_ascii [OF assms(1)])
qed

lemma ascii_space_lower: "ascii_space (hd (lower_ascii [c])) = ascii_space c"
  by (auto simp: lower_ascii_def ascii_space_def Let_def)

lemma trimmed_lower: "trimmed (lower_ascii s) = trimmed s"
proof (cases "s = []")
  case False
  then have "hd (lower_ascii s) = hd (lower_ascii [hd s])" "last (lower_ascii s) = hd (lower_ascii [last s])"
    by (simp_all add: lower_ascii_def hd_map last_map)
  with False show ?thesis by (simp add: trimmed_def ascii_space_lower)
qed (simp add: trimmed_def)

lemma canonical_name_idem:
  assumes "is_ascii raw"
  shows "ToLower uni (TrimSpace (ToLower uni (TrimSpace raw))) = ToLower uni (TrimSpace raw)"
proof -
  have a: "is_ascii (TrimSpace raw)" "trimmed (TrimSpace raw)" by (rule TrimSpace_trimmed [OF assms])+
  then have "TrimSpace (lower_ascii (TrimSpace raw)) = lower_ascii (TrimSpace raw)"
    by (simp add: TrimSpace_id is_ascii_lower trimmed_lower)
  with a(1) show ?thesis by (simp add: ToLower_ascii is_ascii_lower)
qed

lemma Validate_None:
  "Validate uni c = None \<longleftrightarrow>
     c_Upstreams c \<noteq> [] \<and> 1 \<le> c_Port c \<and> c_Port c \<le> 65535 \<and> 0 < c_MutableTTL c \<and>
     0 < c_ProbeTimeout c \<and> c_ProbeTimeout c < c_HealthInterval c \<and> 0 < c_WriteTimeout c \<and>
     0 < c_WSReplayPendingCap c \<and>
     ToLower uni (TrimSpace (c_CacheBackend c)) \<in> {''memory'', ''redis''} \<and>
     (ToLower uni (TrimSpace (c_CacheBackend c)) = ''redis'' \<longrightarrow> c_RedisURL c \<noteq> []) \<and>
     ToLower uni (TrimSpace (c_LogLevel c)) \<in> {''debug'', ''info'', ''warn'', ''error''} \<and>
     ToLower uni (TrimSpace (c_LogFormat c)) \<in> {''text'', ''json''}"
  by (simp add: Validate_def Let_def not_less not_le)

text \<open>
  Property C29.  A configuration that is accepted is well formed: there is an upstream, the port is a
  TCP port, the timeouts and the replay cap are positive, a probe ends before the next health check
  begins; the backend, log level and log format have one of the documented values (for settings
  written in ASCII), and a Redis backend comes with a URL.
\<close>

theorem parse_well_formed:
  assumes "Parse uni load getenv args = Parsed cfg"
  shows "c_Upstreams cfg \<noteq> [] \<and> 1 \<le> c_Port cfg \<and> c_Port cfg \<le> 65535 \<and> 0 < c_MutableTTL cfg \<and>
         0 < c_ProbeTimeout cfg \<and> c_ProbeTimeout cfg < c_HealthInterval cfg \<and> 0 < c_WriteTimeout cfg \<and>
         0 < c_WSReplayPendingCap cfg \<and>
         (\<forall>raw. is_ascii raw \<longrightarrow> c_CacheBackend cfg = ToLower uni (TrimSpace raw) \<longrightarrow>
            c_CacheBackend cfg \<in> {''memory'', ''redis''} \<and>
            (c_CacheBackend cfg = ''redis'' \<longrightarrow> c_RedisURL cfg \<noteq> [])) \<and>
         (\<forall>raw. is_ascii raw \<longrightarrow> c_LogLevel cfg = ToLower uni (TrimSpace raw) \<longrightarrow>
            c_LogLevel cfg \<in> {''debug'', ''info'', ''warn'', ''error''}) \<and>
         (\<forall>raw. is_ascii raw \<longrightarrow> c_LogFormat cfg = ToLower uni (TrimSpace raw) \<longrightarrow>
            c_LogFormat cfg \<in> {''text'', ''json''})"
proof -
  from assms have "Validate uni cfg = None" by (rule ParseE)
  moreover have "ToLower uni (TrimSpace x) = x" if "is_ascii raw" "x = ToLower uni (TrimSpace raw)" for x raw
    using that by (simp add: canonical_name_idem)
  ultimately show ?thesis
    unfolding Validate_None by metis
qed

theorem parse_well_formed_witness:
  "\<exists>cfg. Parse id (\<lambda>_. CannotOpen) sample_env [] = Parsed cfg \<and> c_ProbeTimeout cfg < c_HealthInterval cfg"
proof -
  have "(case Parse id (\<lambda>_. CannotOpen) sample_env [] of Parsed _ \<Rightarrow> True | _ \<Rightarrow> False)" by code_simp
  then obtain cfg where "Parse id (\<lambda>_. CannotOpen) sample_env [] = Parsed cfg"
    by (auto split: parsed.splits)
  with parse_well_formed [OF this] show ?thesis by blast
qed

end
