(* ===== verification/Cache.thy ===== *)
theory Cache
  imports Store
begin

text \<open>
  The in-memory cache of internal/cache/cache.go: a map from keys to elements of a doubly linked
  list kept in order of use, with a time to live per entry and an optional cap.  List elements are
  objects the map points to, so they are addresses (\<open>el\<close>) into a heap of entries; the list is the
  sequence of addresses, front first.  The mutex makes every method atomic: each is one function on
  the state, reading the clock once.
\<close>

section \<open>State\<close>

type_synonym el = nat

record entry =
  e_key :: string
  e_value :: bytes
  e_expiry :: "instant option"

record Cache =
  items :: "string \<Rightarrow> el option"
  lru :: "el list"
  maxEntries :: int
  heap :: "el \<Rightarrow> entry"
  next_el :: el

section \<open>container/list\<close>

definition list_Remove :: "el \<Rightarrow> el list \<Rightarrow> el list" where
  "list_Remove el l = remove1 el l"

definition MoveToFront :: "el \<Rightarrow> el list \<Rightarrow> el list" where
  "MoveToFront el l = (if el \<in> set l then el # remove1 el l else l)"

definition Back :: "el list \<Rightarrow> el option" where
  "Back l = (if l = [] then None else Some (last l))"

section \<open>Operations\<close>

definition NewCache :: "int list \<Rightarrow> Cache" where
  "NewCache ms =
     \<lparr>items = (\<lambda>_. None), lru = [], maxEntries = (case ms of [] \<Rightarrow> 0 | m # _ \<Rightarrow> m),
      heap = (\<lambda>_. \<lparr>e_key = [], e_value = [], e_expiry = None\<rparr>), next_el = 0\<rparr>"

definition removeElement :: "Cache \<Rightarrow> el \<Rightarrow> Cache" where
  "removeElement c el =
     c\<lparr>lru := list_Remove el (lru c), items := (items c)(e_key (heap c el) := None)\<rparr>"

definition evictLRU :: "Cache \<Rightarrow> Cache" where
  "evictLRU c = (case Back (lru c) of None \<Rightarrow> c | Some el \<Rightarrow> removeElement c el)"

definition Cache_Get :: "Cache \<Rightarrow> instant \<Rightarrow> string \<Rightarrow> bytes option \<times> Cache" where
  "Cache_Get c now k =
     (case items c k of
        None \<Rightarrow> (None, c)
      | Some el \<Rightarrow>
          (let e = heap c el in
           if expired (e_expiry e) now then (None, removeElement c el)
           else (Some (e_value e), c\<lparr>lru := MoveToFront el (lru c)\<rparr>)))"

definition Cache_Set :: "Cache \<Rightarrow> instant \<Rightarrow> string \<Rightarrow> bytes \<Rightarrow> duration \<Rightarrow> Cache" where
  "Cache_Set c now k v ttl =
     (let expiry = expiry_of now ttl in
      case items c k of
        Some el \<Rightarrow>
          c\<lparr>heap := (heap c)(el := (heap c el)\<lparr>e_value := v, e_expiry := expiry\<rparr>),
            lru := MoveToFront el (lru c)\<rparr>
      | None \<Rightarrow>
          (let c' = (if 0 < maxEntries c \<and> maxEntries c \<le> int (length (lru c))
                     then evictLRU c else c);
               el = next_el c'
           in c'\<lparr>heap := (heap c')(el := \<lparr>e_key = k, e_value = v, e_expiry = expiry\<rparr>),
                 next_el := Suc el,
                 lru := el # lru c',
                 items := (items c')(k \<mapsto> el)\<rparr>))"

definition Cache_Delete :: "Cache \<Rightarrow> instant \<Rightarrow> string \<Rightarrow> Cache" where
  "Cache_Delete c now k =
     (case items c k of None \<Rightarrow> c | Some el \<Rightarrow> removeElement c el)"

definition Cache_Size :: "Cache \<Rightarrow> nat" where
  "Cache_Size c = length (lru c)"

definition Cache_Close :: "Cache \<Rightarrow> string option" where
  "Cache_Close c = None"

text \<open>
  \<open>deleteExpired\<close> ranges over the map while deleting from it; \<open>ks\<close> is the order in which the
  range statement, which Go leaves unspecified, yields the keys.
\<close>

fun deleteExpired_loop :: "instant \<Rightarrow> string list \<Rightarrow> Cache \<Rightarrow> Cache" where
  "deleteExpired_loop now [] c = c"
| "deleteExpired_loop now (k # ks) c =
     deleteExpired_loop now ks
       (case items c k of
          None \<Rightarrow> c
        | Some el \<Rightarrow> if expired (e_expiry (heap c el)) now then removeElement c el else c)"

definition deleteExpired :: "Cache \<Rightarrow> instant \<Rightarrow> string list \<Rightarrow> Cache" where
  "deleteExpired c now ks = deleteExpired_loop now ks c"

definition cache_Store :: "Cache Store" where
  "cache_Store = \<lparr>st_Get = Cache_Get, st_Set = Cache_Set, st_Delete = Cache_Delete\<rparr>"

section \<open>Invariant\<close>

text \<open>
  The map and the list describe the same entries: a key points to an address exactly when that
  address is on the list and holds an entry of that key.  Hence no two list elements share a key.
\<close>

definition cache_wf :: "Cache \<Rightarrow> bool" where
  "cache_wf c \<longleftrightarrow>
     distinct (lru c) \<and>
     (\<forall>k el. items c k = Some el \<longleftrightarrow> el \<in> set (lru c) \<and> e_key (heap c el) = k) \<and>
     (\<forall>el \<in> set (lru c). el < next_el c) \<and>
     (0 < maxEntries c \<longrightarrow> int (length (lru c)) \<le> maxEntries c)"

lemma cache_wfD:
  assumes "cache_wf c"
  shows cache_wf_distinct: "distinct (lru c)"
    and cache_wf_items: "items c k = Some el \<longleftrightarrow> el \<in> set (lru c) \<and> e_key (heap c el) = k"
    and cache_wf_fresh: "el \<in> set (lru c) \<Longrightarrow> el < next_el c"
    and cache_wf_cap: "0 < maxEntries c \<Longrightarrow> int (length (lru c)) \<le> maxEntries c"
  using assms by (auto simp: cache_wf_def)

lemma cache_wf_None:
  assumes "cache_wf c" and "el \<in> set (lru c)"
  shows "items c (e_key (heap c el)) = Some el"
  using assms by (simp add: cache_wf_items)

lemma cache_wf_key_inj:
  assumes "cache_wf c" and "el \<in> set (lru c)" and "el' \<in> set (lru c)"
    and "e_key (heap c el) = e_key (heap c el')"
  shows "el = el'"
  using assms cache_wf_None by (metis option.inject)

lemma set_list_Remove [simp]: "distinct l \<Longrightarrow> set (list_Remove el l) = set l - {el}"
  by (simp add: list_Remove_def)

lemma set_MoveToFront [simp]: "distinct l \<Longrightarrow> set (MoveToFront el l) = set l"
  by (auto simp: MoveToFront_def)

lemma distinct_list_Remove [simp]: "distinct l \<Longrightarrow> distinct (list_Remove el l)"
  by (simp add: list_Remove_def)

lemma distinct_MoveToFront [simp]: "distinct l \<Longrightarrow> distinct (MoveToFront el l)"
  by (simp add: MoveToFront_def)

lemma length_list_Remove: "el \<in> set l \<Longrightarrow> length (list_Remove el l) = length l - 1"
  by (simp add: list_Remove_def length_remove1)

lemma length_MoveToFront [simp]: "length (MoveToFront el l) = length l"
  by (auto simp: MoveToFront_def length_remove1 intro: Suc_pred dest: length_pos_if_in_set)

lemma removeElement_sel [go_state, simp]:
  "lru (removeElement c el) = list_Remove el (lru c)"
  "items (removeElement c el) = (items c)(e_key (heap c el) := None)"
  "heap (removeElement c el) = heap c"
  "maxEntries (removeElement c el) = maxEntries c"
  "next_el (removeElement c el) = next_el c"
  by (simp_all add: removeElement_def)

lemma NewCache_wf: "cache_wf (NewCache ms)"
  by (simp add: cache_wf_def NewCache_def split: list.splits)

lemma removeElement_wf:
  assumes wf: "cache_wf c" and el: "el \<in> set (lru c)"
  shows "cache_wf (removeElement c el)"
proof -
  have "items (removeElement c el) k = Some x \<longleftrightarrow>
      x \<in> set (lru (removeElement c el)) \<and> e_key (heap (removeElement c el) x) = k" for k x
    using cache_wf_key_inj [OF wf _ el] cache_wf_distinct [OF wf] el
    by (auto simp: cache_wf_items [OF wf])
  moreover have "int (length (list_Remove el (lru c))) \<le> maxEntries c" if "0 < maxEntries c"
    using cache_wf_cap [OF wf that] by (simp add: length_list_Remove [OF el])
  ultimately show ?thesis
    using cache_wf_distinct [OF wf] cache_wf_fresh [OF wf] unfolding cache_wf_def by auto
qed

lemma Back_Some: "Back l = Some el \<longleftrightarrow> l \<noteq> [] \<and> el = last l"
  by (auto simp: Back_def)

lemma evictLRU_wf: "cache_wf c \<Longrightarrow> cache_wf (evictLRU c)"
  by (auto simp: evictLRU_def Back_Some removeElement_wf split: option.splits)

lemma touch_wf:
  assumes wf: "cache_wf c"
  shows "cache_wf (c\<lparr>lru := MoveToFront el (lru c)\<rparr>)"
  using assms by (simp add: cache_wf_def)

lemma overwrite_wf:
  assumes "cache_wf c"
  shows "cache_wf (c\<lparr>heap := (heap c)(el := (heap c el)\<lparr>e_value := v, e_expiry := x\<rparr>)\<rparr>)"
  using assms by (auto simp: cache_wf_def)

lemma insert_wf:
  assumes wf: "cache_wf c" and free: "items c k = None"
    and room: "0 < maxEntries c \<longrightarrow> int (length (lru c)) < maxEntries c"
  shows "cache_wf (c\<lparr>heap := (heap c)(next_el c := \<lparr>e_key = k, e_value = v, e_expiry = x\<rparr>),
           next_el := Suc (next_el c), lru := next_el c # lru c,
           items := (items c)(k \<mapsto> next_el c)\<rparr>)"
proof -
  have fresh: "next_el c \<notin> set (lru c)"
    using cache_wf_fresh [OF wf] by blast
  have "e_key (heap c el) \<noteq> k" if "el \<in> set (lru c)" for el
    using cache_wf_None [OF wf that] free by auto
  then show ?thesis
    using fresh room wf
    by (auto simp: cache_wf_def less_Suc_eq)
qed

lemma Cache_Get_wf: "cache_wf c \<Longrightarrow> cache_wf (snd (Cache_Get c now k))"
  by (auto simp: Cache_Get_def Let_def touch_wf removeElement_wf cache_wf_items split: option.splits)

lemma Cache_Delete_wf: "cache_wf c \<Longrightarrow> cache_wf (Cache_Delete c now k)"
  by (auto simp: Cache_Delete_def removeElement_wf cache_wf_items split: option.splits)

lemma evictLRU_sel [go_state, simp]:
  "maxEntries (evictLRU c) = maxEntries c" "next_el (evictLRU c) = next_el c"
  "heap (evictLRU c) = heap c"
  by (simp_all add: evictLRU_def split: option.splits)

lemma length_evictLRU: "length (lru (evictLRU c)) = length (lru c) - 1"
  by (auto simp: evictLRU_def Back_def length_list_Remove)

lemma evictLRU_items_None: "items c k = None \<Longrightarrow> items (evictLRU c) k = None"
  by (auto simp: evictLRU_def split: option.splits)

lemma Cache_Set_wf:
  assumes wf: "cache_wf c"
  shows "cache_wf (Cache_Set c now k v ttl)"
proof (cases "items c k")
  case None
  let ?full = "0 < maxEntries c \<and> maxEntries c \<le> int (length (lru c))"
  let ?c = "if ?full then evictLRU c else c"
  have "cache_wf ?c" "items ?c k = None"
    using wf None evictLRU_wf evictLRU_items_None by auto
  moreover have "int (length (lru ?c)) < maxEntries ?c" if "0 < maxEntries ?c"
    using that cache_wf_cap [OF wf] by (auto simp: length_evictLRU)
  ultimately show ?thesis
    using insert_wf [of ?c k v "expiry_of now ttl"] None
    by (simp add: Cache_Set_def Let_def)
next
  case (Some el)
  then show ?thesis
    using touch_wf [OF overwrite_wf [OF wf, of el "expiry_of now ttl" v], of el]
    by (simp add: Cache_Set_def)
qed

section \<open>Refinement to a list of entries in order of use\<close>

text \<open>
  The specification forgets addresses, the map and the heap: the cache is the list of its entries,
  most recently used first.
\<close>

type_synonym lru_spec = "(string \<times> bytes \<times> instant option) list"

definition entry_of :: "entry \<Rightarrow> string \<times> bytes \<times> instant option" where
  "entry_of e = (e_key e, e_value e, e_expiry e)"

definition recency :: "Cache \<Rightarrow> lru_spec" where
  "recency c = map (\<lambda>el. entry_of (heap c el)) (lru c)"

definition del_key :: "string \<Rightarrow> lru_spec \<Rightarrow> lru_spec" where
  "del_key k xs = filter (\<lambda>x. fst x \<noteq> k) xs"

definition spec_get :: "instant \<Rightarrow> string \<Rightarrow> lru_spec \<Rightarrow> bytes option \<times> lru_spec" where
  "spec_get now k xs =
     (case map_of xs k of
        None \<Rightarrow> (None, xs)
      | Some (v, x) \<Rightarrow>
          if expired x now then (None, del_key k xs) else (Some v, (k, v, x) # del_key k xs))"

definition spec_set :: "int \<Rightarrow> instant \<Rightarrow> string \<Rightarrow> bytes \<Rightarrow> duration \<Rightarrow> lru_spec \<Rightarrow> lru_spec" where
  "spec_set cap now k v ttl xs =
     (k, v, expiry_of now ttl) #
       (if map_of xs k \<noteq> None then del_key k xs
        else if 0 < cap \<and> cap \<le> int (length xs) then butlast xs
        else xs)"

lemma length_recency [simp]: "length (recency c) = length (lru c)"
  by (simp add: recency_def)

lemma recency_lru_update:
  "recency (c\<lparr>lru := l\<rparr>) = map (\<lambda>el. entry_of (heap c el)) l"
  by (simp add: recency_def)

lemma map_of_recency:
  assumes wf: "cache_wf c"
  shows "map_of (recency c) k = map_option (\<lambda>el. snd (entry_of (heap c el))) (items c k)"
proof -
  have inj: "inj_on (\<lambda>el. e_key (heap c el)) (set (lru c))"
    using cache_wf_key_inj [OF wf] by (auto simp: inj_on_def)
  then have dist: "distinct (map fst (recency c))"
    using cache_wf_distinct [OF wf]
    by (simp add: recency_def entry_of_def comp_def distinct_map)
  show ?thesis
  proof (cases "items c k")
    case None
    then have "k \<notin> fst ` set (recency c)"
      using cache_wf_None [OF wf] by (auto simp: recency_def entry_of_def)
    with None show ?thesis by (simp add: map_of_eq_None_iff)
  next
    case (Some el)
    then have "(k, snd (entry_of (heap c el))) \<in> set (recency c)"
      using cache_wf_items [OF wf] by (auto simp: recency_def entry_of_def)
    with Some dist show ?thesis by simp
  qed
qed

lemma map_of_recency_None: "cache_wf c \<Longrightarrow> map_of (recency c) k = None \<longleftrightarrow> items c k = None"
  by (simp add: map_of_recency)

lemma recency_list_Remove:
  assumes wf: "cache_wf c" and el: "el \<in> set (lru c)"
  shows "map (\<lambda>el. entry_of (heap c el)) (list_Remove el (lru c)) =
           del_key (e_key (heap c el)) (recency c)"
proof -
  have "e_key (heap c x) \<noteq> e_key (heap c el) \<longleftrightarrow> x \<noteq> el" if "x \<in> set (lru c)" for x
    using cache_wf_key_inj [OF wf that el] by auto
  then have "filter (\<lambda>x. e_key (heap c x) \<noteq> e_key (heap c el)) (lru c) = list_Remove el (lru c)"
    using cache_wf_distinct [OF wf]
    by (auto simp: list_Remove_def distinct_remove1_removeAll removeAll_filter_not_eq
        intro!: filter_cong)
  then show ?thesis
    by (simp add: recency_def del_key_def filter_map comp_def entry_of_def)
qed

lemma recency_removeElement:
  assumes "cache_wf c" and "el \<in> set (lru c)"
  shows "recency (removeElement c el) = del_key (e_key (heap c el)) (recency c)"
  using recency_list_Remove [OF assms] by (simp add: recency_def [of "removeElement c el"])

lemma recency_touch:
  assumes wf: "cache_wf c" and "items c k = Some el"
  shows "map (\<lambda>el. entry_of (heap c el)) (MoveToFront el (lru c)) =
           entry_of (heap c el) # del_key k (recency c)"
  using assms recency_list_Remove [OF wf, of el] cache_wf_items [OF wf]
  by (auto simp: MoveToFront_def list_Remove_def)

lemma recency_evictLRU:
  assumes wf: "cache_wf c"
  shows "recency (evictLRU c) = butlast (recency c)"
proof (cases "lru c" rule: rev_cases)
  case Nil
  then show ?thesis by (simp add: evictLRU_def Back_def recency_def)
next
  case (snoc ys y)
  then have "y \<notin> set ys" using cache_wf_distinct [OF wf] by simp
  with snoc show ?thesis
    by (simp add: evictLRU_def Back_def recency_def list_Remove_def remove1_append)
qed

lemma Cache_Get_refines:
  assumes wf: "cache_wf c"
  shows "fst (Cache_Get c now k) = fst (spec_get now k (recency c)) \<and>
         recency (snd (Cache_Get c now k)) = snd (spec_get now k (recency c))"
proof (cases "items c k")
  case None
  then show ?thesis
    by (simp add: Cache_Get_def spec_get_def map_of_recency [OF wf])
next
  case (Some el)
  then have el: "el \<in> set (lru c)" "e_key (heap c el) = k"
    using cache_wf_items [OF wf] by auto
  with Some recency_touch [OF wf Some] recency_removeElement [OF wf el(1)] show ?thesis
    by (simp add: Cache_Get_def spec_get_def map_of_recency [OF wf] Let_def entry_of_def
        recency_lru_update)
qed

lemma Cache_Set_refines:
  assumes wf: "cache_wf c"
  shows "recency (Cache_Set c now k v ttl) = spec_set (maxEntries c) now k v ttl (recency c)"
proof (cases "items c k")
  case None
  let ?c = "if 0 < maxEntries c \<and> maxEntries c \<le> int (length (lru c)) then evictLRU c else c"
  have "next_el ?c \<notin> set (lru ?c)"
    using cache_wf_fresh [OF wf] cache_wf_fresh [OF evictLRU_wf [OF wf]] by (auto split: if_splits)
  then have "recency (Cache_Set c now k v ttl) = (k, v, expiry_of now ttl) # recency ?c"
    using None by (auto simp: Cache_Set_def Let_def recency_def entry_of_def)
  with None show ?thesis
    by (simp add: spec_set_def map_of_recency [OF wf] recency_evictLRU [OF wf])
next
  case (Some el)
  then have el: "el \<in> set (lru c)" "e_key (heap c el) = k"
    using cache_wf_items [OF wf] by auto
  let ?h = "(heap c)(el := (heap c el)\<lparr>e_value := v, e_expiry := expiry_of now ttl\<rparr>)"
  have "map (\<lambda>x. entry_of (?h x)) (list_Remove el (lru c)) = del_key k (recency c)"
  proof -
    have "map (\<lambda>x. entry_of (?h x)) (list_Remove el (lru c)) =
        map (\<lambda>x. entry_of (heap c x)) (list_Remove el (lru c))"
      using cache_wf_distinct [OF wf] by (intro map_cong) auto
    with recency_list_Remove [OF wf el(1)] el(2) show ?thesis by simp
  qed
  then have "recency (Cache_Set c now k v ttl) = (k, v, expiry_of now ttl) # del_key k (recency c)"
    using Some el
    by (simp add: Cache_Set_def recency_def [of "c\<lparr>heap := _, lru := _\<rparr>"] entry_of_def
        MoveToFront_def list_Remove_def)
  with Some show ?thesis
    by (simp add: spec_set_def map_of_recency [OF wf])
qed

lemma Cache_Delete_refines:
  assumes wf: "cache_wf c"
  shows "recency (Cache_Delete c now k) = del_key k (recency c)"
proof (cases "items c k")
  case None
  then have "k \<notin> fst ` set (recency c)"
    using map_of_recency_None [OF wf] by (simp add: map_of_eq_None_iff)
  then have "del_key k (recency c) = recency c"
    by (auto simp: del_key_def intro: filter_True)
  with None show ?thesis by (simp add: Cache_Delete_def)
next
  case (Some el)
  then have "el \<in> set (lru c)" "e_key (heap c el) = k"
    using cache_wf_items [OF wf] by auto
  with Some show ?thesis
    using recency_removeElement [OF wf, of el] by (simp add: Cache_Delete_def)
qed

text \<open>One round of the janitor keeps exactly the entries that have not expired.\<close>

definition sweep :: "instant \<Rightarrow> string \<Rightarrow> Cache \<Rightarrow> Cache" where
  "sweep now k c =
     (case items c k of
        None \<Rightarrow> c
      | Some el \<Rightarrow> if expired (e_expiry (heap c el)) now then removeElement c el else c)"

lemma deleteExpired_loop_Cons:
  "deleteExpired_loop now (k # ks) c = deleteExpired_loop now ks (sweep now k c)"
  by (simp add: sweep_def)

lemma sweep_wf: "cache_wf c \<Longrightarrow> cache_wf (sweep now k c)"
  by (auto simp: sweep_def removeElement_wf cache_wf_items split: option.splits)

lemma recency_sweep:
  assumes wf: "cache_wf c"
  shows "recency (sweep now k c) =
           filter (\<lambda>(k', v, x). \<not> (expired x now \<and> k' = k)) (recency c)"
proof (cases "items c k")
  case None
  then have "map_of (recency c) k = None"
    by (simp add: map_of_recency [OF wf])
  then have "filter (\<lambda>(k', v, x). \<not> (expired x now \<and> k' = k)) (recency c) = recency c"
    by (intro filter_True) (auto simp: map_of_eq_None_iff image_iff)
  with None show ?thesis by (simp add: sweep_def)
next
  case (Some el)
  then have el: "el \<in> set (lru c)" "e_key (heap c el) = k"
    using cache_wf_items [OF wf] by auto
  have only: "x = el" if "x \<in> set (lru c)" "e_key (heap c x) = k" for x
    using cache_wf_key_inj [OF wf that(1) el(1)] that(2) el(2) by simp
  have "filter (\<lambda>(k', v, x). \<not> (expired x now \<and> k' = k)) (recency c) =
      (if expired (e_expiry (heap c el)) now then del_key k (recency c) else recency c)"
    using only by (auto simp: del_key_def recency_def entry_of_def intro!: filter_cong filter_True)
  with Some recency_removeElement [OF wf el(1)] el(2) show ?thesis
    by (simp add: sweep_def)
qed

lemma deleteExpired_loop_refines:
  "cache_wf c \<Longrightarrow>
     cache_wf (deleteExpired_loop now ks c) \<and>
     recency (deleteExpired_loop now ks c) =
       filter (\<lambda>(k, v, x). \<not> (expired x now \<and> k \<in> set ks)) (recency c)"
proof (induction ks arbitrary: c)
  case Nil
  then show ?case by simp
next
  case (Cons k ks)
  show ?case
    using Cons.IH [OF sweep_wf [OF Cons.prems]]
    unfolding deleteExpired_loop_Cons recency_sweep [OF Cons.prems]
    by (auto intro!: filter_cong)
qed

lemma deleteExpired_refines:
  assumes wf: "cache_wf c" and range: "set ks = dom (items c)"
  shows "cache_wf (deleteExpired c now ks) \<and>
         recency (deleteExpired c now ks) = filter (\<lambda>(k, v, x). \<not> expired x now) (recency c)"
proof -
  have "k \<in> set ks" if "(k, v, x) \<in> set (recency c)" for k v x
  proof -
    from that obtain el where "el \<in> set (lru c)" "e_key (heap c el) = k"
      by (auto simp: recency_def entry_of_def)
    then show ?thesis
      using cache_wf_None [OF wf] range by auto
  qed
  then have "filter (\<lambda>(k, v, x). \<not> (expired x now \<and> k \<in> set ks)) (recency c) =
      filter (\<lambda>(k, v, x). \<not> expired x now) (recency c)"
    by (auto intro!: filter_cong)
  with deleteExpired_loop_refines [OF wf] show ?thesis
    by (simp add: deleteExpired_def)
qed

section \<open>The cache keeps the store contract\<close>

definition live :: "lru_spec \<Rightarrow> instant \<Rightarrow> string \<Rightarrow> bytes option" where
  "live xs t k =
     (case map_of xs k of None \<Rightarrow> None | Some (v, x) \<Rightarrow> if expired x t then None else Some v)"

definition cache_view :: "Cache \<Rightarrow> instant \<Rightarrow> string \<Rightarrow> bytes option" where
  "cache_view c = live (recency c)"

lemma map_of_del_key: "map_of (del_key k xs) k' = (if k' = k then None else map_of xs k')"
  by (induction xs) (auto simp: del_key_def)

lemma live_del_key: "live (del_key k xs) t = (live xs t)(k := None)"
  by (rule ext) (simp add: live_def map_of_del_key)

lemma live_Cons:
  "live ((k, v, x) # xs) t = (live xs t)(k := if expired x t then None else Some v)"
  by (rule ext) (simp add: live_def)

lemma live_antimono: "t \<le> t' \<Longrightarrow> live xs t' \<subseteq>\<^sub>m live xs t"
  by (auto simp: map_le_def live_def dom_def dest: expired_mono split: option.splits if_splits)

lemma live_spec_get:
  assumes "t \<le> t'"
  shows "live (snd (spec_get t k xs)) t' = live xs t'"
proof (cases "map_of xs k")
  case None
  then show ?thesis by (simp add: spec_get_def)
next
  case (Some p)
  obtain v x where p: "p = (v, x)" by (cases p)
  have "live xs t' k = (if expired x t' then None else Some v)"
    using Some p by (simp add: live_def)
  with Some p show ?thesis
    using expired_mono [OF _ assms, of x] by (auto simp: spec_get_def live_del_key live_Cons)
qed

lemma distinct_keys_recency:
  assumes wf: "cache_wf c"
  shows "distinct (map fst (recency c))"
  using cache_wf_distinct [OF wf] cache_wf_key_inj [OF wf]
  by (auto simp: recency_def entry_of_def comp_def distinct_map inj_on_def)

lemma map_of_butlast:
  assumes "distinct (map fst xs)" and "map_of (butlast xs) k = Some y"
  shows "map_of xs k = Some y"
  using assms by (cases xs rule: rev_cases) (auto simp: map_add_Some_iff)

lemma live_spec_set:
  assumes "distinct (map fst xs)"
  shows "live (spec_set cap t k v ttl xs) t' k =
           (if expired (expiry_of t ttl) t' then None else Some v)"
    and "k' \<noteq> k \<Longrightarrow> live (spec_set cap t k v ttl xs) t' k' = Some v' \<Longrightarrow> live xs t' k' = Some v'"
proof -
  show "live (spec_set cap t k v ttl xs) t' k =
      (if expired (expiry_of t ttl) t' then None else Some v)"
    by (simp add: spec_set_def live_Cons)
  assume "k' \<noteq> k" and *: "live (spec_set cap t k v ttl xs) t' k' = Some v'"
  then have "live (if map_of xs k \<noteq> None then del_key k xs
      else if 0 < cap \<and> cap \<le> int (length xs) then butlast xs else xs) t' k' = Some v'"
    by (simp add: spec_set_def live_Cons)
  with \<open>k' \<noteq> k\<close> have "live (butlast xs) t' k' = Some v' \<or> live xs t' k' = Some v'"
    by (auto simp: live_del_key split: if_splits)
  then show "live xs t' k' = Some v'"
    using map_of_butlast [OF assms] by (fastforce simp: live_def split: option.splits)
qed

interpretation lru_cache: kv_store cache_Store cache_wf cache_view expiry_of
proof unfold_locales
  fix s t k v
  assume "cache_wf s"
  then show "fst (st_Get cache_Store s t k) = Some v \<Longrightarrow> cache_view s t k = Some v"
    and "cache_view s t k = Some v \<Longrightarrow> fst (st_Get cache_Store s t k) = Some v"
    using Cache_Get_refines [of s t k]
    by (auto simp: cache_Store_def cache_view_def live_def spec_get_def
        split: option.splits if_splits)
next
  fix s t t' k
  assume "cache_wf s" and "t \<le> (t' :: instant)"
  then show "cache_view (snd (st_Get cache_Store s t k)) t' \<subseteq>\<^sub>m cache_view s t'"
    using Cache_Get_refines [of s t k] live_spec_get [of t t' k "recency s"]
    by (simp add: cache_Store_def cache_view_def)
next
  fix s t k
  assume "cache_wf s"
  then show "cache_wf (snd (st_Get cache_Store s t k))"
    and "cache_wf (st_Delete cache_Store s t k)"
    by (simp_all add: cache_Store_def Cache_Get_wf Cache_Delete_wf)
next
  fix s t k v ttl
  assume "cache_wf s"
  then show "cache_wf (st_Set cache_Store s t k v ttl)"
    by (simp add: cache_Store_def Cache_Set_wf)
next
  fix s and t t' :: instant and k v ttl v'
  assume "cache_wf s"
  then show "cache_view (st_Set cache_Store s t k v ttl) t' k = Some v' \<Longrightarrow>
      v' = v \<and> \<not> expired (expiry_of t ttl) t'"
    and "cache_view (st_Set cache_Store s t k v ttl) t' k = Some v' \<Longrightarrow>
      v' = v \<and> \<not> expired (expiry_of t ttl) t' \<or> cache_view s t' k = Some v'"
    and "\<not> expired (expiry_of t ttl) t' \<Longrightarrow>
      cache_view (st_Set cache_Store s t k v ttl) t' k = Some v"
    by (auto simp: cache_Store_def cache_view_def Cache_Set_refines live_spec_set(1)
        distinct_keys_recency split: if_splits)
next
  fix s and t t' :: instant and k k' v ttl v'
  assume "cache_wf s" and "k' \<noteq> k" and "cache_view (st_Set cache_Store s t k v ttl) t' k' = Some v'"
  then show "cache_view s t' k' = Some v'"
    using live_spec_set(2) [OF distinct_keys_recency [of s]]
    by (simp add: cache_Store_def cache_view_def Cache_Set_refines)
next
  fix s and t t' :: instant and k
  assume "cache_wf s"
  then show "cache_view (st_Delete cache_Store s t k) t' \<subseteq>\<^sub>m cache_view s t'"
    and "cache_view (st_Delete cache_Store s t k) t' k = None"
    by (auto simp: cache_Store_def cache_view_def Cache_Delete_refines live_del_key map_le_def)
next
  fix s and t t' :: instant
  assume "t \<le> t'"
  then show "cache_view s t' \<subseteq>\<^sub>m cache_view s t"
    unfolding cache_view_def by (rule live_antimono)
qed

section \<open>Every state the cache can reach\<close>

text \<open>
  Requests call \<open>Get\<close>, \<open>Set\<close> and \<open>Delete\<close> at any time and in any order; each tick of
  \<open>cleanupLoop\<close> runs \<open>deleteExpired\<close>.
\<close>

inductive cache_step :: "Cache \<Rightarrow> Cache \<Rightarrow> bool" where
  get: "cache_step c (snd (Cache_Get c now k))"
| set: "cache_step c (Cache_Set c now k v ttl)"
| delete: "cache_step c (Cache_Delete c now k)"
| tick: "set ks = dom (items c) \<Longrightarrow> cache_step c (deleteExpired c now ks)"

inductive cache_reach :: "int list \<Rightarrow> Cache \<Rightarrow> bool" for ms where
  new: "cache_reach ms (NewCache ms)"
| step: "cache_reach ms c \<Longrightarrow> cache_step c c' \<Longrightarrow> cache_reach ms c'"

lemma deleteExpired_loop_maxEntries [go_state, simp]:
  "maxEntries (deleteExpired_loop now ks c) = maxEntries c"
  by (induction ks arbitrary: c) (auto split: option.splits)

lemma cache_step_wf: "cache_step c c' \<Longrightarrow> cache_wf c \<Longrightarrow> cache_wf c'"
  by (induction rule: cache_step.induct)
    (simp_all add: Cache_Get_wf Cache_Set_wf Cache_Delete_wf deleteExpired_refines)

lemma cache_step_maxEntries: "cache_step c c' \<Longrightarrow> maxEntries c' = maxEntries c"
  by (induction rule: cache_step.induct)
    (auto simp: Cache_Get_def Cache_Set_def Cache_Delete_def deleteExpired_def Let_def
      split: option.splits)

lemma cache_reach_inv:
  "cache_reach ms c \<Longrightarrow> cache_wf c \<and> maxEntries c = maxEntries (NewCache ms)"
  by (induction rule: cache_reach.induct)
    (auto simp: NewCache_wf dest: cache_step_wf cache_step_maxEntries)

section \<open>Properties\<close>

text \<open>
  Property C16.  Every state reachable from \<open>NewCache(ctx, d, m)\<close> by any interleaving of
  requests and janitor ticks keeps the map and the list in agreement, and never holds more than
  \<open>m\<close> entries when \<open>m\<close> is positive: immutable entries cannot exhaust memory.
\<close>

theorem cache_reach_bounded:
  assumes "cache_reach [m] c" and "0 < m"
  shows "cache_wf c \<and> int (Cache_Size c) \<le> m"
proof -
  from cache_reach_inv [OF assms(1)] have "cache_wf c" and "maxEntries c = m"
    by (auto simp: NewCache_def)
  with assms(2) show ?thesis
    using cache_wf_cap [of c] by (simp add: Cache_Size_def)
qed

theorem cache_reach_bounded_witness:
  "int (Cache_Size (Cache_Set (Cache_Set (NewCache [1]) 0 ''a'' ''x'' 0) 5 ''b'' ''y'' 0)) \<le> 1"
proof -
  have "cache_reach [1] (Cache_Set (Cache_Set (NewCache [1]) 0 ''a'' ''x'' 0) 5 ''b'' ''y'' 0)"
    by (intro cache_reach.step [OF cache_reach.step [OF cache_reach.new cache_step.set]
        cache_step.set])
  from cache_reach_bounded [OF this] show ?thesis by simp
qed

text \<open>
  Property C4.  The map-and-linked-list cache implements the plain list of entries in order of use:
  \<open>Get\<close> answers from the list and moves the entry to the front (or drops it when expired),
  \<open>Set\<close> puts the entry in front and, for a new key at the cap, drops exactly the least recently
  used one, \<open>Delete\<close> removes the key's entry, and \<open>deleteExpired\<close> filters the expired entries,
  whatever order the map is ranged over.
\<close>

theorem cache_refines_lru:
  assumes "cache_wf c"
  shows "fst (Cache_Get c now k) = fst (spec_get now k (recency c)) \<and>
         recency (snd (Cache_Get c now k)) = snd (spec_get now k (recency c)) \<and>
         recency (Cache_Set c now k v ttl) = spec_set (maxEntries c) now k v ttl (recency c) \<and>
         recency (Cache_Delete c now k) = del_key k (recency c) \<and>
         (\<forall>ks. set ks = dom (items c) \<longrightarrow>
            recency (deleteExpired c now ks) = filter (\<lambda>(k, v, x). \<not> expired x now) (recency c))"
  using assms Cache_Get_refines Cache_Set_refines Cache_Delete_refines deleteExpired_refines
  by simp

theorem cache_refines_lru_witness:
  "recency (Cache_Set (Cache_Set (NewCache [1]) 0 ''a'' ''x'' 0) 5 ''b'' ''y'' 0) =
     [(''b'', ''y'', None)]"
proof -
  let ?c = "Cache_Set (NewCache [1]) 0 ''a'' ''x'' 0"
  have "cache_wf ?c"
    by (simp add: Cache_Set_wf NewCache_wf)
  from cache_refines_lru [OF this]
  have "recency (Cache_Set ?c 5 ''b'' ''y'' 0) =
      spec_set (maxEntries ?c) 5 ''b'' ''y'' 0 (recency ?c)"
    by blast
  also have "\<dots> = [(''b'', ''y'', None)]"
    by (simp add: Cache_Set_def NewCache_def recency_def entry_of_def spec_set_def expiry_of_def)
  finally show ?thesis .
qed

text \<open>
  Property C22.  After any sequence of calls made up to instant \<open>t\<close>, a lookup that hits returns the
  value of the last \<open>Set\<close> of that very key, which no later \<open>Delete\<close> removed and which has not
  expired at \<open>t\<close>.
\<close>

theorem cache_hit_is_last_write:
  assumes "\<forall>op \<in> set ops. op_time op \<le> t"
    and "fst (Cache_Get (run_ops cache_Store (NewCache ms) ops) t k) = Some v"
  shows "\<exists>x. last_write expiry_of ops k = Some (v, x) \<and> \<not> expired x t"
proof (rule lru_cache.lookup_is_last_write [of "NewCache ms"])
  show "cache_wf (NewCache ms)"
    by (rule NewCache_wf)
  show "cache_view (NewCache ms) t = (\<lambda>_. None)" for t
    by (rule ext) (simp add: cache_view_def recency_def NewCache_def live_def)
  show "\<forall>op \<in> set ops. op_time op \<le> t"
    by (rule assms(1))
  show "fst (st_Get cache_Store (run_ops cache_Store (NewCache ms) ops) t k) = Some v"
    using assms(2) by (simp add: cache_Store_def)
qed

theorem cache_hit_is_last_write_witness:
  "\<exists>x. last_write expiry_of [OpSet 0 ''k'' ''old'' 0, OpSet 1 ''k'' ''new'' 10] ''k'' = Some (''new'', x) \<and>
     \<not> expired x 5"
proof (rule cache_hit_is_last_write [where ms = "[]"])
  show "\<forall>op \<in> set [OpSet 0 ''k'' ''old'' 0, OpSet 1 ''k'' ''new'' 10]. op_time op \<le> 5"
    by simp
  show "fst (Cache_Get (run_ops cache_Store (NewCache [])
      [OpSet 0 ''k'' ''old'' 0, OpSet 1 ''k'' ''new'' 10]) 5 ''k'') = Some ''new''"
    by (simp add: run_ops_def cache_Store_def Cache_Set_def Cache_Get_def NewCache_def
        expiry_of_def MoveToFront_def)
qed

text \<open>
  A value written with \<open>ttl\<close> is found until exactly \<open>ttl\<close> has passed, and forever
  when \<open>ttl\<close> is not positive, provided nothing else happened in between.
\<close>

theorem cache_get_after_set:
  assumes "cache_wf c" and "t \<le> t'"
  shows "fst (Cache_Get (Cache_Set c t k v ttl) t' k) =
           (if 0 < ttl \<and> t + ttl < t' then None else Some v)"
  using lru_cache.get_set_same [OF assms]
  by (simp add: cache_Store_def expired_expiry_of)

theorem cache_get_after_set_witness:
  "fst (Cache_Get (Cache_Set (NewCache [2]) 0 ''k'' ''v'' 12) 12 ''k'') = Some ''v'' \<and>
   fst (Cache_Get (Cache_Set (NewCache [2]) 0 ''k'' ''v'' 12) 13 ''k'') = None"
  using cache_get_after_set [OF NewCache_wf [of "[2]"], of 0 12 "''k''" "''v''" 12]
    cache_get_after_set [OF NewCache_wf [of "[2]"], of 0 13 "''k''" "''v''" 12]
  by simp

end
