(* ===== verification/ProxyCache.thy ===== *)
theory ProxyCache
  imports Handler Cache Health
begin

text \<open>
  The proxy over its cache, through time: every state that requests, coalesced callers, health
  rounds, the passing of time and the cache's own clean-up can reach.  The argument is made once
  for every store that keeps the \<open>written_store\<close> contract, and instantiated with the in-memory cache.
\<close>

section \<open>Keys\<close>

lemma neg_key_not_request: "request_for body m k \<Longrightarrow> k \<noteq> neg_key key"
proof
  assume req: "request_for body m k" and "k = neg_key key"
  then obtain p where "CacheKey m p = neg_key key"
    by (cases "Unmarshal_RPCRequest body") (auto simp: request_for_def)
  with CacheKey_prefix [of m p] obtain t where "''neg'' @ '':'' @ ('':'' @ key) = m @ '':'' @ t"
    by (auto simp: neg_key_def)
  moreover have "CHR '':'' \<notin> set m" and "m \<noteq> ''neg''"
    using req cacheable_no_colon
    by (auto simp: request_for_def cacheable_methods_def hash_methods_def)
  ultimately show False
    using split_at_colon [of "''neg''" "'':'' @ key" m t] by simp
qed

section \<open>Reachable states\<close>

text \<open>
  \<open>bg\<close> is what the store does to itself in the background.  A caller that joins a flight performs
  the two lookups itself and leaves the rest to the caller that started it.
\<close>

inductive proxy_reach :: "('s, 'w) Handler \<Rightarrow> ('s \<Rightarrow> instant \<Rightarrow> 's \<Rightarrow> bool) \<Rightarrow> ('s, 'w) hstate \<Rightarrow>
    ('s, 'w) hstate \<Rightarrow> bool" for H bg s0 where
  start: "proxy_reach H bg s0 s0"
| request: "proxy_reach H bg s0 s \<Longrightarrow> proxy_reach H bg s0 (snd (ServeHTTP H (\<lambda>_ _. None) r s))"
| joined: "proxy_reach H bg s0 s \<Longrightarrow>
     proxy_reach H bg s0
       (note_lookup ''miss'' (snd (cache_Get H key (snd (cache_Get H (neg_key key) s)))))"
| counted: "proxy_reach H bg s0 s \<Longrightarrow> proxy_reach H bg s0 (s\<lparr>hs_requests := reqs, hs_durations := ds\<rparr>)"
| health: "proxy_reach H bg s0 s \<Longrightarrow>
     health_round net threshold (hs_pool s, hs_finality s) = (p, fc) \<Longrightarrow>
     proxy_reach H bg s0 (s\<lparr>hs_pool := p, hs_finality := fc\<rparr>)"
| passes: "proxy_reach H bg s0 s \<Longrightarrow> now H s \<le> nt_now (h_net H) w \<Longrightarrow>
     proxy_reach H bg s0 (s\<lparr>hs_world := w\<rparr>)"
| cleanup: "proxy_reach H bg s0 s \<Longrightarrow> bg (hs_store s) (now H s) st \<Longrightarrow>
     proxy_reach H bg s0 (s\<lparr>hs_store := st\<rparr>)"

text \<open>An entry is a block on a failed request, or a result a node gave for a request of its key.\<close>

definition genuine :: "'w Net \<Rightarrow> string \<Rightarrow> bytes \<Rightarrow> bool" where
  "genuine N k v \<longleftrightarrow>
     (\<exists>key. k = neg_key key) \<or> (\<exists>body m. request_for body m k \<and> gave_result N body v)"

definition entries_genuine :: "('s \<Rightarrow> instant \<Rightarrow> string \<Rightarrow> bytes option) \<Rightarrow> ('s, 'w) Handler \<Rightarrow>
    's \<Rightarrow> instant \<Rightarrow> bool" where
  "entries_genuine view H st t0 \<longleftrightarrow>
     (\<forall>t k v. t0 \<le> t \<longrightarrow> view st t k = Some v \<longrightarrow> genuine (h_net H) k v)"

definition shrinks :: "('s \<Rightarrow> instant \<Rightarrow> string \<Rightarrow> bytes option) \<Rightarrow> instant \<Rightarrow> 's \<Rightarrow> 's \<Rightarrow> bool" where
  "shrinks view t0 st st' \<longleftrightarrow> (\<forall>t \<ge> t0. view st' t \<subseteq>\<^sub>m view st t)"

lemma entries_genuine_later:
  "entries_genuine view H st t \<Longrightarrow> t \<le> t' \<Longrightarrow> entries_genuine view H st t'"
  unfolding entries_genuine_def
proof (intro allI impI)
  fix u k v
  assume "\<forall>u k v. t \<le> u \<longrightarrow> view st u k = Some v \<longrightarrow> genuine (h_net H) k v"
    and "t \<le> t'" and "t' \<le> u" and "view st u k = Some v"
  moreover from this have "t \<le> u" by linarith
  ultimately show "genuine (h_net H) k v" by blast
qed

lemma entries_genuine_shrinks:
  "entries_genuine view H st t \<Longrightarrow> shrinks view t st st' \<Longrightarrow> entries_genuine view H st' t"
  by (force simp: entries_genuine_def shrinks_def dest: map_le_SomeD)

lemma snd_direct: "snd (direct H r body m s) = snd (proxyDirect H r body m s)"
  by (cases "proxyDirect H r body m s") (auto simp: direct_def split: option.splits)

lemma direct_frame: "same_but_net s (snd (direct H r body m s))"
  using direct_loop_frame [of s H "length (p_nodes (hs_pool s))" r body m]
  by (simp add: snd_direct proxyDirect_def)

lemma direct_now:
  "clock_mono (h_net H) \<Longrightarrow> now H s \<le> now H (snd (direct H r body m s))"
  using direct_loop_now [of H s "length (p_nodes (hs_pool s))" r body m]
  by (simp add: snd_direct proxyDirect_def)

lemma now_simps [simp]:
  "now H (note_lookup l s) = now H s" "hs_store (note_lookup l s) = hs_store s"
  "now H (s\<lparr>hs_requests := reqs\<rparr>) = now H s" "now H (s\<lparr>hs_durations := ds\<rparr>) = now H s" "now H (s\<lparr>hs_finality := fc\<rparr>) = now H s"
  "now H (s\<lparr>hs_store := st\<rparr>) = now H s"
  "now H (s\<lparr>hs_world := w\<rparr>) = nt_now (h_net H) w"
  by (simp_all add: now_def note_lookup_def)

lemma cache_Get_sel:
  "hs_store (snd (cache_Get H k s)) = snd (st_Get (h_cache H) (hs_store s) (now H s) k)"
  "fst (cache_Get H k s) = fst (st_Get (h_cache H) (hs_store s) (now H s) k)"
  "now H (snd (cache_Get H k s)) = now H s"
  "hs_world (snd (cache_Get H k s)) = hs_world s"
  by (simp_all add: cache_Get_def now_def split: prod.splits)

lemma serve_cases:
  assumes "serve H g r s = (l, out, s')"
  obtains (same) "s' = s" "snd out = ''error''"
  | (direct) body m where "s' = snd (direct H r body m s)" "out = fst (direct H r body m s)"
  | (cacheable) body req layer where "read_body r = Some body" "Unmarshal_RPCRequest body = Some req"
      "rq_Method req \<in> set cacheable_methods" "serve_cacheable H g r body req layer s = (out, s')"
proof (cases "read_body r")
  case None
  with assms same show thesis by (auto simp: serve_def)
next
  case (Some body)
  show thesis
  proof (cases "isBatch body")
    case True
    with assms Some have "direct H r body ''batch'' s = (out, s')" by (auto simp: serve_def)
    then show thesis by (intro direct [of body "''batch''"]) simp_all
  next
    case False
    show thesis
    proof (cases "Unmarshal_RPCRequest body")
      case None
      with assms Some False same show thesis by (auto simp: serve_def)
    next
      case req: (Some req)
      let ?layer = "fc_Classify (hs_finality s) (rq_Method req) (rq_Params req)"
      show thesis
      proof (cases "?layer = LayerUncacheable")
        case True
        with assms Some False req have "direct H r body (rq_Method req) s = (out, s')"
          by (auto simp: serve_def)
        then show thesis by (intro direct [of body "rq_Method req"]) simp_all
      next
        case layer: False
        with assms Some False req cacheable [of body req ?layer] fc_Classify_cacheable
        show thesis by (auto simp: serve_def)
      qed
    qed
  qed
qed

section \<open>The argument for any store\<close>

context written_store
begin

lemma genuine_get:
  assumes "wf st" and "entries_genuine view H st t"
  shows "wf (snd (st_Get store st t k)) \<and> entries_genuine view H (snd (st_Get store st t k)) t"
  using assms get_wf get_view entries_genuine_shrinks [of view H st t]
  by (auto simp: shrinks_def)

lemma genuine_set:
  assumes "wf st" and "entries_genuine view H st t" and "genuine (h_net H) k v"
  shows "wf (st_Set store st t k v ttl) \<and> entries_genuine view H (st_Set store st t k v ttl) t"
proof -
  have "genuine (h_net H) k' v'"
    if "t \<le> t'" and "view (st_Set store st t k v ttl) t' k' = Some v'" for t' k' v'
    using that assms set_same [OF assms(1), of t t' k v ttl v']
      set_other [OF assms(1), of t t' k' k v ttl v']
    unfolding entries_genuine_def by (cases "k' = k") blast+
  then show ?thesis
    using set_wf [OF assms(1)] by (simp add: entries_genuine_def)
qed

lemma genuine_flight:
  assumes "h_cache H = store" and "clock_mono (h_net H)"
    and "wf (hs_store s)" and "entries_genuine view H (hs_store s) (now H s)"
    and "request_for body m key"
  shows "wf (hs_store (snd (flight H r body m layer key s))) \<and>
         entries_genuine view H (hs_store (snd (flight H r body m layer key s)))
           (now H (snd (flight H r body m layer key s)))"
proof -
  obtain res s' where f: "flight H r body m layer key s = (res, s')"
    by (cases "flight H r body m layer key s")
  have old: "entries_genuine view H (hs_store s) (now H s')"
    using entries_genuine_later [OF assms(4) flight_now [OF assms(2) f]] .
  have "genuine (h_net H) (neg_key key) negSentinel"
    by (auto simp: genuine_def)
  moreover have "genuine (h_net H) key (sf_result ret)" if "res = FlightOk ret" "sf_result ret \<noteq> []" for ret
    unfolding genuine_def using flight_result [of H r body m layer key s ret s'] f that assms(5)
    by blast
  ultimately show ?thesis
    using flight_store [OF f] genuine_set [OF assms(3) old] assms(1,3) old f
    by (simp add: store_after_def split: flown.splits)
qed

lemma genuine_lookups:
  assumes "h_cache H = store" and "wf (hs_store s)"
    and "entries_genuine view H (hs_store s) (now H s)"
    and "s' = snd (cache_Get H key s)"
  shows "wf (hs_store s') \<and> entries_genuine view H (hs_store s') (now H s')"
  using assms genuine_get by (simp add: cache_Get_sel)

lemma genuine_cacheable:
  assumes "h_cache H = store" and "clock_mono (h_net H)"
    and "wf (hs_store s)" and "entries_genuine view H (hs_store s) (now H s)"
    and "request_for body (rq_Method req) (CacheKey (rq_Method req) (rq_Params req))"
    and "serve_cacheable H (\<lambda>_ _. None) r body req layer s = (out, s')"
  shows "wf (hs_store s') \<and> entries_genuine view H (hs_store s') (now H s')"
proof -
  let ?key = "CacheKey (rq_Method req) (rq_Params req)"
  obtain neg s1 where s1: "cache_Get H (neg_key ?key) s = (neg, s1)" by fastforce
  obtain hit s2 where s2: "cache_Get H ?key s1 = (hit, s2)" by fastforce
  have g1: "wf (hs_store s1) \<and> entries_genuine view H (hs_store s1) (now H s1)"
    using genuine_lookups [OF assms(1,3,4)] s1 by (metis snd_conv)
  then have g2: "wf (hs_store s2) \<and> entries_genuine view H (hs_store s2) (now H s2)"
    using genuine_lookups [OF assms(1)] s2 by (metis snd_conv)
  obtain res s3 where s3: "flight H r body (rq_Method req) layer ?key (note_lookup ''miss'' s2) = (res, s3)"
    by fastforce
  have g3: "wf (hs_store s3) \<and> entries_genuine view H (hs_store s3) (now H s3)"
    using genuine_flight [OF assms(1,2) _ _ assms(5), of "note_lookup ''miss'' s2" r layer] g2 s3
    by simp
  show ?thesis
    using assms(6) g1 g2 g3
    by (auto simp: serve_cacheable_def Let_def s1 s2 s3 Do_def split: option.splits)
qed

lemma genuine_request:
  assumes "h_cache H = store" and "clock_mono (h_net H)"
    and "wf (hs_store s)" and "entries_genuine view H (hs_store s) (now H s)"
  shows "wf (hs_store (snd (ServeHTTP H (\<lambda>_ _. None) r s))) \<and>
         entries_genuine view H (hs_store (snd (ServeHTTP H (\<lambda>_ _. None) r s)))
           (now H (snd (ServeHTTP H (\<lambda>_ _. None) r s)))"
proof -
  obtain l out s' where serve: "serve H (\<lambda>_ _. None) r s = (l, out, s')"
    by (metis prod_cases3)
  from serve have "wf (hs_store s') \<and> entries_genuine view H (hs_store s') (now H s')"
  proof (cases rule: serve_cases)
    case same
    with assms show ?thesis by simp
  next
    case (direct body m)
    with assms direct_frame [of s H r body m] direct_now [of H s r body m] entries_genuine_later
    show ?thesis by (simp add: same_but_net_def)
  next
    case (cacheable body req layer)
    then have "request_for body (rq_Method req) (CacheKey (rq_Method req) (rq_Params req))"
      by (simp add: request_for_def)
    from genuine_cacheable [OF assms this cacheable(4)] show ?thesis .
  qed
  with serve show ?thesis
    by (auto simp: ServeHTTP_def Let_def split: prod.splits)
qed

lemma genuine_reach:
  assumes "h_cache H = store" and "clock_mono (h_net H)"
    and "wf (hs_store s0)" and "\<And>t. view (hs_store s0) t = (\<lambda>_. None)"
    and bg: "\<And>st t st'. wf st \<Longrightarrow> bg st t st' \<Longrightarrow> wf st' \<and> shrinks view t st st'"
    and "proxy_reach H bg s0 s"
  shows "wf (hs_store s) \<and> entries_genuine view H (hs_store s) (now H s)"
  using assms(6)
proof (induction rule: proxy_reach.induct)
  case start
  with assms(3,4) show ?case by (simp add: entries_genuine_def)
next
  case (request s r)
  with genuine_request [OF assms(1,2)] show ?case by blast
next
  case (joined s key)
  with genuine_lookups [OF assms(1)] show ?case by simp
next
  case (counted s reqs ds)
  then show ?case by simp
next
  case (health s net threshold p fc)
  then show ?case by (simp add: now_def)
next
  case (passes s w)
  with entries_genuine_later show ?case by auto
next
  case (cleanup s st)
  with bg [of "hs_store s" "now H s" st] entries_genuine_shrinks show ?case by auto
qed

end

section \<open>The in-memory cache\<close>

definition janitor :: "Cache \<Rightarrow> instant \<Rightarrow> Cache \<Rightarrow> bool" where
  "janitor c t c' \<longleftrightarrow> (\<exists>ks. set ks = dom (items c) \<and> c' = deleteExpired c t ks)"

lemma live_filter:
  assumes "distinct (map fst xs)"
  shows "live (filter (\<lambda>(k, v, x). \<not> expired x t0) xs) t \<subseteq>\<^sub>m live xs t"
proof -
  have "map_of (filter (\<lambda>(k, v, x). \<not> expired x t0) xs) k = Some y \<Longrightarrow> map_of xs k = Some y" for k y
    using map_of_is_SomeI [OF assms] by (auto dest!: map_of_SomeD)
  then show ?thesis
    by (force simp: map_le_def live_def dom_def split: option.splits if_splits)
qed

lemma janitor_shrinks:
  assumes "cache_wf c" and "janitor c t c'"
  shows "cache_wf c' \<and> shrinks cache_view t c c'"
  using assms live_filter [OF distinct_keys_recency [OF assms(1)]]
  by (auto simp: janitor_def shrinks_def cache_view_def deleteExpired_refines)

lemma NewCache_view: "cache_view (NewCache ms) t = (\<lambda>_. None)"
  by (rule ext) (simp add: cache_view_def recency_def NewCache_def live_def)

lemma cache_reach_genuine:
  assumes "h_cache H = cache_Store" and "clock_mono (h_net H)" and "hs_store s0 = NewCache ms"
    and "proxy_reach H janitor s0 s"
  shows "cache_wf (hs_store s) \<and> entries_genuine cache_view H (hs_store s) (now H s)"
  using lru_cache.genuine_reach [OF assms(1,2) _ _ _ assms(4)] assms(3) janitor_shrinks
  by (simp add: NewCache_wf NewCache_view)

lemma cache_hit_cases:
  assumes "serve H g r s = (l, (Some resp, ''cache_hit''), s')"
  obtains body req s1 v where "Unmarshal_RPCRequest body = Some req" "read_body r = Some body"
    "request_for body (rq_Method req) (CacheKey (rq_Method req) (rq_Params req))"
    "s1 = snd (cache_Get H (neg_key (CacheKey (rq_Method req) (rq_Params req))) s)"
    "fst (cache_Get H (CacheKey (rq_Method req) (rq_Params req)) s1) = Some v"
    "buildResultEnvelope (rq_ID req) v = Some (rp_body resp)" "hs_world s' = hs_world s"
  using assms
proof (cases rule: serve_cases)
  case (direct body m)
  then show thesis
    by (auto simp: direct_def split: option.splits prod.splits if_splits)
next
  case (cacheable body req layer)
  let ?key = "CacheKey (rq_Method req) (rq_Params req)"
  obtain n s1 where s1: "cache_Get H (neg_key ?key) s = (n, s1)" by fastforce
  have fin: "snd (finish (rq_ID req) res) \<noteq> ''cache_hit''" for res
    by (simp add: finish_def split: flown.splits option.splits)
  have n: "n = None"
    using cacheable(4) by (auto simp: serve_cacheable_def Let_def s1 split: option.splits)
  obtain hit s2 where s2: "cache_Get H ?key s1 = (hit, s2)" by fastforce
  have "hit \<noteq> None"
  proof
    assume "hit = None"
    then have "\<exists>res. fst (serve_cacheable H g r body req layer s) = finish (rq_ID req) res"
      by (auto simp: serve_cacheable_def Let_def s1 n s2 split: prod.splits)
    then obtain res where "(Some resp, ''cache_hit'') = finish (rq_ID req) res"
      using cacheable(4) by auto
    with fin [of res] show False by (metis snd_conv)
  qed
  then obtain v where v: "hit = Some v" by blast
  have "buildResultEnvelope (rq_ID req) v = Some (rp_body resp) \<and> s' = note_lookup ''hit'' s2"
    using cacheable(4) by (auto simp: serve_cacheable_def Let_def s1 n s2 v json_response_def
        split: option.splits)
  moreover have "hs_world s2 = hs_world s"
    using cache_Get_sel(4) [of H ?key s1] cache_Get_sel(4) [of H "neg_key ?key" s] s1 s2 by simp
  moreover have "request_for body (rq_Method req) ?key"
    using cacheable by (simp add: request_for_def)
  ultimately show thesis
    using that [of body req s1 v] cacheable s1 s2 v by (simp add: note_lookup_def)
qed simp

text \<open>
  Property C1.  Whatever requests were served, coalesced or failed before, whatever the health
  checks, the clock and the clean-up did: a request answered from the cache is answered with a
  result that a node gave, in a successful reply without an error, to a request with the same
  method and the same canonical parameters; it is wrapped with the caller's own id; and no node is
  contacted.
\<close>

theorem cached_answer_genuine:
  assumes "h_cache H = cache_Store" and "clock_mono (h_net H)" and "hs_store s0 = NewCache ms"
    and "proxy_reach H janitor s0 s"
    and "serve H g r s = (l, (Some resp, ''cache_hit''), s')"
  shows "\<exists>body req body' v. read_body r = Some body \<and> Unmarshal_RPCRequest body = Some req \<and>
           request_for body' (rq_Method req) (CacheKey (rq_Method req) (rq_Params req)) \<and>
           gave_result (h_net H) body' v \<and>
           buildResultEnvelope (rq_ID req) v = Some (rp_body resp) \<and> hs_world s' = hs_world s"
proof -
  from assms(5) obtain body req s1 v where hit: "Unmarshal_RPCRequest body = Some req"
      "read_body r = Some body"
      "request_for body (rq_Method req) (CacheKey (rq_Method req) (rq_Params req))"
      "s1 = snd (cache_Get H (neg_key (CacheKey (rq_Method req) (rq_Params req))) s)"
      "fst (cache_Get H (CacheKey (rq_Method req) (rq_Params req)) s1) = Some v"
      "buildResultEnvelope (rq_ID req) v = Some (rp_body resp)" "hs_world s' = hs_world s"
    by (rule cache_hit_cases)
  let ?key = "CacheKey (rq_Method req) (rq_Params req)"
  have "cache_wf (hs_store s1) \<and> entries_genuine cache_view H (hs_store s1) (now H s1)"
    using lru_cache.genuine_lookups [OF assms(1) _ _ hit(4)] cache_reach_genuine [OF assms(1-4)]
    by blast
  then have "genuine (h_net H) ?key v"
    using lru_cache.get_sound hit(5) assms(1)
    by (auto simp: cache_Get_sel entries_genuine_def)
  then obtain body' m where "request_for body' m ?key" "gave_result (h_net H) body' v"
    using neg_key_not_request [OF hit(3)] by (auto simp: genuine_def)
  with hit request_for_method [OF hit(3)] show ?thesis by metis
qed

text \<open>The proxy over the in-memory cache, in front of a node that reports a gas price.\<close>

definition gas_proxy :: "transport \<Rightarrow> (Cache, unit) Handler" where
  "gas_proxy t =
     \<lparr>h_cache = cache_Store, h_mutableTTL = 12 * Second,
      h_net = \<lparr>nt_send = (\<lambda>w _. (t, w)), nt_now = (\<lambda>_. 0)\<rparr>\<rparr>"

definition gas_start :: "(Cache, unit) hstate" where
  "gas_start = demo_state (NewCache [2])"

lemma gas_proxy_sel [simp]:
  "h_cache (gas_proxy t) = cache_Store" "clock_mono (h_net (gas_proxy t))"
  by (simp_all add: gas_proxy_def clock_mono_def)

theorem cached_answer_genuine_witness:
  "\<exists>body' v. request_for body' ''eth_gasPrice'' ''eth_gasPrice:'' \<and>
     gave_result (h_net (gas_proxy gas_reply)) body' v \<and>
     (\<exists>env. buildResultEnvelope ''7'' v = Some env)"
proof -
  let ?H = "gas_proxy gas_reply" and ?g = "\<lambda>_ _. None :: (flown \<times> (Cache, unit) hstate) option"
  define s where "s = snd (ServeHTTP ?H ?g (demo_request (gas_body ''1'')) gas_start)"
  have reach: "proxy_reach ?H janitor gas_start s"
    unfolding s_def by (intro proxy_reach.request proxy_reach.start)
  obtain l resp status s' where serve: "serve ?H ?g (demo_request (gas_body ''7'')) s = (l, (resp, status), s')"
    by (metis prod.collapse)
  have "snd (fst (snd (serve ?H ?g (demo_request (gas_body ''7'')) s))) = ''cache_hit''"
    and "fst (fst (snd (serve ?H ?g (demo_request (gas_body ''7'')) s))) \<noteq> None"
    unfolding s_def by code_simp+
  with serve obtain r where "resp = Some r" "status = ''cache_hit''" by auto
  with serve have hit: "serve ?H ?g (demo_request (gas_body ''7'')) s = (l, (Some r, ''cache_hit''), s')"
    by simp
  have "hs_store gas_start = NewCache [2]"
    by (simp add: gas_start_def demo_state_def)
  from cached_answer_genuine [OF gas_proxy_sel this reach hit] obtain body req body' v
    where ans: "read_body (demo_request (gas_body ''7'')) = Some body"
      "Unmarshal_RPCRequest body = Some req"
      "request_for body' (rq_Method req) (CacheKey (rq_Method req) (rq_Params req))"
      "gave_result (h_net ?H) body' v" "buildResultEnvelope (rq_ID req) v = Some (rp_body r)"
    by blast
  have "read_body (demo_request (gas_body ''7'')) = Some (gas_body ''7'')"
    and req: "Unmarshal_RPCRequest (gas_body ''7'') =
      Some \<lparr>rq_JSONRPC = [], rq_Method = ''eth_gasPrice'', rq_Params = [], rq_ID = ''7''\<rparr>"
    and key: "CacheKey ''eth_gasPrice'' [] = ''eth_gasPrice:''"
    by code_simp+
  with ans have "req = \<lparr>rq_JSONRPC = [], rq_Method = ''eth_gasPrice'', rq_Params = [], rq_ID = ''7''\<rparr>"
    by simp
  with ans key show ?thesis by auto
qed

lemma cache_Get_hit:
  assumes "fst (cache_Get H (neg_key (CacheKey (rq_Method req) (rq_Params req))) s) = Some v"
  shows "fst (serve_cacheable H g r body req layer s) =
           (Some (http_Error no_header ''upstream error'' 502), ''neg_hit'')"
    and "hs_world (snd (serve_cacheable H g r body req layer s)) = hs_world s"
  using assms cache_Get_sel(4) [of H "neg_key (CacheKey (rq_Method req) (rq_Params req))" s]
  by (auto simp: serve_cacheable_def Let_def note_lookup_def split: prod.splits)



definition receipt_body :: bytes where
  "receipt_body = ''{\"id\":1,\"method\":\"eth_getTransactionReceipt\",\"params\":[\"0xab\"]}''"

definition null_reply :: transport where
  "null_reply = Reply 200 no_header ''{\"jsonrpc\":\"2.0\",\"id\":1,\"result\":null}''"


section \<open>Metrics\<close>

text \<open>Which cache lookup a request is counted under, by the status it is counted under.\<close>

definition lookup_fits :: "string \<Rightarrow> string list \<Rightarrow> bool" where
  "lookup_fits status ls \<longleftrightarrow>
     ls = [] \<and> status \<in> {''uncacheable'', ''error''} \<or>
     ls = [''neg_hit''] \<and> status = ''neg_hit'' \<or>
     ls = [''hit''] \<and> status \<in> {''cache_hit'', ''error''} \<or>
     ls = [''miss''] \<and> status \<in> {''ok'', ''rate_limited'', ''error''}"

definition metered :: "string list \<Rightarrow> ('s, 'w) hstate \<Rightarrow> ('s, 'w) hstate \<Rightarrow> bool" where
  "metered ls s s' \<longleftrightarrow>
     hs_requests s' = hs_requests s \<and> hs_durations s' = hs_durations s \<and> hs_lookups s' = hs_lookups s @ ls"

lemma metered_net: "same_but_net s s' \<Longrightarrow> metered [] s s'"
  by (simp add: same_but_net_def metered_def)

lemma metered_trans: "metered ls s s1 \<Longrightarrow> metered [] s1 s2 \<Longrightarrow> metered ls s s2"
  by (simp add: metered_def)

lemma metered_simps [simp]:
  "metered [] s s" "metered [l] s (note_lookup l s)" "metered [] s (cache_Set H k v ttl s)"
  "metered [] s (snd (cache_Get H k s))"
  by (simp_all add: metered_def note_lookup_def cache_Set_def cache_Get_def split: prod.splits)

lemma metered_flight: "metered [] s (snd (flight H r body m layer key s))"
proof -
  let ?f = "fetchFromUpstream H r body m s"
  have "metered [] s (snd ?f)"
    using metered_net [OF fetch_loop_frame] by (simp add: fetchFromUpstream_def)
  moreover have "metered [] (snd ?f) (snd (flight H r body m layer key s))"
    by (simp add: flight_def case_prod_unfold Let_def split: fetched.split option.split)
  ultimately show ?thesis by (rule metered_trans)
qed

lemma finish_fits: "lookup_fits (snd (finish i res)) [''miss'']"
  by (simp add: lookup_fits_def finish_def split: flown.splits option.splits)

lemma serve_cacheable_metered:
  assumes "clock_mono (h_net H)" and "serve_cacheable H (\<lambda>_ _. None) r body req layer s = (out, s')"
  shows "now H s \<le> now H s' \<and> (\<exists>ls. metered ls s s' \<and> lookup_fits (snd out) ls)"
proof -
  let ?key = "CacheKey (rq_Method req) (rq_Params req)"
  let ?s1 = "snd (cache_Get H (neg_key ?key) s)" and ?s2 = "snd (cache_Get H ?key (snd (cache_Get H (neg_key ?key) s)))"
  let ?f = "flight H r body (rq_Method req) layer ?key (note_lookup ''miss'' ?s2)"
  have looked: "metered [l] s (note_lookup l ?s1)" "metered [l] s (note_lookup l ?s2)" for l
    using metered_simps(4) [of s H "neg_key ?key"] metered_simps(4) [of ?s1 H ?key]
    by (simp_all add: metered_def note_lookup_def)
  have flown: "metered [''miss''] s (snd ?f)"
    by (rule metered_trans [OF looked(2) metered_flight])
  have "now H s \<le> now H (snd ?f)"
    using flight_now [OF assms(1), of r body "rq_Method req" layer ?key "note_lookup ''miss'' ?s2" "fst ?f" "snd ?f"]
    by (simp add: cache_Get_sel)
  moreover have "lookup_fits ''neg_hit'' [''neg_hit'']" "lookup_fits ''cache_hit'' [''hit'']" "lookup_fits ''error'' [''hit'']"
    by (simp_all add: lookup_fits_def)
  ultimately show ?thesis
    using assms(2) looked flown finish_fits
    by (auto simp: serve_cacheable_def Do_def Let_def case_prod_unfold cache_Get_sel(3)
        split: option.splits; blast)
qed

text \<open>
  A request of which no other is in flight is accounted for exactly once: it is counted
  under one pair of labels and timed under the same method label, which comes from a fixed finite set
  whatever the client sends; the time is not negative if the clock does not go back; and it is counted
  as the cache lookup that its status says, or as none if the cache was not asked.
\<close>

lemma request_accounted:
  assumes "clock_mono (h_net H)"
  shows "\<exists>label status d ls. label \<in> set (''other'' # knownMethods) \<and> 0 \<le> d \<and> lookup_fits status ls \<and>
     hs_requests (snd (ServeHTTP H (\<lambda>_ _. None) r s)) = hs_requests s @ [(label, status)] \<and>
     hs_durations (snd (ServeHTTP H (\<lambda>_ _. None) r s)) = hs_durations s @ [(label, d)] \<and>
     hs_lookups (snd (ServeHTTP H (\<lambda>_ _. None) r s)) = hs_lookups s @ ls"
proof -
  obtain l out s' where serve: "serve H (\<lambda>_ _. None) r s = (l, out, s')" by (metis prod_cases3)
  from serve have "now H s \<le> now H s' \<and> (\<exists>ls. metered ls s s' \<and> lookup_fits (snd out) ls)"
  proof (cases rule: serve_cases)
    case same
    then show ?thesis by (intro conjI exI [of _ "[]"]) (simp_all add: lookup_fits_def)
  next
    case (direct body m)
    then have "snd out \<in> {''uncacheable'', ''error''}"
      by (auto simp: direct_def split: option.splits prod.splits)
    with direct direct_now [OF assms, of s r body m] metered_net [OF direct_frame, of s H r body m]
    show ?thesis by (intro conjI exI [of _ "[]"]) (simp_all add: lookup_fits_def)
  next
    case (cacheable body req layer)
    with serve_cacheable_metered [OF assms] show ?thesis by blast
  qed
  then obtain ls where "now H s \<le> now H s'" "metered ls s s'" "lookup_fits (snd out) ls" by blast
  with NormalizeMethod_known [of l] serve show ?thesis
    by (intro exI [of _ "NormalizeMethod l"] exI [of _ "snd out"] exI [of _ "now H s' - now H s"] exI [of _ ls])
       (auto simp: ServeHTTP_def metered_def Let_def split: prod.splits)
qed

end
