(* ===== verification/Redis.thy ===== *)
theory Redis
  imports ProxyCache
begin

text \<open>
  The shared cache backend (internal/cache/redis.go).  The go-redis client and the server behind it
  are a parameter, the record \<open>RedisClient\<close>; a command may fail, and one that failed may or may not
  have taken effect.  What is relied on is the predicate \<open>redis_contract\<close>.
\<close>

section \<open>The client\<close>

datatype redis_reply = RedisValue bytes | RedisNil | RedisErr string

record 'r RedisClient =
  rc_ParseURL :: "string \<Rightarrow> (string \<times> int \<times> 'r) option"
  rc_Ping :: "'r \<Rightarrow> string option \<times> 'r"
  rc_Get :: "'r \<Rightarrow> instant \<Rightarrow> string \<Rightarrow> redis_reply \<times> 'r"
  rc_Set :: "'r \<Rightarrow> instant \<Rightarrow> string \<Rightarrow> bytes \<Rightarrow> duration \<Rightarrow> string option \<times> 'r"
  rc_Del :: "'r \<Rightarrow> instant \<Rightarrow> string \<Rightarrow> string option \<times> 'r"

datatype redis_log =
    SwitchedToNoCache string string
  | BackendRecovered

record 'r RedisStore =
  rd_client :: 'r
  rd_addr :: string
  rd_db :: int
  rd_degraded :: bool
  rd_log :: "redis_log list"

definition NewRedisStore :: "'r RedisClient \<Rightarrow> string \<Rightarrow> 'r RedisStore option" where
  "NewRedisStore C redisURL =
     (case rc_ParseURL C redisURL of
        None \<Rightarrow> None
      | Some (addr, db, r) \<Rightarrow>
          (case rc_Ping C r of
             (Some err, r') \<Rightarrow> None
           | (None, r') \<Rightarrow>
               Some \<lparr>rd_client = r', rd_addr = addr, rd_db = db, rd_degraded = False, rd_log = []\<rparr>))"

definition redis_Addr :: "'r RedisStore \<Rightarrow> string" where
  "redis_Addr s = rd_addr s @ '' db='' @ Itoa (rd_db s)"

definition markDegraded :: "string \<Rightarrow> string \<Rightarrow> 'r RedisStore \<Rightarrow> 'r RedisStore" where
  "markDegraded op err s =
     (if \<not> rd_degraded s
      then s\<lparr>rd_degraded := True, rd_log := rd_log s @ [SwitchedToNoCache op err]\<rparr> else s)"

definition markHealthy :: "'r RedisStore \<Rightarrow> 'r RedisStore" where
  "markHealthy s =
     (if rd_degraded s
      then s\<lparr>rd_degraded := False, rd_log := rd_log s @ [BackendRecovered]\<rparr> else s)"

definition redis_Get :: "'r RedisClient \<Rightarrow> 'r RedisStore \<Rightarrow> instant \<Rightarrow> string \<Rightarrow>
    bytes option \<times> 'r RedisStore" where
  "redis_Get C s t k =
     (let (reply, r') = rc_Get C (rd_client s) t k; s' = s\<lparr>rd_client := r'\<rparr> in
      case reply of
        RedisNil \<Rightarrow> (None, markHealthy s')
      | RedisErr e \<Rightarrow> (None, markDegraded ''GET'' e s')
      | RedisValue v \<Rightarrow> (Some v, markHealthy s'))"

definition redis_Set :: "'r RedisClient \<Rightarrow> 'r RedisStore \<Rightarrow> instant \<Rightarrow> string \<Rightarrow> bytes \<Rightarrow> duration \<Rightarrow>
    'r RedisStore" where
  "redis_Set C s t k v ttl =
     (let (err, r') = rc_Set C (rd_client s) t k v ttl; s' = s\<lparr>rd_client := r'\<rparr> in
      case err of Some e \<Rightarrow> markDegraded ''SET'' e s' | None \<Rightarrow> markHealthy s')"

definition redis_Delete :: "'r RedisClient \<Rightarrow> 'r RedisStore \<Rightarrow> instant \<Rightarrow> string \<Rightarrow> 'r RedisStore" where
  "redis_Delete C s t k =
     (let (err, r') = rc_Del C (rd_client s) t k; s' = s\<lparr>rd_client := r'\<rparr> in
      case err of Some e \<Rightarrow> markDegraded ''DEL'' e s' | None \<Rightarrow> markHealthy s')"

text \<open>\<open>close\<close> is the client's own \<open>Close\<close>.\<close>

definition redis_Close :: "('r RedisStore \<Rightarrow> string option) \<Rightarrow> 'r RedisStore \<Rightarrow> string option" where
  "redis_Close close r = close r"

definition redis_Store :: "'r RedisClient \<Rightarrow> 'r RedisStore Store" where
  "redis_Store C = \<lparr>st_Get = redis_Get C, st_Set = redis_Set C, st_Delete = redis_Delete C\<rparr>"

section \<open>What is relied on\<close>

text \<open>
  The client sends the time to live in whole milliseconds, rounding a shorter one up to one
  millisecond; zero (and a negative value) sets no expiry.
\<close>

definition redis_life :: "instant \<Rightarrow> duration \<Rightarrow> instant option" where
  "redis_life t ttl = (if 0 < ttl then Some (t + max ttl Millisecond) else None)"

definition redis_contract :: "'r RedisClient \<Rightarrow> ('r \<Rightarrow> instant \<Rightarrow> string \<Rightarrow> bytes option) \<Rightarrow> bool" where
  "redis_contract C view \<longleftrightarrow>
     (\<forall>r t k v. fst (rc_Get C r t k) = RedisValue v \<longrightarrow> view r t k = Some v) \<and>
     (\<forall>r t t' k. t \<le> t' \<longrightarrow> view (snd (rc_Get C r t k)) t' \<subseteq>\<^sub>m view r t') \<and>
     (\<forall>r t t' k v ttl k' v'. t \<le> t' \<longrightarrow> view (snd (rc_Set C r t k v ttl)) t' k' = Some v' \<longrightarrow>
        k' = k \<and> v' = v \<and> \<not> expired (redis_life t ttl) t' \<or> view r t' k' = Some v') \<and>
     (\<forall>r t t' k. t \<le> t' \<longrightarrow> view (snd (rc_Del C r t k)) t' \<subseteq>\<^sub>m view r t') \<and>
     (\<forall>r t t'. t \<le> t' \<longrightarrow> view r t' \<subseteq>\<^sub>m view r t)"

lemma mark_sel [go_state, simp]:
  "rd_client (markDegraded op err s) = rd_client s" "rd_client (markHealthy s) = rd_client s"
  by (simp_all add: markDegraded_def markHealthy_def)

lemma redis_client [go_state, simp]:
  "rd_client (snd (redis_Get C s t k)) = snd (rc_Get C (rd_client s) t k)"
  "rd_client (redis_Set C s t k v ttl) = snd (rc_Set C (rd_client s) t k v ttl)"
  "rd_client (redis_Delete C s t k) = snd (rc_Del C (rd_client s) t k)"
  by (auto simp: redis_Get_def redis_Set_def redis_Delete_def Let_def
      split: prod.splits redis_reply.splits option.splits)

lemma redis_Get_Some:
  "fst (redis_Get C s t k) = Some v \<longleftrightarrow> fst (rc_Get C (rd_client s) t k) = RedisValue v"
  by (auto simp: redis_Get_def Let_def split: prod.splits redis_reply.splits)

lemma redis_contractD:
  assumes "redis_contract C view"
  shows "fst (rc_Get C r t k) = RedisValue v \<Longrightarrow> view r t k = Some v"
    and "t \<le> t' \<Longrightarrow> view (snd (rc_Get C r t k)) t' \<subseteq>\<^sub>m view r t'"
    and "t \<le> t' \<Longrightarrow> view (snd (rc_Set C r t k v ttl)) t' k' = Some v' \<Longrightarrow>
           k' = k \<and> v' = v \<and> \<not> expired (redis_life t ttl) t' \<or> view r t' k' = Some v'"
    and "t \<le> t' \<Longrightarrow> view (snd (rc_Del C r t k)) t' \<subseteq>\<^sub>m view r t'"
    and "t \<le> t' \<Longrightarrow> view r t' \<subseteq>\<^sub>m view r t"
  using assms [unfolded redis_contract_def] by (simp_all add: disj_commute)

lemma redis_Store_sel [simp]:
  "st_Get (redis_Store C) = redis_Get C" "st_Set (redis_Store C) = redis_Set C"
  "st_Delete (redis_Store C) = redis_Delete C"
  by (simp_all add: redis_Store_def)

lemma redis_written_store:
  assumes "redis_contract C view"
  shows "written_store (redis_Store C) (\<lambda>_. True) (\<lambda>s. view (rd_client s)) redis_life"
proof
  fix s and t t' :: instant and k k' v v' ttl
  note law = redis_contractD [OF assms]
  show "fst (st_Get (redis_Store C) s t k) = Some v \<Longrightarrow> view (rd_client s) t k = Some v"
    by (simp add: redis_Get_Some law(1))
  assume "t \<le> t'"
  then show "view (rd_client (snd (st_Get (redis_Store C) s t k))) t' \<subseteq>\<^sub>m view (rd_client s) t'"
    and "view (rd_client (st_Delete (redis_Store C) s t k)) t' \<subseteq>\<^sub>m view (rd_client s) t'"
    and "view (rd_client s) t' \<subseteq>\<^sub>m view (rd_client s) t"
    by (simp_all add: law(2,4,5))
  show "view (rd_client (st_Set (redis_Store C) s t k v ttl)) t' k = Some v' \<Longrightarrow>
      v' = v \<and> \<not> expired (redis_life t ttl) t' \<or> view (rd_client s) t' k = Some v'"
    and "k' \<noteq> k \<Longrightarrow> view (rd_client (st_Set (redis_Store C) s t k v ttl)) t' k' = Some v' \<Longrightarrow>
      view (rd_client s) t' k' = Some v'"
    using law(3) [OF \<open>t \<le> t'\<close>] by (simp, blast)+
qed simp_all

section \<open>The log\<close>

text \<open>
  Reading a log from a state (\<open>True\<close> for degraded): a failure line is only possible when healthy, a
  recovery line only when degraded.
\<close>

fun read_log :: "bool \<Rightarrow> redis_log list \<Rightarrow> bool option" where
  "read_log down [] = Some down"
| "read_log down (SwitchedToNoCache op e # l) = (if down then None else read_log True l)"
| "read_log down (BackendRecovered # l) = (if down then read_log False l else None)"

lemma read_log_append: "read_log d (l @ l') = Option.bind (read_log d l) (\<lambda>d'. read_log d' l')"
  by (induction d l rule: read_log.induct) auto

definition log_inv :: "'r RedisStore \<Rightarrow> bool" where
  "log_inv s \<longleftrightarrow> read_log False (rd_log s) = Some (rd_degraded s)"

lemma log_inv_mark [simp]:
  "log_inv s \<Longrightarrow> log_inv (markDegraded op e s)" "log_inv s \<Longrightarrow> log_inv (markHealthy s)"
  by (simp_all add: log_inv_def markDegraded_def markHealthy_def read_log_append)

lemma log_inv_client [simp]: "log_inv (s\<lparr>rd_client := r\<rparr>) = log_inv s"
  by (simp add: log_inv_def)

lemma log_inv_op: "log_inv s \<Longrightarrow> log_inv (apply_op (redis_Store C) s op)"
  by (cases op)
    (simp_all add: redis_Get_def redis_Set_def redis_Delete_def Let_def
      split: prod.split redis_reply.split option.split)

lemma log_inv_run: "log_inv s \<Longrightarrow> log_inv (run_ops (redis_Store C) s ops)"
  by (induction ops rule: rev_induct) (simp_all add: log_inv_op)

lemma NewRedisStore_inv: "NewRedisStore C url = Some s \<Longrightarrow> log_inv s"
  by (auto simp: NewRedisStore_def log_inv_def split: option.splits prod.splits)

section \<open>Properties\<close>

text \<open>
  Over any sequence of calls and failures, the log of a Redis store alternates
  between one line for a failure and one for the recovery, starting with a failure, and the
  degraded flag is set exactly after a failure line: a server that stays down is logged once.
\<close>

theorem redis_log_alternates:
  assumes "NewRedisStore C url = Some s"
  shows "read_log False (rd_log (run_ops (redis_Store C) s ops)) =
           Some (rd_degraded (run_ops (redis_Store C) s ops))"
  using log_inv_run [OF NewRedisStore_inv [OF assms]] by (simp add: log_inv_def)

text \<open>A server that keeps nothing and fails every command.\<close>

definition dead_redis :: "unit RedisClient" where
  "dead_redis =
     \<lparr>rc_ParseURL = (\<lambda>_. Some (''localhost:6379'', 0, ())), rc_Ping = (\<lambda>r. (None, r)),
      rc_Get = (\<lambda>r _ _. (RedisErr ''timeout'', r)), rc_Set = (\<lambda>r _ _ _ _. (Some ''timeout'', r)),
      rc_Del = (\<lambda>r _ _. (Some ''timeout'', r))\<rparr>"

theorem redis_log_alternates_witness:
  "\<exists>s. NewRedisStore dead_redis ''redis://localhost'' = Some s \<and>
     read_log False (rd_log (run_ops (redis_Store dead_redis) s [OpGet 0 ''a'', OpGet 1 ''b''])) =
       Some True"
proof -
  obtain s where s: "NewRedisStore dead_redis ''redis://localhost'' = Some s"
    by (simp add: NewRedisStore_def dead_redis_def)
  have "rd_degraded (run_ops (redis_Store dead_redis)
      (the (NewRedisStore dead_redis ''redis://localhost'')) [OpGet 0 ''a'', OpGet 1 ''b''])"
    by code_simp
  with s redis_log_alternates [OF s, of "[OpGet 0 ''a'', OpGet 1 ''b'']"] show ?thesis by simp
qed

text \<open>A server that never fails, and the proxy over it.\<close>

type_synonym redis_db = "string \<Rightarrow> (bytes \<times> instant option) option"

definition db_view :: "redis_db \<Rightarrow> instant \<Rightarrow> string \<Rightarrow> bytes option" where
  "db_view r t k =
     (case r k of None \<Rightarrow> None | Some (v, x) \<Rightarrow> if expired x t then None else Some v)"

definition live_redis :: "redis_db RedisClient" where
  "live_redis =
     \<lparr>rc_ParseURL = (\<lambda>_. Some (''localhost:6379'', 0, \<lambda>_. None)), rc_Ping = (\<lambda>r. (None, r)),
      rc_Get = (\<lambda>r t k. (case db_view r t k of None \<Rightarrow> RedisNil | Some v \<Rightarrow> RedisValue v, r)),
      rc_Set = (\<lambda>r t k v ttl. (None, r(k \<mapsto> (v, redis_life t ttl)))),
      rc_Del = (\<lambda>r t k. (None, r(k := None)))\<rparr>"

lemma live_redis_contract: "redis_contract live_redis db_view"
  unfolding redis_contract_def
  by (auto simp: live_redis_def db_view_def map_le_def dom_def dest: expired_mono
      split: option.splits if_splits)

definition redis_proxy :: "(redis_db RedisStore, unit) Handler" where
  "redis_proxy =
     \<lparr>h_cache = redis_Store live_redis, h_mutableTTL = 12 * Second,
      h_net = \<lparr>nt_send = (\<lambda>w _. (gas_reply, w)), nt_now = (\<lambda>_. 0)\<rparr>\<rparr>"

definition redis_start :: "(redis_db RedisStore, unit) hstate" where
  "redis_start = demo_state (the (NewRedisStore live_redis ''redis://localhost''))"

end
