(* ===== verification/MainProgram.thy ===== *)
theory MainProgram
  imports Config HttpApi Redis
begin

text \<open>
  The program (cmd/aegis-rpc/main.go): the logger set up before and after the configuration is read,
  the choice of the cache backend, the start-up sequence and the order of shutting down.  The
  arguments are those of the components: \<open>load\<close>, \<open>getenv\<close> and the command line of the configuration,
  and the Redis client.
\<close>

section \<open>Logging\<close>

datatype log_level = LevelDebug | LevelInfo | LevelWarn | LevelError

record Logger =
  lg_level :: log_level
  lg_json :: bool

definition setupLogger :: "(int \<Rightarrow> int) \<Rightarrow> Config \<Rightarrow> Logger" where
  "setupLogger uni c =
     (let level = ToLower uni (TrimSpace (c_LogLevel c)) in
      \<lparr>lg_level =
         (if level = ''debug'' then LevelDebug
          else if level = ''warn'' then LevelWarn
          else if level = ''error'' then LevelError
          else LevelInfo),
       lg_json = (ToLower uni (TrimSpace (c_LogFormat c)) = ''json'')\<rparr>)"

fun peek_loop :: "string \<Rightarrow> string list \<Rightarrow> string" where
  "peek_loop name [] = []"
| "peek_loop name (a # args) =
     (if HasPrefix a (''--'' @ name @ ''='') then drop (length name + 3) a
      else if HasPrefix a (''-'' @ name @ ''='') then drop (length name + 2) a
      else if (a = ''--'' @ name \<or> a = ''-'' @ name) \<and> args \<noteq> [] then hd args
      else peek_loop name args)"

definition peekFlag :: "string list \<Rightarrow> string \<Rightarrow> string" where
  "peekFlag args name = peek_loop name args"

definition setupLoggerFromEarly :: "(int \<Rightarrow> int) \<Rightarrow> (string \<Rightarrow> string) \<Rightarrow> string list \<Rightarrow> Logger" where
  "setupLoggerFromEarly uni getenv args =
     (let c0 = Default;
          c1 = (let v = getenv ''AEGIS_LOG_LEVEL'' in if v \<noteq> [] then c0\<lparr>c_LogLevel := v\<rparr> else c0);
          c2 = (let v = getenv ''AEGIS_LOG_FORMAT'' in if v \<noteq> [] then c1\<lparr>c_LogFormat := v\<rparr> else c1);
          c3 = (let v = peekFlag args ''log-level'' in if v \<noteq> [] then c2\<lparr>c_LogLevel := v\<rparr> else c2);
          c4 = (let v = peekFlag args ''log-format'' in if v \<noteq> [] then c3\<lparr>c_LogFormat := v\<rparr> else c3)
      in setupLogger uni c4)"

section \<open>Starting and stopping\<close>

datatype 'r backend = MemoryBackend Cache | RedisBackend "'r RedisStore"

definition buildCacheStore :: "'r RedisClient \<Rightarrow> Config \<Rightarrow> 'r backend option" where
  "buildCacheStore C c =
     (if c_CacheBackend c = ''redis'' then map_option RedisBackend (NewRedisStore C (c_RedisURL c))
      else Some (MemoryBackend (NewCache [c_MaxCacheEntries c])))"

record 'r system =
  sy_logger :: Logger
  sy_pool :: Pool
  sy_finality :: FinalityChecker
  sy_healthInterval :: duration
  sy_lagThreshold :: uint64
  sy_probeTimeout :: duration
  sy_store :: "'r backend"
  sy_mutableTTL :: duration
  sy_server :: Server

datatype 'r started = Exit int | Running "'r system"

definition main :: "(int \<Rightarrow> int) \<Rightarrow> (string \<Rightarrow> file_result) \<Rightarrow> (string \<Rightarrow> string) \<Rightarrow> 'r RedisClient \<Rightarrow>
    string list \<Rightarrow> 'r started" where
  "main uni load getenv C args =
     (case Parse uni load getenv args of
        ParseExit code \<Rightarrow> Exit code
      | ParseFailed e \<Rightarrow> Exit 1
      | Parsed cfg \<Rightarrow>
          (case NewPool (c_Upstreams cfg) of
             Inl e \<Rightarrow> Exit 1
           | Inr pool \<Rightarrow>
               (case buildCacheStore C cfg of
                  None \<Rightarrow> Exit 1
                | Some store \<Rightarrow>
                    Running
                      \<lparr>sy_logger = setupLogger uni cfg, sy_pool = pool,
                       sy_finality = NewFinalityChecker (c_FinalityDepth cfg),
                       sy_healthInterval = c_HealthInterval cfg, sy_lagThreshold = c_LagThreshold cfg,
                       sy_probeTimeout = c_ProbeTimeout cfg, sy_store = store,
                       sy_mutableTTL = c_MutableTTL cfg,
                       sy_server = New (c_Port cfg) (c_WriteTimeout cfg) (c_WSReplayPendingCap cfg)
                                     (c_WSAllowedOrigins cfg)\<rparr>)))"

text \<open>
  After the signal: the server stops, then the health checks are waited for (\<open>took\<close> is how long they
  need to end), and the deferred call closes the store last.
\<close>

datatype stop_event =
    ServerStopped "string option"
  | HealthStopped
  | HealthDeadline duration
  | StoreClosed "string option"

definition store_Close :: "('r RedisStore \<Rightarrow> string option) \<Rightarrow> 'r backend \<Rightarrow> string option" where
  "store_Close close b = (case b of MemoryBackend c \<Rightarrow> Cache_Close c | RedisBackend r \<Rightarrow> redis_Close close r)"

definition main_stop :: "(duration \<Rightarrow> string option) \<Rightarrow> ('r RedisStore \<Rightarrow> string option) \<Rightarrow> duration \<Rightarrow>
    'r system \<Rightarrow> stop_event list \<times> 'r system" where
  "main_stop closed close took sys =
     (let (err, sv) = Shutdown closed (15 * Second) (sy_server sys);
          deadline = sy_probeTimeout sys + Second
      in ([ServerStopped err, if took < deadline then HealthStopped else HealthDeadline deadline,
           StoreClosed (store_Close close (sy_store sys))],
          sys\<lparr>sy_server := sv\<rparr>))"

text \<open>
  The program waits for the signal; if the server fails before, the goroutine that runs it ends the
  program at once, without the deferred calls.
\<close>

datatype main_event = ServerEnded listen_end | SignalReceived

datatype 'r ended = Waiting | Aborted1 | Stopped "stop_event list" "'r system"

fun main_wait :: "(duration \<Rightarrow> string option) \<Rightarrow> ('r RedisStore \<Rightarrow> string option) \<Rightarrow> duration \<Rightarrow>
    main_event list \<Rightarrow> 'r system \<Rightarrow> 'r ended" where
  "main_wait closed close took [] sys = Waiting"
| "main_wait closed close took (SignalReceived # evs) sys =
     (let (events, sys') = main_stop closed close took sys in Stopped events sys')"
| "main_wait closed close took (ServerEnded e # evs) sys =
     (case Start e of None \<Rightarrow> main_wait closed close took evs sys | Some err \<Rightarrow> Aborted1)"

section \<open>Arguments of the form name=value\<close>

text \<open>An argument \<open>-name=value\<close> or \<open>--name=value\<close>.\<close>

definition eq_arg :: "bool \<times> string \<times> string \<Rightarrow> string" where
  "eq_arg a = (case a of (two, name, v) \<Rightarrow> (if two then ''--'' else ''-'') @ name @ ''='' @ v)"

definition flag_name :: "string \<Rightarrow> bool" where
  "flag_name n \<longleftrightarrow> n \<noteq> [] \<and> hd n \<noteq> CHR ''-'' \<and> CHR ''='' \<notin> set n"

lemma config_flag_names: "map_of config_flags n \<noteq> None \<Longrightarrow> flag_name n"
  unfolding map_of_eq_None_iff config_flags_def flag_name_def by auto

lemma split_flag_eq:
  assumes "flag_name n"
  shows "split_flag (n @ CHR ''='' # v) = (n, Some v)"
proof -
  obtain c n' where n: "n = c # n'" using assms by (cases n) (auto simp: flag_name_def)
  with assms have "IndexByte (CHR ''='') (n' @ CHR ''='' # v) = Some (length n')"
    by (intro IndexByte_append) (simp add: flag_name_def)
  with n show ?thesis by (simp add: split_flag_def)
qed

lemma parse_args_eq:
  assumes "map_of formal n = Some kind" and "flag_name n"
  shows "parse_args formal (eq_arg (two, n, v) # args) actual =
     (case set_value kind v of
        None \<Rightarrow> FlagExit 2 | Some x \<Rightarrow> parse_args formal args (ins_key n x actual))"
proof -
  have n: "n \<noteq> []" "hd n \<noteq> CHR ''-''" "hd n \<noteq> CHR ''=''" "\<not> HasPrefix (n @ CHR ''='' # v) ''-''"
    using assms(2) by (cases n; auto simp: flag_name_def)+
  have "(if HasPrefix (eq_arg (two, n, v)) ''--'' then drop 2 (eq_arg (two, n, v)) else tl (eq_arg (two, n, v))) =
      n @ CHR ''='' # v"
    using n(4) by (auto simp: eq_arg_def)
  with n assms split_flag_eq [OF assms(2), of v] show ?thesis
    by (simp add: parse_args.simps(2) Let_def) (auto simp: eq_arg_def)
qed

lemma parse_eq_args:
  assumes "parse_args config_flags (map eq_arg as) actual = FlagsSet m"
    and "\<forall>(two, n, v) \<in> set as. map_of config_flags n \<noteq> None"
    and "map_of config_flags k = Some StringFlag"
    and "distinct (map (fst \<circ> snd) as)"
  shows "map_of m k =
     (case map_of (map snd as) k of None \<Rightarrow> map_of actual k | Some v \<Rightarrow> Some (FString v))"
  using assms
proof (induction as arbitrary: actual)
  case (Cons a as)
  obtain two n v where a: "a = (two, n, v)" by (cases a) auto
  then obtain kind where kind: "map_of config_flags n = Some kind" using Cons.prems(2) by auto
  obtain x where x: "set_value kind v = Some x"
    and m: "parse_args config_flags (map eq_arg as) (ins_key n x actual) = FlagsSet m"
    using Cons.prems(1) parse_args_eq [OF kind config_flag_names, of two v] kind
    by (auto simp: a split: option.splits)
  have "map_of m k = (case map_of (map snd as) k of None \<Rightarrow> map_of (ins_key n x actual) k | Some v \<Rightarrow> Some (FString v))"
    using Cons.prems by (intro Cons.IH [OF m]) auto
  moreover have "map_of (map snd as) n = None"
    using Cons.prems(4) by (auto simp: a map_of_eq_None_iff image_iff)
  ultimately show ?case
    using kind x Cons.prems(3) by (auto simp: a map_of_ins_key split: option.splits)
qed simp

lemma name_prefix:
  assumes "flag_name n" and "flag_name k"
  shows "HasPrefix (n @ CHR ''='' # v) (k @ ''='') \<longleftrightarrow> n = k"
  using assms split_unique [of "CHR ''=''" n k v] by (auto simp: HasPrefix_iff flag_name_def)

lemma HasPrefix_eq_arg:
  assumes "flag_name n" and "flag_name k"
  shows "HasPrefix (eq_arg (two, n, v)) (''--'' @ k @ ''='') \<longleftrightarrow> two \<and> n = k"
    and "HasPrefix (eq_arg (two, n, v)) (''-'' @ k @ ''='') \<longleftrightarrow> \<not> two \<and> n = k"
    and "eq_arg (two, n, v) \<noteq> ''--'' @ k" and "eq_arg (two, n, v) \<noteq> ''-'' @ k"
proof -
  obtain c n' where n: "n = c # n'" "c \<noteq> CHR ''-''" using assms(1) by (cases n) (auto simp: flag_name_def)
  obtain d k' where k: "k = d # k'" "d \<noteq> CHR ''-''" using assms(2) by (cases k) (auto simp: flag_name_def)
  show "HasPrefix (eq_arg (two, n, v)) (''--'' @ k @ ''='') \<longleftrightarrow> two \<and> n = k"
    using name_prefix [OF assms, of v] n by (auto simp: eq_arg_def)
  show "HasPrefix (eq_arg (two, n, v)) (''-'' @ k @ ''='') \<longleftrightarrow> \<not> two \<and> n = k"
    using name_prefix [OF assms, of v] k by (auto simp: eq_arg_def)
  have "CHR ''='' \<in> set (eq_arg (two, n, v))" by (simp add: eq_arg_def)
  moreover have "CHR ''='' \<notin> set (''--'' @ k)" "CHR ''='' \<notin> set (''-'' @ k)"
    using assms(2) by (simp_all add: flag_name_def)
  ultimately show "eq_arg (two, n, v) \<noteq> ''--'' @ k" "eq_arg (two, n, v) \<noteq> ''-'' @ k" by metis+
qed

lemma peek_eq_args:
  assumes "\<forall>(two, n, v) \<in> set as. flag_name n" and "flag_name k"
  shows "peekFlag (map eq_arg as) k = (case map_of (map snd as) k of None \<Rightarrow> [] | Some v \<Rightarrow> v)"
  using assms
proof (induction as)
  case (Cons a as)
  obtain two n v where a: "a = (two, n, v)" by (cases a) auto
  with Cons.prems have "flag_name n" by simp
  note prefix = HasPrefix_eq_arg [OF this Cons.prems(2), of two v]
  have "drop (length k + 3) (eq_arg (True, k, v)) = v" "drop (length k + 2) (eq_arg (False, k, v)) = v"
    by (simp_all add: eq_arg_def numeral_3_eq_3)
  moreover have "peekFlag (map eq_arg as) k = (case map_of (map snd as) k of None \<Rightarrow> [] | Some v \<Rightarrow> v)"
    using Cons by simp
  ultimately show ?case
    using prefix by (cases "n = k"; cases two) (simp_all add: peekFlag_def a)
qed (simp add: peekFlag_def)

section \<open>The early logger\<close>

text \<open>The value each stage takes for a setting of the logger.\<close>

definition logger_of :: "(int \<Rightarrow> int) \<Rightarrow> string \<Rightarrow> string \<Rightarrow> Logger" where
  "logger_of uni level form = setupLogger uni (Default\<lparr>c_LogLevel := level, c_LogFormat := form\<rparr>)"

lemma setupLogger_of: "setupLogger uni c = logger_of uni (c_LogLevel c) (c_LogFormat c)"
  by (simp add: setupLogger_def logger_of_def)

lemma early_logger:
  "setupLoggerFromEarly uni getenv args =
     logger_of uni
       (first_of [nonempty (peekFlag args ''log-level''), nonempty (getenv ''AEGIS_LOG_LEVEL'')] ''info'')
       (first_of [nonempty (peekFlag args ''log-format''), nonempty (getenv ''AEGIS_LOG_FORMAT'')] ''text'')"
  by (simp add: setupLoggerFromEarly_def setupLogger_of Let_def nonempty_def Default_def)

lemma logger_of_canonical:
  assumes "is_ascii level" and "is_ascii form"
  shows "logger_of uni (ToLower uni (TrimSpace level)) (ToLower uni (TrimSpace form)) = logger_of uni level form"
  using assms by (simp add: logger_of_def setupLogger_def canonical_name_idem Let_def)

definition logging_args :: "(bool \<times> string \<times> string) list \<Rightarrow> bool" where
  "logging_args as \<longleftrightarrow>
     distinct (map (fst \<circ> snd) as) \<and>
     (\<forall>(two, n, v) \<in> set as. map_of config_flags n \<noteq> None \<and> n \<noteq> ''config'' \<and> v \<noteq> [] \<and> is_ascii v)"

lemma flag_as_peeked:
  assumes "flag_Parse config_flags (map eq_arg as) = FlagsSet m" and "logging_args as"
    and "map_of config_flags k = Some StringFlag"
  shows "string_opt m k = nonempty (peekFlag (map eq_arg as) k)"
    and "is_ascii (peekFlag (map eq_arg as) k)"
    and "map_of m ''config'' = None"
proof -
  have decl: "\<forall>(two, n, v) \<in> set as. map_of config_flags n \<noteq> None" "distinct (map (fst \<circ> snd) as)"
    using assms(2) by (auto simp: logging_args_def)
  have m: "map_of m j = map_option FString (map_of (map snd as) j)"
    if "map_of config_flags j = Some StringFlag" for j
    using parse_eq_args [OF assms(1) [unfolded flag_Parse_def] decl(1) that decl(2)]
    by (simp split: option.splits)
  have peek: "peekFlag (map eq_arg as) k = (case map_of (map snd as) k of None \<Rightarrow> [] | Some v \<Rightarrow> v)"
    by (rule peek_eq_args) (use decl(1) assms(3) config_flag_names in auto)
  have val: "v \<noteq> [] \<and> is_ascii v \<and> j \<noteq> ''config''" if "map_of (map snd as) j = Some v" for j v
    using map_of_SomeD [OF that] assms(2) by (auto simp: logging_args_def)
  from val m [OF assms(3)] peek show "string_opt m k = nonempty (peekFlag (map eq_arg as) k)"
    "is_ascii (peekFlag (map eq_arg as) k)"
    by (auto simp: string_opt_def nonempty_def is_ascii_def split: option.splits)
  have "map_of config_flags ''config'' = Some StringFlag" by (simp add: config_flags_def)
  from m [OF this] val show "map_of m ''config'' = None" by (cases "map_of (map snd as) ''config''") auto
qed

lemma is_ascii_first_of:
  "is_ascii a \<Longrightarrow> is_ascii b \<Longrightarrow> is_ascii d \<Longrightarrow> is_ascii (first_of [nonempty a, nonempty b] d)"
  by (simp add: nonempty_def)

section \<open>Properties\<close>

text \<open>
  Without a configuration file, and with flags given as \<open>name=value\<close>, once each and not
  empty, the logger set up before the configuration is read is the one set up afterwards from the
  resolved configuration, so that all log lines have the same level and format.
\<close>

lemma early_logger_agrees:
  assumes "Parse uni load getenv (map eq_arg as) = Parsed cfg" and "logging_args as"
    and "getenv ''AEGIS_CONFIG'' = []"
    and "is_ascii (getenv ''AEGIS_LOG_LEVEL'')" and "is_ascii (getenv ''AEGIS_LOG_FORMAT'')"
  shows "setupLogger uni cfg = setupLoggerFromEarly uni getenv (map eq_arg as)"
proof -
  obtain m where m: "flag_Parse config_flags (map eq_arg as) = FlagsSet m"
    and cfg: "cfg = layered uni m getenv (file_layer load (config_path getenv m))"
    using Parse_layered [OF assms(1)] by blast
  have kinds: "map_of config_flags ''log-level'' = Some StringFlag"
    "map_of config_flags ''log-format'' = Some StringFlag"
    by (simp_all add: config_flags_def)
  note flag = flag_as_peeked [OF m assms(2)]
  have "config_path getenv m = []"
    using flag(3) [OF kinds(1)] assms(3) by (simp add: config_path_def string_flag_def)
  then have no_file: "file_layer load (config_path getenv m) = no_yaml" by (simp add: file_layer_def)
  let ?peek = "peekFlag (map eq_arg as)"
  let ?level = "first_of [nonempty (?peek ''log-level''), nonempty (getenv ''AEGIS_LOG_LEVEL'')] ''info''"
  let ?form = "first_of [nonempty (?peek ''log-format''), nonempty (getenv ''AEGIS_LOG_FORMAT'')] ''text''"
  have env: "env_value Some getenv n = nonempty (getenv n)" for n
    by (simp add: env_value_def nonempty_def)
  have last: "first_of [x, y, None] d = first_of [x, y] d" for x y :: "string option" and d
    by (cases x; cases y) simp_all
  have "c_LogLevel cfg = ToLower uni (TrimSpace ?level)" "c_LogFormat cfg = ToLower uni (TrimSpace ?form)"
    unfolding cfg no_file by (simp_all add: layered_def flag(1) [OF kinds(1)] flag(1) [OF kinds(2)] env last
        no_yaml_def nonempty_def [of "[]"])
  moreover have "is_ascii ''info''" "is_ascii ''text''" by (simp_all add: is_ascii_def)
  then have "is_ascii ?level" "is_ascii ?form"
    using flag(2) [OF kinds(1)] flag(2) [OF kinds(2)] assms(4,5) by (simp_all add: is_ascii_first_of)
  ultimately show ?thesis
    by (simp add: setupLogger_of [of uni cfg] early_logger logger_of_canonical)
qed

text \<open>A repeated flag: the early logger takes the first value, the configuration the last.\<close>

lemma peek_takes_first:
  "peekFlag [''--log-level=debug'', ''--log-level=error''] ''log-level'' = ''debug''"
  "flag_Parse config_flags [''--log-level=debug'', ''--log-level=error''] = FlagsSet [(''log-level'', FString ''error'')]"
  by code_simp+

text \<open>
  Property C21.  A program that starts can serve at once: it has at least one node, all nodes are
  taken to be healthy and able to serve basic requests, so every method outside the debug and trace
  namespaces is routed to a node; a probe ends before the next round of health checks; the cache is
  Redis exactly if the configuration says so; the readiness probe answers 200; and a WebSocket session
  may hold back at least one frame during a replay.
\<close>

theorem startup_can_serve:
  assumes "main uni load getenv C args = Running sys" and "length (p_nodes (sy_pool sys)) < 2 ^ 64"
  shows "\<exists>cfg. Parse uni load getenv args = Parsed cfg \<and>
           list_all2 (\<lambda>raw n. NewUpstream raw = Inr n) (c_Upstreams cfg) (p_nodes (sy_pool sys)) \<and>
           (\<forall>m. MethodCapability m = CapBasic \<longrightarrow>
              (\<exists>i < length (p_nodes (sy_pool sys)). fst (Route (sy_pool sys) m) = Inr i)) \<and>
           0 < sy_probeTimeout sys \<and> sy_probeTimeout sys < sy_healthInterval sys \<and>
           ((\<exists>st. sy_store sys = RedisBackend st) \<longleftrightarrow> c_CacheBackend cfg = ''redis'') \<and>
           rp_status (healthz (sy_server sys)) = 200 \<and> 0 < sv_wsReplayPendingCap (sy_server sys)"
proof -
  obtain cfg pool store where cfg: "Parse uni load getenv args = Parsed cfg"
    and pool: "NewPool (c_Upstreams cfg) = Inr pool" and store: "buildCacheStore C cfg = Some store"
    and sys: "sy_pool sys = pool" "sy_probeTimeout sys = c_ProbeTimeout cfg"
      "sy_healthInterval sys = c_HealthInterval cfg" "sy_store sys = store"
      "sy_server sys = New (c_Port cfg) (c_WriteTimeout cfg) (c_WSReplayPendingCap cfg) (c_WSAllowedOrigins cfg)"
    using assms(1) by (auto simp: main_def split: parsed.splits sum.splits option.splits)
  have valid: "Validate uni cfg = None" using cfg by (rule ParseE)
  have nodes: "list_all2 (\<lambda>raw n. NewUpstream raw = Inr n) (c_Upstreams cfg) (p_nodes pool)" "p_counter pool = 0"
    using pool NewPool_loop_nodes by (auto simp: NewPool_def split: sum.splits)
  moreover have "c_Upstreams cfg \<noteq> []" using valid by (simp add: Validate_None)
  ultimately have ne: "p_nodes pool \<noteq> []" by auto
  then have "NewUpstream (c_Upstreams cfg ! 0) = Inr (p_nodes pool ! 0)"
    using nodes(1) by (auto simp: list_all2_conv_all_nth)
  from NewUpstream_basic [OF this] have usable: "usable pool CapBasic 0" by (simp add: usable_def)
  have "roomy pool" using assms(2) nodes(2) sys(1) by (simp add: roomy_def)
  then have route: "\<exists>i < length (p_nodes pool). fst (Route pool m) = Inr i"
    if "MethodCapability m = CapBasic" for m
    using NextWithCapability_None [of pool CapBasic] NextWithCapability_first [of pool CapBasic] usable ne that
    unfolding Route_Inr by (cases "fst (NextWithCapability pool CapBasic)") auto
  have "(\<exists>st. store = RedisBackend st) \<longleftrightarrow> c_CacheBackend cfg = ''redis''"
    using store by (auto simp: buildCacheStore_def split: if_splits)
  with cfg nodes route valid show ?thesis
    unfolding sys by (intro exI [of _ cfg]) (simp add: Validate_None healthz_def New_def)
qed

theorem startup_can_serve_witness:
  "\<exists>sys. main id (\<lambda>_. CannotOpen) (\<lambda>_. []) dead_redis [''-upstreams=http://a,http://b[trace]''] = Running sys \<and>
     (\<exists>i < length (p_nodes (sy_pool sys)). fst (Route (sy_pool sys) ''eth_call'') = Inr i)"
proof -
  let ?main = "main id (\<lambda>_. CannotOpen) (\<lambda>_. []) dead_redis [''-upstreams=http://a,http://b[trace]'']"
  have "(case ?main of Running sys \<Rightarrow> length (p_nodes (sy_pool sys)) = 2 | _ \<Rightarrow> False)" by code_simp
  then obtain sys where sys: "?main = Running sys" "length (p_nodes (sy_pool sys)) = 2"
    by (auto split: started.splits)
  moreover have "MethodCapability ''eth_call'' = CapBasic" by code_simp
  ultimately show ?thesis
    using startup_can_serve [OF sys(1)] by auto
qed

text \<open>
  The store is closed, and last, exactly when the program is ended by the signal; the readiness probe
  then answers 503.
\<close>

lemma main_wait_ends:
  "main_wait closed close took evs sys =
     (case dropWhile (\<lambda>ev. case ev of ServerEnded e \<Rightarrow> Start e = None | SignalReceived \<Rightarrow> False) evs of
        [] \<Rightarrow> Waiting
      | ServerEnded e # _ \<Rightarrow> Aborted1
      | SignalReceived # _ \<Rightarrow> Stopped (fst (main_stop closed close took sys)) (snd (main_stop closed close took sys)))"
  by (induction evs rule: main_wait.induct [of "\<lambda>_ _ _ evs _. P evs" for P]) (auto split: option.splits prod.splits)

lemma main_stop_order:
  "\<exists>err h. fst (main_stop closed close took sys) = [ServerStopped err, h, StoreClosed (store_Close close (sy_store sys))] \<and>
     rp_status (healthz (sy_server (snd (main_stop closed close took sys)))) = 503"
  by (simp add: main_stop_def Shutdown_def healthz_def Let_def)

end
