(* ===== verification/ProxyConcurrent.thy ===== *)
theory ProxyConcurrent
  imports ProxyCache
begin

text \<open>
  Requests that are served at the same time (internal/proxy/handler.go).  \<open>net/http\<close> runs
  \<open>ServeHTTP\<close> in a goroutine per request, and all of them share the pool, the cache, the finality
  checker and the metrics.  Here a request is a process whose every step makes at most one access to
  what is shared, and a schedule is a list of actions: a request arrives, a process makes its next
  step, a caller joins a flight, or health checks, sessions, the clock and the cache's clean-up get
  their turn.  The sequential \<open>ServeHTTP\<close> is what a process does that is left alone.
\<close>

section \<open>One request as a process\<close>

text \<open>The local variables of \<open>ServeHTTP\<close>.\<close>

record call =
  ca_r :: client_req
  ca_start :: instant
  ca_method :: string
  ca_body :: bytes
  ca_req :: RPCRequest
  ca_layer :: Layer

definition ca_key :: "call \<Rightarrow> string" where
  "ca_key c = CacheKey (rq_Method (ca_req c)) (rq_Params (ca_req c))"

definition new_call :: "client_req \<Rightarrow> instant \<Rightarrow> call" where
  "new_call r start =
     \<lparr>ca_r = r, ca_start = start, ca_method = ''unknown'', ca_body = [],
      ca_req = \<lparr>rq_JSONRPC = [], rq_Method = [], rq_Params = [], rq_ID = []\<rparr>,
      ca_layer = LayerUncacheable\<rparr>"

text \<open>
  Where a request is: \<open>Waiting c j\<close> waits for the flight that process \<open>j\<close> has started; \<open>Write\<close> is
  about to write to the cache as the last act of a flight; \<open>Flown\<close> has the result of a flight;
  \<open>Replying\<close> has answered and is about to run the deferred metrics.
\<close>

datatype job =
    Arrived client_req
  | Started client_req instant
  | NegLookup call
  | Lookup call
  | AtGroup call
  | Waiting call nat
  | FetchRoute call nat
  | FetchSend call nat Upstream
  | Write call "string \<times> bytes \<times> duration" flown
  | Flown call flown
  | DirectRoute call nat
  | DirectSend call nat Upstream
  | Replying call "response option" string
  | Served call "response option" string

definition after_fetch :: "('s, 'w) Handler \<Rightarrow> call \<Rightarrow> fetched \<Rightarrow> job" where
  "after_fetch H c res =
     (case outcome H (ca_layer c) (ca_key c) res of
        (fl, None) \<Rightarrow> Flown c fl
      | (fl, Some wr) \<Rightarrow> Write c wr fl)"

definition dispatch :: "('s, 'w) hstate \<Rightarrow> client_req \<Rightarrow> instant \<Rightarrow> job" where
  "dispatch s r start =
     (let c = new_call r start; n = length (p_nodes (hs_pool s)) in
      case read_body r of
        None \<Rightarrow> Replying c (Some (http_Error no_header ''request too large'' 413)) ''error''
      | Some body \<Rightarrow>
          if isBatch body then DirectRoute (c\<lparr>ca_method := ''batch'', ca_body := body\<rparr>) n
          else
            (case Unmarshal_RPCRequest body of
               None \<Rightarrow>
                 Replying (c\<lparr>ca_body := body\<rparr>)
                   (Some (http_Error no_header ''invalid JSON-RPC request'' 400)) ''error''
             | Some req \<Rightarrow>
                 (let layer = fc_Classify (hs_finality s) (rq_Method req) (rq_Params req);
                      c' = c\<lparr>ca_method := rq_Method req, ca_body := body, ca_req := req,
                             ca_layer := layer\<rparr> in
                  if layer = LayerUncacheable then DirectRoute c' n else NegLookup c')))"

fun job_step :: "('s, 'w) Handler \<Rightarrow> job \<Rightarrow> ('s, 'w) hstate \<Rightarrow> job \<times> ('s, 'w) hstate" where
  "job_step H (Arrived r) s = (Started r (now H s), s)"
| "job_step H (Started r start) s = (dispatch s r start, s)"
| "job_step H (NegLookup c) s =
     (case cache_Get H (neg_key (ca_key c)) s of
        (Some _, s1) \<Rightarrow>
          (Replying c (Some (http_Error no_header ''upstream error'' 502)) ''neg_hit'',
           note_lookup ''neg_hit'' s1)
      | (None, s1) \<Rightarrow> (Lookup c, s1))"
| "job_step H (Lookup c) s =
     (case cache_Get H (ca_key c) s of
        (Some cachedResult, s1) \<Rightarrow>
          (case buildResultEnvelope (rq_ID (ca_req c)) cachedResult of
             None \<Rightarrow>
               (Replying c (Some (http_Error no_header ''internal error'' 500)) ''error'',
                note_lookup ''hit'' s1)
           | Some envelope \<Rightarrow>
               (Replying c (Some (json_response envelope)) ''cache_hit'', note_lookup ''hit'' s1))
      | (None, s1) \<Rightarrow> (AtGroup c, note_lookup ''miss'' s1))"
| "job_step H (AtGroup c) s = (FetchRoute c (length (p_nodes (hs_pool s))), s)"
| "job_step H (Waiting c j) s = (Waiting c j, s)"
| "job_step H (FetchRoute c 0) s = (after_fetch H c FetchNone, s)"
| "job_step H (FetchRoute c (Suc k)) s =
     (let (res, p') = Route (hs_pool s) (ca_method c); s1 = s\<lparr>hs_pool := p'\<rparr> in
      case res of
        Inl _ \<Rightarrow> (after_fetch H c FetchNone, s1)
      | Inr i \<Rightarrow> (FetchSend c k (p_nodes p' ! i), s1))"
| "job_step H (FetchSend c k node) s =
     (let (buf, s1) = send_to H node (ca_r c) (ca_body c) s in
      (case buf of
         None \<Rightarrow> after_fetch H c FetchPanic
       | Some b \<Rightarrow>
           if bf_status b = 429
           then after_fetch H c (FetchRateLimited (header_Get (bf_header b) ''Retry-After''))
           else if bf_status b < 200 \<or> 300 \<le> bf_status b then FetchRoute c k
           else after_fetch H c (FetchBody (bf_body b)), s1))"
| "job_step H (Write c (k, v, ttl) fl) s = (Flown c fl, cache_Set H k v ttl s)"
| "job_step H (Flown c fl) s =
     (let (resp, status) = finish (rq_ID (ca_req c)) fl in (Replying c resp status, s))"
| "job_step H (DirectRoute c 0) s =
     (Replying c (Some (http_Error no_header ''no healthy upstream available'' 502)) ''error'', s)"
| "job_step H (DirectRoute c (Suc k)) s =
     (let (res, p') = Route (hs_pool s) (ca_method c); s1 = s\<lparr>hs_pool := p'\<rparr> in
      case res of
        Inl _ \<Rightarrow>
          (Replying c (Some (http_Error no_header ''no healthy upstream available'' 502)) ''error'', s1)
      | Inr i \<Rightarrow> (DirectSend c k (p_nodes p' ! i), s1))"
| "job_step H (DirectSend c k node) s =
     (let (buf, s1) = send_to H node (ca_r c) (ca_body c) s in
      (case buf of
         None \<Rightarrow> Replying c None ''uncacheable''
       | Some b \<Rightarrow>
           if bf_status b < 200 \<or> 300 \<le> bf_status b then DirectRoute c k
           else
             Replying c
               (Some \<lparr>rp_status = bf_status b, rp_header = bf_header b, rp_body = bf_body b\<rparr>)
               ''uncacheable'', s1))"
| "job_step H (Replying c resp status) s =
     (let labelMethod = NormalizeMethod (ca_method c) in
      (Served c resp status,
       s\<lparr>hs_requests := hs_requests s @ [(labelMethod, status)],
         hs_durations := hs_durations s @ [(labelMethod, now H s - ca_start c)]\<rparr>))"
| "job_step H (Served c resp status) s = (Served c resp status, s)"

section \<open>Many requests\<close>

record ('s, 'w) conc =
  cn_state :: "('s, 'w) hstate"
  cn_jobs :: "job list"

fun runnable :: "job \<Rightarrow> bool" where
  "runnable (Waiting c j) = False"
| "runnable (Served c resp status) = False"
| "runnable _ = True"

fun in_flight :: "job \<Rightarrow> call option" where
  "in_flight (FetchRoute c k) = Some c"
| "in_flight (FetchSend c k node) = Some c"
| "in_flight (Write c wr fl) = Some c"
| "in_flight _ = None"

text \<open>
  The contract of the singleflight group of golang.org/x/sync: a caller that finds a call with its key
  in flight may wait for that call instead of making its own, and receives the same result when it ends.
\<close>

fun wake :: "nat \<Rightarrow> job \<Rightarrow> job \<Rightarrow> job" where
  "wake i (Flown c' fl) (Waiting c j) = (if j = i then Flown c fl else Waiting c j)"
| "wake i _ job = job"

definition run_step :: "('s, 'w) Handler \<Rightarrow> nat \<Rightarrow> ('s, 'w) conc \<Rightarrow> ('s, 'w) conc" where
  "run_step H i C =
     (let (job, s) = job_step H (cn_jobs C ! i) (cn_state C)
      in \<lparr>cn_state = s, cn_jobs = map (wake i job) ((cn_jobs C)[i := job])\<rparr>)"

text \<open>
  A schedule.  \<open>Join i j\<close>: the caller \<open>i\<close> finds the flight of \<open>j\<close> for the same key and waits for it.
  The group decides when that happens; nothing below depends on its choice.  \<open>Moves\<close> is whatever
  other parts of the program do to the pool (which never gains or loses a node) and to the finalised
  head, \<open>Passes\<close> whatever goes on outside while the clock does not go back, and \<open>Cleans\<close> what the
  store does on its own, as \<open>bg\<close> says.
\<close>

datatype ('s, 'w) action =
    Arrive client_req
  | Run nat
  | Join nat nat
  | Moves Pool FinalityChecker
  | Passes 'w
  | Cleans 's

fun act :: "('s, 'w) Handler \<Rightarrow> ('s \<Rightarrow> instant \<Rightarrow> 's \<Rightarrow> bool) \<Rightarrow> ('s, 'w) action \<Rightarrow>
    ('s, 'w) conc \<Rightarrow> ('s, 'w) conc option" where
  "act H bg (Arrive r) C = Some (C\<lparr>cn_jobs := cn_jobs C @ [Arrived r]\<rparr>)"
| "act H bg (Run i) C =
     (if i < length (cn_jobs C) \<and> runnable (cn_jobs C ! i) then Some (run_step H i C) else None)"
| "act H bg (Join i j) C =
     (if i < length (cn_jobs C) \<and> j < length (cn_jobs C)
      then (case (cn_jobs C ! i, in_flight (cn_jobs C ! j)) of
              (AtGroup c, Some c') \<Rightarrow>
                if ca_key c' = ca_key c then Some (C\<lparr>cn_jobs := (cn_jobs C)[i := Waiting c j]\<rparr>)
                else None
            | _ \<Rightarrow> None)
      else None)"
| "act H bg (Moves p fc) C =
     (if length (p_nodes p) = length (p_nodes (hs_pool (cn_state C)))
      then Some (C\<lparr>cn_state := (cn_state C)\<lparr>hs_pool := p, hs_finality := fc\<rparr>\<rparr>) else None)"
| "act H bg (Passes w) C =
     (if now H (cn_state C) \<le> nt_now (h_net H) w
      then Some (C\<lparr>cn_state := (cn_state C)\<lparr>hs_world := w\<rparr>\<rparr>) else None)"
| "act H bg (Cleans st) C =
     (if bg (hs_store (cn_state C)) (now H (cn_state C)) st
      then Some (C\<lparr>cn_state := (cn_state C)\<lparr>hs_store := st\<rparr>\<rparr>) else None)"

primrec acts :: "('s, 'w) Handler \<Rightarrow> ('s \<Rightarrow> instant \<Rightarrow> 's \<Rightarrow> bool) \<Rightarrow> ('s, 'w) action list \<Rightarrow>
    ('s, 'w) conc \<Rightarrow> ('s, 'w) conc option" where
  "acts H bg [] C = Some C"
| "acts H bg (a # as) C = (case act H bg a C of None \<Rightarrow> None | Some C' \<Rightarrow> acts H bg as C')"

definition conc_start :: "('s, 'w) hstate \<Rightarrow> ('s, 'w) conc" where
  "conc_start s = \<lparr>cn_state = s, cn_jobs = []\<rparr>"

lemma acts_invariant:
  assumes "acts H bg as C = Some C'" and "I C"
    and "\<And>a C C'. I C \<Longrightarrow> act H bg a C = Some C' \<Longrightarrow> I C'"
  shows "I C'"
  using assms(1,2)
proof (induction as arbitrary: C)
  case Nil
  then show ?case by simp
next
  case (Cons a as)
  with assms(3) show ?case by (auto split: option.splits)
qed

section \<open>A request that is left alone\<close>

inductive solo :: "('s, 'w) Handler \<Rightarrow> nat \<Rightarrow> job \<times> ('s, 'w) hstate \<Rightarrow> job \<times> ('s, 'w) hstate \<Rightarrow> bool"
  for H where
  solo_refl: "solo H 0 x x"
| solo_step: "runnable j \<Longrightarrow> solo H n (job_step H j s) z \<Longrightarrow> solo H (Suc n) (j, s) z"

lemma solo_trans: "solo H n x y \<Longrightarrow> solo H m y z \<Longrightarrow> solo H (n + m) x z"
  by (induction rule: solo.induct) (auto intro: solo_step)

text \<open>Some number of steps, at most \<open>n\<close>.\<close>

definition solo_in :: "('s, 'w) Handler \<Rightarrow> nat \<Rightarrow> job \<times> ('s, 'w) hstate \<Rightarrow> job \<times> ('s, 'w) hstate \<Rightarrow> bool" where
  "solo_in H n x y \<longleftrightarrow> (\<exists>k \<le> n. solo H k x y)"

lemma solo_in_refl [simp]: "solo_in H n x x"
  unfolding solo_in_def by (intro exI [of _ 0]) (simp add: solo_refl)

lemma solo_in_step:
  assumes "runnable j" and "solo_in H n (job_step H j s) z" and "Suc n \<le> m"
  shows "solo_in H m (j, s) z"
proof -
  from assms(2) obtain k where "k \<le> n" and "solo H k (job_step H j s) z" by (auto simp: solo_in_def)
  with assms(1,3) show ?thesis
    unfolding solo_in_def by (intro exI [of _ "Suc k"]) (simp add: solo_step)
qed

lemma solo_in_trans: "solo_in H n x y \<Longrightarrow> solo_in H m y z \<Longrightarrow> n + m \<le> k \<Longrightarrow> solo_in H k x z"
  unfolding solo_in_def by (meson add_le_mono le_trans solo_trans)

lemma FetchRoute_Suc:
  "job_step H (FetchRoute c (Suc k)) s =
     (case route_pick (ca_method c) (hs_pool s) of
        None \<Rightarrow> (after_fetch H c FetchNone, s\<lparr>hs_pool := bump (hs_pool s)\<rparr>)
      | Some i \<Rightarrow> (FetchSend c k (p_nodes (hs_pool s) ! i), s\<lparr>hs_pool := bump (hs_pool s)\<rparr>))"
  by (simp add: Route_pick Let_def split: option.splits)

lemma DirectRoute_Suc:
  "job_step H (DirectRoute c (Suc k)) s =
     (case route_pick (ca_method c) (hs_pool s) of
        None \<Rightarrow>
          (Replying c (Some (http_Error no_header ''no healthy upstream available'' 502)) ''error'',
           s\<lparr>hs_pool := bump (hs_pool s)\<rparr>)
      | Some i \<Rightarrow> (DirectSend c k (p_nodes (hs_pool s) ! i), s\<lparr>hs_pool := bump (hs_pool s)\<rparr>))"
  by (simp add: Route_pick Let_def split: option.splits)

lemma send_attempt:
  "send_to H (p_nodes (hs_pool s) ! i) r body (s\<lparr>hs_pool := bump (hs_pool s)\<rparr>) =
     (attempt_buf H i r body s, attempt H i r body s)"
  by (simp add: attempt_buf_def attempt_def)

declare job_step.simps(8,13) [simp del]

lemma solo_fetch:
  "solo_in H (2 * k + 1) (FetchRoute c k, s)
     (case fetch_loop H k (ca_r c) (ca_body c) (ca_method c) s of (res, s') \<Rightarrow> (after_fetch H c res, s'))"
proof (induction k arbitrary: s)
  case 0
  show ?case by (rule solo_in_step [where n = 0]) simp_all
next
  case (Suc k)
  show ?case
  proof (cases "route_pick (ca_method c) (hs_pool s)")
    case None
    then show ?thesis
      by (intro solo_in_step [where n = 0]) (simp_all add: FetchRoute_Suc fetch_loop_Suc)
  next
    case (Some i)
    let ?s = "attempt H i (ca_r c) (ca_body c) s"
    show ?thesis
    proof (rule solo_in_step [where n = "2 * k + 2"])
      show "solo_in H (2 * k + 2) (job_step H (FetchRoute c (Suc k)) s)
        (case fetch_loop H (Suc k) (ca_r c) (ca_body c) (ca_method c) s of
           (res, s') \<Rightarrow> (after_fetch H c res, s'))"
        unfolding FetchRoute_Suc Some option.case
        by (rule solo_in_step [where n = "2 * k + 1"])
          (use Suc.IH [of ?s] in \<open>simp_all add: fetch_loop_Suc Some send_attempt split: option.splits\<close>)
    qed simp_all
  qed
qed

definition direct_reply :: "call \<Rightarrow> (response \<times> bool) option \<Rightarrow> job" where
  "direct_reply c out =
     (case out of
        None \<Rightarrow> Replying c None ''uncacheable''
      | Some (resp, err) \<Rightarrow> Replying c (Some resp) (if err then ''error'' else ''uncacheable''))"

lemma solo_direct:
  "solo_in H (2 * k + 1) (DirectRoute c k, s)
     (case direct_loop H k (ca_r c) (ca_body c) (ca_method c) s of (out, s') \<Rightarrow> (direct_reply c out, s'))"
proof (induction k arbitrary: s)
  case 0
  show ?case by (rule solo_in_step [where n = 0]) (simp_all add: direct_reply_def)
next
  case (Suc k)
  show ?case
  proof (cases "route_pick (ca_method c) (hs_pool s)")
    case None
    then show ?thesis
      by (intro solo_in_step [where n = 0]) (simp_all add: DirectRoute_Suc direct_loop_Suc direct_reply_def)
  next
    case (Some i)
    let ?s = "attempt H i (ca_r c) (ca_body c) s"
    show ?thesis
    proof (rule solo_in_step [where n = "2 * k + 2"])
      show "solo_in H (2 * k + 2) (job_step H (DirectRoute c (Suc k)) s)
        (case direct_loop H (Suc k) (ca_r c) (ca_body c) (ca_method c) s of
           (out, s') \<Rightarrow> (direct_reply c out, s'))"
        unfolding DirectRoute_Suc Some option.case
        by (rule solo_in_step [where n = "2 * k + 1"])
          (use Suc.IH [of ?s] in
            \<open>simp_all add: direct_loop_Suc Some send_attempt direct_reply_def split: option.splits\<close>)
    qed simp_all
  qed
qed

lemma solo_flight:
  "solo_in H (2 * length (p_nodes (hs_pool s)) + 3) (AtGroup c, s)
     (case flight H (ca_r c) (ca_body c) (ca_method c) (ca_layer c) (ca_key c) s of
        (fl, s') \<Rightarrow> (Flown c fl, s'))"
proof -
  let ?n = "length (p_nodes (hs_pool s))"
  obtain res s1 where f: "fetch_loop H ?n (ca_r c) (ca_body c) (ca_method c) s = (res, s1)" by fastforce
  obtain fl wr where o: "outcome H (ca_layer c) (ca_key c) res = (fl, wr)" by fastforce
  have "solo_in H (2 * ?n + 2) (AtGroup c, s) (after_fetch H c res, s1)"
    by (rule solo_in_step [where n = "2 * ?n + 1"]) (use solo_fetch [of H ?n c s] f in simp_all)
  moreover have "solo_in H 1 (after_fetch H c res, s1) (Flown c fl, write_back H wr s1)"
  proof (cases wr)
    case None
    with o show ?thesis by (simp add: after_fetch_def write_back_def)
  next
    case (Some w)
    with o show ?thesis
      by (cases w) (auto simp: after_fetch_def write_back_def intro: solo_in_step [where n = 0])
  qed
  ultimately show ?thesis
    using solo_in_trans [of H "2 * ?n + 2" _ _ 1 _ "2 * ?n + 3"] f o
    by (simp add: flight_outcome fetchFromUpstream_def)
qed

lemma cache_Get_pool: "hs_pool (snd (cache_Get H k s)) = hs_pool s"
  by (simp add: cache_Get_def split: prod.splits)

lemma note_lookup_pool [simp]: "hs_pool (note_lookup l s) = hs_pool s"
  by (simp add: note_lookup_def)

lemma solo_cacheable:
  assumes "ca_method c = rq_Method (ca_req c)"
    and "serve_cacheable H (\<lambda>_ _. None) (ca_r c) (ca_body c) (ca_req c) (ca_layer c) s = ((resp, status), s')"
  shows "solo_in H (2 * length (p_nodes (hs_pool s)) + 6) (NegLookup c, s) (Replying c resp status, s')"
proof -
  let ?n = "length (p_nodes (hs_pool s))"
  obtain neg s1 where s1: "cache_Get H (neg_key (ca_key c)) s = (neg, s1)" by fastforce
  obtain hit s2 where s2: "cache_Get H (ca_key c) s1 = (hit, s2)" by fastforce
  note defs = serve_cacheable_def Let_def ca_key_def [symmetric] s1 s2 Do_def
  show ?thesis
  proof (cases "neg = None \<and> hit = None")
    case False
    then show ?thesis
    proof (cases neg)
      case (Some x)
      with assms(2) show ?thesis
        by (intro solo_in_step [where n = 0]) (auto simp: defs)
    next
      case None
      with False obtain v where "hit = Some v" by (cases hit) auto
      with None assms(2) have "solo_in H 1 (Lookup c, s1) (Replying c resp status, s')"
        by (intro solo_in_step [where n = 0]) (auto simp: defs split: option.splits)
      with None s1 show ?thesis
        by (intro solo_in_step [where n = 1]) simp_all
    qed
  next
    case True
    obtain fl s3 where f: "flight H (ca_r c) (ca_body c) (ca_method c) (ca_layer c) (ca_key c)
        (note_lookup ''miss'' s2) = (fl, s3)" by fastforce
    have n: "length (p_nodes (hs_pool (note_lookup ''miss'' s2))) = ?n"
      using cache_Get_pool [of H "ca_key c" s1] cache_Get_pool [of H "neg_key (ca_key c)" s] s1 s2 by simp
    have "finish (rq_ID (ca_req c)) fl = (resp, status) \<and> s3 = s'"
      using True assms f by (auto simp: defs)
    then have "solo_in H 1 (Flown c fl, s3) (Replying c resp status, s')"
      by (intro solo_in_step [where n = 0]) simp_all
    then have "solo_in H (2 * ?n + 4) (AtGroup c, note_lookup ''miss'' s2) (Replying c resp status, s')"
      using solo_in_trans [of H "2 * ?n + 3" _ _ 1 _ "2 * ?n + 4"]
        solo_flight [of H "note_lookup ''miss'' s2" c] f n by simp
    then have "solo_in H (2 * ?n + 5) (Lookup c, s1) (Replying c resp status, s')"
      using True s2 by (intro solo_in_step [where n = "2 * ?n + 4"]) simp_all
    then show ?thesis
      using True s1 by (intro solo_in_step [where n = "2 * ?n + 5"]) simp_all
  qed
qed

lemma solo_direct_reply:
  assumes "direct H (ca_r c) (ca_body c) (ca_method c) s = ((resp, status), s')"
  shows "solo_in H (2 * length (p_nodes (hs_pool s)) + 1)
           (DirectRoute c (length (p_nodes (hs_pool s))), s) (Replying c resp status, s')"
  using solo_direct [of H "length (p_nodes (hs_pool s))" c s] assms
  by (auto simp: direct_def proxyDirect_def direct_reply_def split: prod.splits option.splits)

lemma solo_in_mono: "solo_in H n x y \<Longrightarrow> n \<le> m \<Longrightarrow> solo_in H m x y"
  using solo_in_trans [of H n x y 0 y m] by simp

lemma solo_dispatch:
  assumes "serve H (\<lambda>_ _. None) r s = (l, (resp, status), s')"
  shows "\<exists>c. solo_in H (2 * length (p_nodes (hs_pool s)) + 6) (dispatch s r start, s)
           (Replying c resp status, s') \<and> ca_start c = start \<and> ca_method c = l"
proof (cases "read_body r")
  case None
  with assms show ?thesis
    by (intro exI [of _ "new_call r start"]) (auto simp: serve_def dispatch_def Let_def new_call_def)
next
  case body: (Some body)
  let ?c = "(new_call r start)\<lparr>ca_body := body\<rparr>"
  show ?thesis
  proof (cases "isBatch body")
    case True
    with body assms solo_in_mono [OF solo_direct_reply [of H "?c\<lparr>ca_method := l\<rparr>" s resp status s']]
    show ?thesis
      by (intro exI [of _ "?c\<lparr>ca_method := l\<rparr>"]) (auto simp: serve_def dispatch_def Let_def new_call_def)
  next
    case single: False
    show ?thesis
    proof (cases "Unmarshal_RPCRequest body")
      case None
      with body single assms show ?thesis
        by (intro exI [of _ ?c]) (auto simp: serve_def dispatch_def Let_def new_call_def)
    next
      case (Some req)
      let ?layer = "fc_Classify (hs_finality s) (rq_Method req) (rq_Params req)"
      let ?d = "?c\<lparr>ca_method := rq_Method req, ca_req := req, ca_layer := ?layer\<rparr>"
      have "solo_in H (2 * length (p_nodes (hs_pool s)) + 6) (dispatch s r start, s) (Replying ?d resp status, s')"
        using body single assms Some solo_in_mono [OF solo_direct_reply [of H ?d s resp status s']]
          solo_cacheable [of ?d H s resp status s']
        by (auto simp: serve_def dispatch_def Let_def new_call_def split: if_splits)
      with body single assms Some show ?thesis
        by (intro exI [of _ ?d]) (auto simp: serve_def Let_def new_call_def)
    qed
  qed
qed

lemma solo_ServeHTTP:
  "\<exists>c status. solo_in H (2 * length (p_nodes (hs_pool s)) + 9) (Arrived r, s)
     (Served c (fst (ServeHTTP H (\<lambda>_ _. None) r s)) status, snd (ServeHTTP H (\<lambda>_ _. None) r s))"
proof -
  let ?n = "length (p_nodes (hs_pool s))"
  obtain l resp status s' where serve: "serve H (\<lambda>_ _. None) r s = (l, (resp, status), s')"
    by (metis prod.collapse)
  from solo_dispatch [OF this] obtain c where
    c: "solo_in H (2 * ?n + 6) (dispatch s r (now H s), s) (Replying c resp status, s')"
      "ca_start c = now H s" "ca_method c = l" by blast
  have "solo_in H 1 (Replying c resp status, s')
      (Served c (fst (ServeHTTP H (\<lambda>_ _. None) r s)) status, snd (ServeHTTP H (\<lambda>_ _. None) r s))"
    using serve c(2,3) by (intro solo_in_step [where n = 0]) (simp_all add: ServeHTTP_def Let_def)
  with c(1) have "solo_in H (2 * ?n + 7) (dispatch s r (now H s), s)
      (Served c (fst (ServeHTTP H (\<lambda>_ _. None) r s)) status, snd (ServeHTTP H (\<lambda>_ _. None) r s))"
    by (rule solo_in_trans) simp
  then have "solo_in H (2 * ?n + 8) (Started r (now H s), s)
      (Served c (fst (ServeHTTP H (\<lambda>_ _. None) r s)) status, snd (ServeHTTP H (\<lambda>_ _. None) r s))"
    by (intro solo_in_step [where n = "2 * ?n + 7"]) simp_all
  then have "solo_in H (2 * ?n + 9) (Arrived r, s)
      (Served c (fst (ServeHTTP H (\<lambda>_ _. None) r s)) status, snd (ServeHTTP H (\<lambda>_ _. None) r s))"
    by (intro solo_in_step [where n = "2 * ?n + 8"]) simp_all
  then show ?thesis by blast
qed

lemma wake_same: "(\<And>c k. j \<noteq> Waiting c k) \<Longrightarrow> wake i x j = j"
  by (cases j; cases x) simp_all

lemma wake_self [simp]: "wake i j j = j"
  by (cases j) simp_all

lemma acts_solo:
  assumes "solo H n (j, s) (j', s')" and "\<And>c k. Waiting c k \<notin> set pre"
  shows "acts H bg (replicate n (Run (length pre))) \<lparr>cn_state = s, cn_jobs = pre @ [j]\<rparr> =
           Some \<lparr>cn_state = s', cn_jobs = pre @ [j']\<rparr>"
  using assms(1)
proof (induction n "(j, s)" "(j', s')" arbitrary: j s rule: solo.induct)
  case solo_refl
  then show ?case by simp
next
  case (solo_step j n s)
  obtain j1 s1 where step: "job_step H j s = (j1, s1)" by fastforce
  have "map (wake (length pre) j1) pre = pre"
    using assms(2) by (intro map_idI) (metis wake_same)
  with step solo_step.hyps(3) [OF step] solo_step.hyps(1) show ?case by (simp add: run_step_def)
qed

text \<open>
  Property C7.  The processes implement the handler: a request that arrives in any configuration in
  which nobody waits for a flight, and is scheduled until it is served, leaves exactly the answer and
  the state that the sequential \<open>ServeHTTP\<close> computes, within twice the number of nodes and nine steps.
\<close>

theorem alone_is_ServeHTTP:
  assumes "\<forall>c k. Waiting c k \<notin> set pre"
  shows "\<exists>n c status. n \<le> 2 * length (p_nodes (hs_pool s)) + 9 \<and>
           acts H bg (Arrive r # replicate n (Run (length pre))) \<lparr>cn_state = s, cn_jobs = pre\<rparr> =
             Some \<lparr>cn_state = snd (ServeHTTP H (\<lambda>_ _. None) r s),
                   cn_jobs = pre @ [Served c (fst (ServeHTTP H (\<lambda>_ _. None) r s)) status]\<rparr>"
proof -
  from solo_ServeHTTP [of H s r] obtain c status n
    where "n \<le> 2 * length (p_nodes (hs_pool s)) + 9"
      and "solo H n (Arrived r, s) (Served c (fst (ServeHTTP H (\<lambda>_ _. None) r s)) status,
             snd (ServeHTTP H (\<lambda>_ _. None) r s))"
    by (auto simp: solo_in_def)
  with acts_solo [of H n "Arrived r" s _ _ pre bg] assms show ?thesis
    by (intro exI [of _ n] exI [of _ c] exI [of _ status]) simp
qed

theorem alone_is_ServeHTTP_witness:
  "\<exists>n c status. n \<le> 11 \<and>
     acts (gas_proxy gas_reply) janitor (Arrive (demo_request (gas_body ''7'')) # replicate n (Run 0))
       (conc_start gas_start) =
     Some \<lparr>cn_state = snd (ServeHTTP (gas_proxy gas_reply) (\<lambda>_ _. None) (demo_request (gas_body ''7'')) gas_start),
           cn_jobs = [Served c (fst (ServeHTTP (gas_proxy gas_reply) (\<lambda>_ _. None)
             (demo_request (gas_body ''7'')) gas_start)) status]\<rparr>"
  using alone_is_ServeHTTP [of "[]" gas_start "gas_proxy gas_reply" janitor "demo_request (gas_body ''7'')"]
  by (simp add: conc_start_def gas_start_def demo_state_def)

section \<open>Who waits for whom\<close>

lemma run_step_jobs:
  assumes "i < length (cn_jobs C)" and "k < length (cn_jobs C)"
    and "job_step H (cn_jobs C ! i) (cn_state C) = (job, s)"
  shows "cn_jobs (run_step H i C) ! k = (if k = i then job else wake i job (cn_jobs C ! k))"
  using assms by (simp add: run_step_def nth_list_update)

lemma run_step_sel:
  "cn_state (run_step H i C) = snd (job_step H (cn_jobs C ! i) (cn_state C))"
  "length (cn_jobs (run_step H i C)) = length (cn_jobs C)"
  by (simp_all add: run_step_def split: prod.splits)

definition waits_ok :: "('s, 'w) conc \<Rightarrow> bool" where
  "waits_ok C \<longleftrightarrow>
     (\<forall>i < length (cn_jobs C). \<forall>c j. cn_jobs C ! i = Waiting c j \<longrightarrow>
        j < length (cn_jobs C) \<and>
        (\<exists>c'. in_flight (cn_jobs C ! j) = Some c' \<and> ca_key c' = ca_key c))"

lemma after_fetch_cases:
  "(\<exists>fl. after_fetch H c res = Flown c fl) \<or> (\<exists>wr fl. after_fetch H c res = Write c wr fl)"
  by (auto simp: after_fetch_def split: prod.splits option.splits)

lemma after_fetch_flight: "in_flight (after_fetch H c res) = Some c \<or> (\<exists>fl. after_fetch H c res = Flown c fl)"
  using after_fetch_cases [of H c res] by auto

lemma step_in_flight:
  assumes "in_flight j = Some c" and "job_step H j s = (j', s')"
  shows "in_flight j' = Some c \<or> (\<exists>fl. j' = Flown c fl)"
proof -
  have fetched: "in_flight j' = Some c \<or> (\<exists>fl. j' = Flown c fl)" if "j' = after_fetch H c res" for res
    using that after_fetch_flight by blast
  show ?thesis
  proof (cases j)
    case (FetchRoute c' k)
    with assms fetched show ?thesis
      by (cases k) (auto simp: FetchRoute_Suc split: option.splits)
  next
    case (FetchSend c' k node)
    with assms fetched show ?thesis
      by (auto simp: Let_def split: prod.splits option.splits if_splits)
  qed (use assms in auto)
qed

lemma step_not_Waiting:
  assumes "runnable j" and "job_step H j s = (j', s')"
  shows "j' \<noteq> Waiting c k"
proof -
  have fetched: "after_fetch H c' res \<noteq> Waiting c k" for c' res
    using after_fetch_cases [of H c' res] by auto
  show ?thesis
  proof (cases "(H, j, s)" rule: job_step.cases)
    case (2 H' r start s')
    with assms show ?thesis by (auto simp: dispatch_def Let_def split: option.splits if_splits)
  qed (use assms fetched in \<open>auto simp: FetchRoute_Suc DirectRoute_Suc Let_def
      split: prod.splits option.splits if_splits\<close>)
qed

lemma wake_cases:
  obtains (same) "wake i x j = j" "\<And>c fl. x = Flown c fl \<Longrightarrow> \<forall>c'. j \<noteq> Waiting c' i"
  | (woken) c c' fl where "x = Flown c fl" "j = Waiting c' i" "wake i x j = Flown c' fl"
  by (cases x; cases j) (auto split: if_splits)

lemma in_flight_wake: "in_flight j = Some c \<Longrightarrow> wake i x j = j"
  by (rule wake_same) auto

lemma waits_ok_run:
  assumes "waits_ok C" and "i < length (cn_jobs C)" and "runnable (cn_jobs C ! i)"
  shows "waits_ok (run_step H i C)"
proof -
  obtain job s where step: "job_step H (cn_jobs C ! i) (cn_state C) = (job, s)" by fastforce
  note jobs = run_step_jobs [OF assms(2) _ step]
  show ?thesis
    unfolding waits_ok_def run_step_sel(2)
  proof (intro allI impI)
    fix k c j
    assume k: "k < length (cn_jobs C)" and new: "cn_jobs (run_step H i C) ! k = Waiting c j"
    then have "k \<noteq> i"
      using jobs [OF k] step_not_Waiting [OF assms(3) step] by auto
    with new jobs [OF k] have woke: "wake i job (cn_jobs C ! k) = Waiting c j" by simp
    then have old: "cn_jobs C ! k = Waiting c j \<and> (\<forall>c' fl. job = Flown c' fl \<longrightarrow> j \<noteq> i)"
    proof (cases rule: wake_cases [of i job "cn_jobs C ! k"])
      case same
      with woke show ?thesis by auto
    next
      case (woken c1 c2 fl)
      with woke show ?thesis by simp
    qed
    from assms(1) k old obtain c' where j: "j < length (cn_jobs C)"
        and c': "in_flight (cn_jobs C ! j) = Some c'" "ca_key c' = ca_key c"
      unfolding waits_ok_def by blast
    have "in_flight (cn_jobs (run_step H i C) ! j) = Some c'"
    proof (cases "j = i")
      case True
      with c'(1) step_in_flight [OF _ step, of c'] old jobs [OF j] show ?thesis by auto
    next
      case False
      with jobs [OF j] c'(1) in_flight_wake [OF c'(1)] show ?thesis by simp
    qed
    with j c' show "j < length (cn_jobs C) \<and>
        (\<exists>c'. in_flight (cn_jobs (run_step H i C) ! j) = Some c' \<and> ca_key c' = ca_key c)"
      by blast
  qed
qed

text \<open>What a \<open>Join\<close> does, when it is possible.\<close>

lemma act_JoinE:
  assumes "act H bg (Join i j) C = Some C'"
  obtains c c' where "i < length (cn_jobs C)" "j < length (cn_jobs C)" "cn_jobs C ! i = AtGroup c"
    "in_flight (cn_jobs C ! j) = Some c'" "ca_key c' = ca_key c"
    "C' = C\<lparr>cn_jobs := (cn_jobs C)[i := Waiting c j]\<rparr>"
  using assms by (auto split: if_splits job.splits option.splits)

lemma waits_ok_act:
  assumes "waits_ok C" and "act H bg a C = Some C'"
  shows "waits_ok C'"
proof (cases a)
  case (Arrive r)
  with assms show ?thesis
    unfolding waits_ok_def by (auto simp: nth_append less_Suc_eq)
next
  case (Run i)
  with assms waits_ok_run show ?thesis by (auto split: if_splits)
next
  case (Join i j)
  with assms(2) have "act H bg (Join i j) C = Some C'" by simp
  then show ?thesis
  proof (cases rule: act_JoinE)
    case (1 c c')
    have "in_flight (cn_jobs C' ! k) = in_flight (cn_jobs C ! k)" if "k < length (cn_jobs C)" for k
      using 1 that by (auto simp: nth_list_update)
    with 1 assms(1) show ?thesis
      unfolding waits_ok_def by (simp add: nth_list_update)
  qed
qed (use assms in \<open>auto simp: waits_ok_def split: if_splits\<close>)

section \<open>Every request is served\<close>

text \<open>How many steps a request has before it at most, with \<open>n\<close> nodes.\<close>

fun job_left :: "nat \<Rightarrow> job \<Rightarrow> nat" where
  "job_left n (Arrived r) = 2 * n + 9"
| "job_left n (Started r start) = 2 * n + 8"
| "job_left n (NegLookup c) = 2 * n + 7"
| "job_left n (Lookup c) = 2 * n + 6"
| "job_left n (AtGroup c) = 2 * n + 5"
| "job_left n (Waiting c j) = 3"
| "job_left n (FetchRoute c k) = 2 * k + 4"
| "job_left n (FetchSend c k node) = 2 * k + 5"
| "job_left n (Write c wr fl) = 3"
| "job_left n (Flown c fl) = 2"
| "job_left n (DirectRoute c k) = 2 * k + 2"
| "job_left n (DirectSend c k node) = 2 * k + 3"
| "job_left n (Replying c resp status) = 1"
| "job_left n (Served c resp status) = 0"

definition steps_pending :: "('s, 'w) conc \<Rightarrow> nat" where
  "steps_pending C = sum_list (map (job_left (length (p_nodes (hs_pool (cn_state C))))) (cn_jobs C))"

lemma job_left_after_fetch: "job_left n (after_fetch H c res) \<le> 3"
  using after_fetch_cases [of H c res] by auto

lemma job_step_pool:
  "length (p_nodes (hs_pool (snd (job_step H j s)))) = length (p_nodes (hs_pool s))"
  by (cases "(H, j, s)" rule: job_step.cases)
    (auto simp: FetchRoute_Suc DirectRoute_Suc send_to_def cache_Get_def note_lookup_def Let_def
      split: prod.splits option.splits)

lemma job_left_step:
  assumes "runnable j"
  shows "job_left (length (p_nodes (hs_pool s))) (fst (job_step H j s)) <
         job_left (length (p_nodes (hs_pool s))) j"
proof -
  have fetched: "job_left n (after_fetch H c res) < m" if "4 \<le> m" for n c res m
    using job_left_after_fetch [of n H c res] that by linarith
  show ?thesis
    by (cases "(H, j, s)" rule: job_step.cases)
      (use assms fetched in \<open>auto simp: FetchRoute_Suc DirectRoute_Suc dispatch_def send_to_def Let_def
        split: prod.splits option.splits\<close>)
qed

lemma job_left_wake: "job_left n (wake i x j) \<le> job_left n j"
  by (cases rule: wake_cases [of i x j]) auto

lemma sum_list_less:
  fixes xs ys :: "nat list"
  assumes "length xs = length ys" and "\<And>k. k < length ys \<Longrightarrow> xs ! k \<le> ys ! k"
    and "i < length ys" and "xs ! i < ys ! i"
  shows "sum_list xs < sum_list ys"
  using assms by (auto simp: sum_list_sum_nth intro!: sum_strict_mono_ex1)

lemma pending_run:
  assumes "i < length (cn_jobs C)" and "runnable (cn_jobs C ! i)"
  shows "steps_pending (run_step H i C) < steps_pending C"
proof -
  obtain job s where step: "job_step H (cn_jobs C ! i) (cn_state C) = (job, s)" by fastforce
  let ?n = "length (p_nodes (hs_pool (cn_state C)))"
  have n: "length (p_nodes (hs_pool (cn_state (run_step H i C)))) = ?n"
    using job_step_pool by (simp add: run_step_sel)
  have less: "job_left ?n job < job_left ?n (cn_jobs C ! i)"
    using job_left_step [OF assms(2), of "cn_state C" H] step by simp
  show ?thesis
    unfolding steps_pending_def n
  proof (rule sum_list_less [where i = i])
    fix k
    assume "k < length (map (job_left ?n) (cn_jobs C))"
    with less job_left_wake [of ?n i job] run_step_jobs [OF assms(1) _ step]
    show "map (job_left ?n) (cn_jobs (run_step H i C)) ! k \<le> map (job_left ?n) (cn_jobs C) ! k"
      by (auto simp: run_step_sel(2))
  qed (use assms(1) less run_step_jobs [OF assms(1) _ step] in \<open>simp_all add: run_step_sel(2)\<close>)
qed

lemma pending_join:
  assumes "act H bg (Join i j) C = Some C'"
  shows "steps_pending C' < steps_pending C"
  using assms
proof (cases rule: act_JoinE)
  case (1 c c')
  then show ?thesis
    unfolding steps_pending_def
    by (intro sum_list_less [where i = i]) (auto simp: nth_list_update)
qed

fun is_served :: "job \<Rightarrow> bool" where
  "is_served (Served c resp status) = True"
| "is_served _ = False"

text \<open>The actions that are steps of a request.\<close>

fun own_step :: "('s, 'w) action \<Rightarrow> bool" where
  "own_step (Run i) = True"
| "own_step (Join i j) = True"
| "own_step _ = False"

lemma conc_progress:
  assumes "waits_ok C" and "j \<in> set (cn_jobs C)" and "\<not> is_served j"
  shows "\<exists>i < length (cn_jobs C). runnable (cn_jobs C ! i)"
proof -
  from assms(2) obtain k where k: "k < length (cn_jobs C)" "cn_jobs C ! k = j"
    by (auto simp: in_set_conv_nth)
  show ?thesis
  proof (cases "runnable j")
    case True
    with k show ?thesis by blast
  next
    case False
    with assms(3) obtain c l where "j = Waiting c l" by (cases j) auto
    with assms(1) k obtain c' where "l < length (cn_jobs C)" "in_flight (cn_jobs C ! l) = Some c'"
      unfolding waits_ok_def by blast
    then show ?thesis by (cases "cn_jobs C ! l") force+
  qed
qed

lemma acts_append: "acts H bg (as @ bs) C = (case acts H bg as C of None \<Rightarrow> None | Some C' \<Rightarrow> acts H bg bs C')"
  by (induction as arbitrary: C) (auto split: option.splits)

lemma can_finish:
  assumes "waits_ok C"
  shows "\<exists>ks C'. acts H bg (map Run ks) C = Some C' \<and> (\<forall>j \<in> set (cn_jobs C'). is_served j) \<and>
           length (cn_jobs C') = length (cn_jobs C)"
  using assms
proof (induction "steps_pending C" arbitrary: C rule: less_induct)
  case less
  show ?case
  proof (cases "\<forall>j \<in> set (cn_jobs C). is_served j")
    case True
    then show ?thesis by (intro exI [of _ "[]"]) simp
  next
    case False
    with conc_progress [OF less.prems] obtain i
      where i: "i < length (cn_jobs C)" "runnable (cn_jobs C ! i)" by blast
    from less.hyps [OF pending_run [OF i, of H] waits_ok_run [OF less.prems i]]
    obtain ks C' where "acts H bg (map Run ks) (run_step H i C) = Some C'"
        "\<forall>j \<in> set (cn_jobs C'). is_served j" "length (cn_jobs C') = length (cn_jobs C)"
      by (auto simp: run_step_sel(2))
    with i show ?thesis by (intro exI [of _ "i # ks"] exI [of _ C']) simp
  qed
qed

abbreviation nodes_no :: "('s, 'w) conc \<Rightarrow> nat" where
  "nodes_no C \<equiv> length (p_nodes (hs_pool (cn_state C)))"

lemma act_budget:
  assumes "act H bg a C = Some C'"
  shows "nodes_no C' = nodes_no C \<and>
         (if own_step a then 1 else 0) + steps_pending C' + (2 * nodes_no C + 9) * length (cn_jobs C) \<le>
           steps_pending C + (2 * nodes_no C + 9) * length (cn_jobs C')"
proof (cases a)
  case (Run i)
  with assms pending_run [of i C H] job_step_pool show ?thesis
    by (auto simp: run_step_sel split: if_splits)
next
  case (Join i j)
  with assms have join: "act H bg (Join i j) C = Some C'" by simp
  from act_JoinE [OF this] have "cn_state C' = cn_state C" "length (cn_jobs C') = length (cn_jobs C)"
    by (metis conc.simps(1,2,4,5) conc.surjective conc.update_convs(2) length_list_update)+
  with Join pending_join [OF join] show ?thesis by simp
qed (use assms in \<open>auto simp: steps_pending_def split: if_splits\<close>)

lemma acts_budget:
  assumes "acts H bg as C = Some C'"
  shows "nodes_no C' = nodes_no C \<and>
         length (filter own_step as) + steps_pending C' + (2 * nodes_no C + 9) * length (cn_jobs C) \<le>
           steps_pending C + (2 * nodes_no C + 9) * length (cn_jobs C')"
  using assms
proof (induction as arbitrary: C)
  case Nil
  then show ?case by simp
next
  case (Cons a as)
  then obtain D where D: "act H bg a C = Some D" "acts H bg as D = Some C'"
    by (auto split: option.splits)
  from act_budget [OF D(1)] Cons.IH [OF D(2)] show ?case by (auto split: if_splits)
qed

text \<open>
  Property C8.  However requests are interleaved and coalesced, none is starved by the code itself:
  all the steps made on behalf of requests together are at most twice the number of nodes and nine for
  every request that has arrived; while some request is not served, some request can make a step (the
  callers that wait for a flight never wait for each other); and from every reachable configuration
  the scheduler can have all of them served.
\<close>

theorem requests_terminate:
  assumes "acts H bg as (conc_start s0) = Some C"
  shows "length (filter own_step as) \<le> (2 * length (p_nodes (hs_pool s0)) + 9) * length (cn_jobs C) \<and>
         ((\<forall>j \<in> set (cn_jobs C). is_served j) \<or> (\<exists>i < length (cn_jobs C). runnable (cn_jobs C ! i))) \<and>
         (\<exists>ks C'. acts H bg (as @ map Run ks) (conc_start s0) = Some C' \<and>
            length (cn_jobs C') = length (cn_jobs C) \<and> (\<forall>j \<in> set (cn_jobs C'). is_served j))"
proof -
  have "waits_ok (conc_start s0)"
    by (simp add: conc_start_def waits_ok_def)
  then have ok: "waits_ok C"
    by (rule acts_invariant [where I = waits_ok, OF assms]) (rule waits_ok_act)
  have "length (filter own_step as) \<le> (2 * length (p_nodes (hs_pool s0)) + 9) * length (cn_jobs C)"
    using acts_budget [OF assms] by (simp add: conc_start_def steps_pending_def)
  moreover have "(\<forall>j \<in> set (cn_jobs C). is_served j) \<or> (\<exists>i < length (cn_jobs C). runnable (cn_jobs C ! i))"
    using conc_progress [OF ok] by blast
  moreover have "acts H bg (as @ bs) (conc_start s0) = acts H bg bs C" for bs
    using assms by (simp add: acts_append)
  ultimately show ?thesis
    using can_finish [OF ok, of H bg] by metis
qed

text \<open>
  Two callers with ids 1 and 7 ask for the gas price: the second finds the flight of the first and is
  woken by it.
\<close>

definition gas_schedule :: "('s, unit) action list" where
  "gas_schedule =
     [Arrive (demo_request (gas_body ''1'')), Arrive (demo_request (gas_body ''7''))] @
     replicate 5 (Run 0) @ replicate 4 (Run 1) @ [Join 1 0] @
     replicate 3 (Run 0) @ replicate 2 (Run 1) @ replicate 2 (Run 0)"

definition gas_end :: "(Cache, unit) conc option" where
  "gas_end = acts (gas_proxy gas_reply) (\<lambda>_ _ _. False) gas_schedule (conc_start gas_start)"

fun served_as :: "job \<Rightarrow> (bytes \<times> bytes \<times> string) option" where
  "served_as (Served c (Some resp) status) = Some (cq_Body (ca_r c), rp_body resp, status)"
| "served_as _ = None"

lemma gas_end_served:
  "map_option (\<lambda>C. map served_as (cn_jobs C)) gas_end =
     Some [Some (gas_body ''1'', ''{\"jsonrpc\":\"2.0\",\"result\":\"0x3b\",\"id\":1}'', ''ok''),
           Some (gas_body ''7'', ''{\"jsonrpc\":\"2.0\",\"result\":\"0x3b\",\"id\":7}'', ''ok'')]"
  by code_simp

lemma served_as_Some:
  "served_as j = Some (body, out, status) \<longleftrightarrow>
     (\<exists>c resp. j = Served c (Some resp) status \<and> cq_Body (ca_r c) = body \<and> rp_body resp = out)"
  by (cases j rule: served_as.cases) auto

theorem requests_terminate_witness:
  "\<exists>C. gas_end = Some C \<and> length (filter own_step (gas_schedule :: (Cache, unit) action list)) \<le> 11 * length (cn_jobs C)"
proof -
  obtain C where C: "gas_end = Some C" using gas_end_served by (cases gas_end) simp_all
  with requests_terminate [of "gas_proxy gas_reply" "\<lambda>_ _ _. False" gas_schedule gas_start C] show ?thesis
    by (auto simp: gas_end_def gas_start_def demo_state_def)
qed

section \<open>Retries that interleave\<close>

text \<open>A pool of two healthy nodes, of which \<open>down\<close> refuses every connection and \<open>up\<close> answers.\<close>

definition half_proxy :: "(Cache, unit) Handler" where
  "half_proxy =
     \<lparr>h_cache = cache_Store, h_mutableTTL = 12 * Second,
      h_net = \<lparr>nt_send = (\<lambda>w q. (if cq_Host q = ''down'' then RoundTripError else gas_reply, w)),
               nt_now = (\<lambda>_. 0)\<rparr>\<rparr>"

definition node_at :: "string \<Rightarrow> Upstream" where
  "node_at host = (demo_node True 1 0)\<lparr>n_URL := empty_URL\<lparr>u_Scheme := ''http'', u_Host := host\<rparr>\<rparr>"

definition half_start :: "(Cache, unit) hstate" where
  "half_start = gas_start\<lparr>hs_pool := \<lparr>p_nodes = [node_at ''down'', node_at ''up''], p_counter = 0\<rparr>\<rparr>"

text \<open>
  The first request asks \<open>down\<close>; a batch takes its turn at the pool; the first request asks again, is
  given \<open>down\<close> once more and gives up.  Then the batch is sent to \<open>up\<close>, and a third client asks what the
  first did.
\<close>

definition half_schedule :: "(Cache, unit) action list" where
  "half_schedule =
     [Arrive (demo_request (gas_body ''1'')), Arrive (demo_request ''[]'')] @
     replicate 7 (Run 0) @ replicate 3 (Run 1) @ replicate 6 (Run 0) @ replicate 2 (Run 1) @
     [Arrive (demo_request (gas_body ''2''))] @ replicate 4 (Run 2)"

fun reply_of :: "job \<Rightarrow> (int \<times> string) option" where
  "reply_of (Served c (Some resp) status) = Some (rp_status resp, status)"
| "reply_of _ = None"


end
