(* ===== verification/ProxyAnswers.thy ===== *)
theory ProxyAnswers
  imports ProxyConcurrent Redis "HOL-Library.Multiset"
begin

text \<open>
  What clients whose requests are served at the same time are sent, and how they are counted.  The
  invariant of \<open>ProxyCache\<close> is carried over to the processes of \<open>ProxyConcurrent\<close>: once for every
  store that keeps the \<open>written_store\<close> contract, then for the in-memory cache and for Redis.
\<close>

section \<open>Every answer is a node's answer to the same question\<close>

text \<open>What the client behind \<open>c\<close> may be sent with each status.\<close>

definition answer_ok :: "'w Net \<Rightarrow> client_req \<Rightarrow> response \<Rightarrow> string \<Rightarrow> bool" where
  "answer_ok N r resp status \<longleftrightarrow>
     (if status = ''cache_hit'' \<or> status = ''ok'' then
        \<exists>body req body' b. read_body r = Some body \<and> Unmarshal_RPCRequest body = Some req \<and>
          request_for body' (rq_Method req) (CacheKey (rq_Method req) (rq_Params req)) \<and>
          answers N body' b \<and> render (rq_ID req) b = Some (rp_body resp) \<and> rp_status resp = 200
      else if status = ''uncacheable'' then
        \<exists>w q. read_body r = Some (cq_Body q) \<and> ok_status (rp_status resp) \<and>
          fst (nt_send N w q) = Reply (rp_status resp) (rp_header resp) (rp_body resp)
      else 400 \<le> rp_status resp)"

definition cacheable_call :: "call \<Rightarrow> bool" where
  "cacheable_call c \<longleftrightarrow>
     read_body (ca_r c) = Some (ca_body c) \<and> Unmarshal_RPCRequest (ca_body c) = Some (ca_req c) \<and>
     request_for (ca_body c) (rq_Method (ca_req c)) (ca_key c)"

definition flown_ok :: "'w Net \<Rightarrow> string \<Rightarrow> flown \<Rightarrow> bool" where
  "flown_ok N key fl \<longleftrightarrow>
     (\<forall>i resp. finish i fl = (Some resp, ''ok'') \<longrightarrow>
        (\<exists>body m b. request_for body m key \<and> answers N body b \<and>
           render i b = Some (rp_body resp) \<and> rp_status resp = 200))"

fun job_ok :: "'w Net \<Rightarrow> job \<Rightarrow> bool" where
  "job_ok N (Arrived r) = True"
| "job_ok N (Started r start) = True"
| "job_ok N (NegLookup c) = cacheable_call c"
| "job_ok N (Lookup c) = cacheable_call c"
| "job_ok N (AtGroup c) = cacheable_call c"
| "job_ok N (Waiting c j) = cacheable_call c"
| "job_ok N (FetchRoute c k) = cacheable_call c"
| "job_ok N (FetchSend c k node) = cacheable_call c"
| "job_ok N (Write c wr fl) =
     (cacheable_call c \<and> genuine N (fst wr) (fst (snd wr)) \<and> flown_ok N (ca_key c) fl)"
| "job_ok N (Flown c fl) = (cacheable_call c \<and> flown_ok N (ca_key c) fl)"
| "job_ok N (DirectRoute c k) = (read_body (ca_r c) = Some (ca_body c))"
| "job_ok N (DirectSend c k node) = (read_body (ca_r c) = Some (ca_body c))"
| "job_ok N (Replying c resp status) = (\<forall>rs. resp = Some rs \<longrightarrow> answer_ok N (ca_r c) rs status)"
| "job_ok N (Served c resp status) = (\<forall>rs. resp = Some rs \<longrightarrow> answer_ok N (ca_r c) rs status)"

lemma send_answers:
  assumes "send_to H node r body s = (Some b, s')" and "ok_status (bf_status b)"
  shows "fst (nt_send (h_net H) (hs_world s) (outReq node r body)) =
           Reply (bf_status b) (bf_header b) (bf_body b)"
    and "answers (h_net H) body (bf_body b)"
proof -
  show reply: "fst (nt_send (h_net H) (hs_world s) (outReq node r body)) =
      Reply (bf_status b) (bf_header b) (bf_body b)"
    using assms send_to_buf [of H node r body s] reverse_proxy_ok [OF _ assms(2)] by simp
  then show "answers (h_net H) body (bf_body b)"
    unfolding answers_def using assms(2) cq_Body_outReq by blast
qed

lemma after_fetch_ok:
  assumes "cacheable_call c" and "\<And>b. res = FetchBody b \<Longrightarrow> answers (h_net H) (ca_body c) b"
  shows "job_ok (h_net H) (after_fetch H c res)"
proof -
  obtain fl wr where o: "outcome H (ca_layer c) (ca_key c) res = (fl, wr)" by fastforce
  have req: "request_for (ca_body c) (rq_Method (ca_req c)) (ca_key c)"
    using assms(1) by (simp add: cacheable_call_def)
  have "flown_ok (h_net H) (ca_key c) fl"
    unfolding flown_ok_def
  proof (intro allI impI)
    fix i resp
    assume "finish i fl = (Some resp, ''ok'')"
    with o have "finish i (fst (outcome H (ca_layer c) (ca_key c) res)) = (Some resp, ''ok'')" by simp
    then obtain b where "res = FetchBody b" "render i b = Some (rp_body resp)"
        "resp = json_response (rp_body resp)"
      by (rule finish_outcome)
    moreover from this(3) have "rp_status resp = 200"
      by (metis json_response_def response.select_convs(1))
    ultimately show "\<exists>body m b. request_for body m (ca_key c) \<and> answers (h_net H) body b \<and>
        render i b = Some (rp_body resp) \<and> rp_status resp = 200"
      using req assms(2) by blast
  qed
  moreover have "genuine (h_net H) k v" if "wr = Some (k, v, ttl)" for k v ttl
  proof (cases res)
    case (FetchBody b)
    with o that obtain parsed where "k = ca_key c" "Unmarshal_RPCResponse b = Some parsed"
        "rs_Error parsed = None" "v = rs_Result parsed" "v \<noteq> []"
      by (auto simp: outcome_def split: option.splits if_splits)
    with assms(2) [OF FetchBody] have "gave_result (h_net H) (ca_body c) v"
      unfolding gave_result_def by blast
    with req \<open>k = ca_key c\<close> show ?thesis unfolding genuine_def by blast
  qed (use o that in \<open>auto simp: outcome_def genuine_def\<close>)
  ultimately show ?thesis
    using assms(1) by (auto simp: after_fetch_def o split: option.splits)
qed

lemma dispatch_ok: "job_ok N (dispatch s r start)"
proof (cases "read_body r")
  case None
  then show ?thesis by (simp add: dispatch_def new_call_def answer_ok_def http_Error_def Let_def)
next
  case (Some body)
  show ?thesis
  proof (cases "Unmarshal_RPCRequest body")
    case None
    with Some show ?thesis
      by (simp add: dispatch_def new_call_def answer_ok_def http_Error_def Let_def)
  next
    case req: (Some req)
    have "request_for body (rq_Method req) (CacheKey (rq_Method req) (rq_Params req))"
      if "fc_Classify (hs_finality s) (rq_Method req) (rq_Params req) \<noteq> LayerUncacheable"
      using fc_Classify_cacheable that req by (simp add: request_for_def)
    with Some req show ?thesis
      by (simp add: dispatch_def new_call_def cacheable_call_def ca_key_def Let_def)
  qed
qed

lemma own_answer:
  assumes "cacheable_call c" and "request_for body m (ca_key c)" and "answers N body b"
    and "render (rq_ID (ca_req c)) b = Some (rp_body resp)" and "rp_status resp = 200"
    and "status = ''cache_hit'' \<or> status = ''ok''"
  shows "answer_ok N (ca_r c) resp status"
proof -
  have "request_for (ca_body c) (rq_Method (ca_req c)) (ca_key c)"
    using assms(1) by (simp add: cacheable_call_def)
  from request_for_method [OF this assms(2)] have "m = rq_Method (ca_req c)" .
  with assms show ?thesis
    unfolding answer_ok_def cacheable_call_def ca_key_def
    by simp blast
qed

lemma hit_answer_ok:
  assumes "cacheable_call c" and "genuine N (ca_key c) v"
    and "buildResultEnvelope (rq_ID (ca_req c)) v = Some envelope"
  shows "answer_ok N (ca_r c) (json_response envelope) ''cache_hit''"
proof -
  have req: "request_for (ca_body c) (rq_Method (ca_req c)) (ca_key c)"
    using assms(1) by (simp add: cacheable_call_def)
  then obtain body m b parsed where b: "request_for body m (ca_key c)" "answers N body b"
      "Unmarshal_RPCResponse b = Some parsed" "rs_Error parsed = None" "rs_Result parsed = v" "v \<noteq> []"
    using assms(2) neg_key_not_request [OF req] by (auto simp: genuine_def gave_result_def)
  then have "render (rq_ID (ca_req c)) b = Some envelope"
    using assms(3) by (simp add: render_def)
  with own_answer [OF assms(1) b(1,2)] show ?thesis
    by (simp add: json_response_def)
qed

lemma finish_not_ok:
  assumes "finish i fl = (Some resp, status)" and "status \<noteq> ''ok''"
  shows "(status = ''rate_limited'' \<or> status = ''error'') \<and> 400 \<le> rp_status resp"
proof (cases fl)
  case (FlightOk ret)
  with assms show ?thesis
    by (simp add: finish_def internal_error_def split: if_splits option.splits) (auto simp: http_Error_def)
qed (use assms in \<open>auto simp: finish_def http_Error_def\<close>)

lemma flown_answer_ok:
  assumes "cacheable_call c" and "flown_ok N (ca_key c) fl"
    and "finish (rq_ID (ca_req c)) fl = (Some resp, status)"
  shows "answer_ok N (ca_r c) resp status"
proof (cases "status = ''ok''")
  case True
  from True assms(2,3) obtain body m b where "request_for body m (ca_key c)" "answers N body b"
      "render (rq_ID (ca_req c)) b = Some (rp_body resp)" "rp_status resp = 200"
    unfolding flown_ok_def by blast
  with True own_answer [OF assms(1)] show ?thesis by blast
next
  case False
  with finish_not_ok [OF assms(3)] show ?thesis by (auto simp: answer_ok_def)
qed

lemma fetch_send_ok:
  assumes "cacheable_call c"
  shows "job_ok (h_net H) (fst (job_step H (FetchSend c k node) s))"
proof -
  obtain buf s' where send: "send_to H node (ca_r c) (ca_body c) s = (buf, s')" by fastforce
  have "job_ok (h_net H) (after_fetch H c res)" if "\<And>b. res \<noteq> FetchBody b" for res
    using after_fetch_ok [OF assms] that by blast
  moreover have "job_ok (h_net H) (after_fetch H c (FetchBody (bf_body b)))"
    if "buf = Some b" "\<not> (bf_status b < 200 \<or> 300 \<le> bf_status b)" for b
    using after_fetch_ok [OF assms] send_answers(2) [of H node "ca_r c" "ca_body c" s b s'] send that by force
  ultimately show ?thesis
    using assms by (simp add: send split: option.split)
qed

lemma direct_send_ok:
  assumes "read_body (ca_r c) = Some (ca_body c)"
  shows "job_ok (h_net H) (fst (job_step H (DirectSend c k node) s))"
proof -
  obtain buf s' where send: "send_to H node (ca_r c) (ca_body c) s = (buf, s')" by fastforce
  have "answer_ok (h_net H) (ca_r c)
      \<lparr>rp_status = bf_status b, rp_header = bf_header b, rp_body = bf_body b\<rparr> ''uncacheable''"
    if "buf = Some b" "\<not> (bf_status b < 200 \<or> 300 \<le> bf_status b)" for b
  proof -
    have "fst (nt_send (h_net H) (hs_world s) (outReq node (ca_r c) (ca_body c))) =
        Reply (bf_status b) (bf_header b) (bf_body b)"
      using send_answers(1) [of H node "ca_r c" "ca_body c" s b s'] send that by simp
    moreover have "read_body (ca_r c) = Some (cq_Body (outReq node (ca_r c) (ca_body c)))"
      using assms by simp
    ultimately show ?thesis
      using that(2) unfolding answer_ok_def
      by (auto intro!: exI [of _ "hs_world s"] exI [of _ "outReq node (ca_r c) (ca_body c)"])
  qed
  with assms show ?thesis
    by (simp add: send split: option.split)
qed

text \<open>What a step of any other kind makes of a request that is all right.\<close>

lemma job_step_ok:
  assumes "job_ok (h_net H) j"
    and "\<And>c v. j = Lookup c \<Longrightarrow> fst (cache_Get H (ca_key c) s) = Some v \<Longrightarrow> genuine (h_net H) (ca_key c) v"
  shows "job_ok (h_net H) (fst (job_step H j s))"
proof (cases j)
  case (NegLookup c)
  with assms(1) show ?thesis
    by (auto simp: answer_ok_def http_Error_def split: prod.split option.split)
next
  case (Lookup c)
  obtain hit s' where get: "cache_Get H (ca_key c) s = (hit, s')" by fastforce
  show ?thesis
  proof (cases hit)
    case None
    with Lookup get assms(1) show ?thesis by simp
  next
    case (Some v)
    with Lookup get assms hit_answer_ok [of c "h_net H" v] show ?thesis
      by (cases "buildResultEnvelope (rq_ID (ca_req c)) v") (simp_all add: answer_ok_def http_Error_def)
  qed
next
  case (FetchRoute c k)
  with assms(1) after_fetch_ok [of c FetchNone H] show ?thesis
    by (cases k) (auto simp: FetchRoute_Suc split: option.splits)
next
  case (Write c wr fl)
  with assms(1) show ?thesis by (cases wr) simp
next
  case (Flown c fl)
  obtain resp status where "finish (rq_ID (ca_req c)) fl = (resp, status)" by fastforce
  with Flown assms(1) flown_answer_ok [of c "h_net H" fl] show ?thesis by auto
next
  case (DirectRoute c k)
  with assms(1) show ?thesis
    by (cases k) (auto simp: DirectRoute_Suc answer_ok_def http_Error_def split: option.splits)
qed (use assms dispatch_ok fetch_send_ok direct_send_ok in \<open>simp_all add: Let_def\<close>)

lemma job_ok_wake: "job_ok N j \<Longrightarrow> (\<And>c c' fl. x = Flown c fl \<Longrightarrow> j = Waiting c' i \<Longrightarrow>
    flown_ok N (ca_key c') fl) \<Longrightarrow> job_ok N (wake i x j)"
  by (cases rule: wake_cases [of i x j]) auto

context written_store
begin

lemma genuine_job_step:
  assumes "h_cache H = store" and "clock_mono (h_net H)"
    and "wf (hs_store s)" and "entries_genuine view H (hs_store s) (now H s)"
    and "job_ok (h_net H) j" and "job_step H j s = (j', s')"
  shows "wf (hs_store s') \<and> entries_genuine view H (hs_store s') (now H s')"
proof -
  have sent: "?thesis" if "send_to H node r body s = (buf, s')" for node r body buf
  proof -
    have "now H s \<le> now H s'" and "hs_store s' = hs_store s"
      using that assms(2) by (auto simp: send_to_def now_def clock_mono_def split: prod.splits) (metis snd_conv)
    with assms(3,4) entries_genuine_later show ?thesis by simp
  qed
  have got: "?thesis" if "hs_store s' = hs_store (snd (cache_Get H k s))" "now H s' = now H s" for k
    using genuine_lookups [OF assms(1,3,4) refl, of k] that by (simp add: cache_Get_sel)
  show ?thesis
  proof (cases "(H, j, s)" rule: job_step.cases)
    case (3 H' c s)
    with assms(6) got [of "neg_key (ca_key c)"] show ?thesis
      by (auto simp: cache_Get_def split: prod.splits option.splits)
  next
    case (4 H' c s)
    with assms(6) got [of "ca_key c"] show ?thesis
      by (auto simp: cache_Get_def split: prod.splits option.splits)
  next
    case (10 H' c k v ttl fl s)
    with assms genuine_set [OF assms(3,4)] show ?thesis by auto
  qed (use assms sent in \<open>auto simp: FetchRoute_Suc DirectRoute_Suc Let_def
      split: prod.splits option.splits\<close>)
qed

definition conc_ok :: "('s, 'w) Handler \<Rightarrow> ('s, 'w) conc \<Rightarrow> bool" where
  "conc_ok H C \<longleftrightarrow>
     wf (hs_store (cn_state C)) \<and> entries_genuine view H (hs_store (cn_state C)) (now H (cn_state C)) \<and>
     waits_ok C \<and> (\<forall>j \<in> set (cn_jobs C). job_ok (h_net H) j)"

lemma conc_ok_run:
  assumes "h_cache H = store" and "clock_mono (h_net H)" and "conc_ok H C"
    and "i < length (cn_jobs C)" and "runnable (cn_jobs C ! i)"
  shows "conc_ok H (run_step H i C)"
proof -
  let ?s = "cn_state C"
  obtain job s where step: "job_step H (cn_jobs C ! i) ?s = (job, s)" by fastforce
  from assms(3) have ok: "wf (hs_store ?s)" "entries_genuine view H (hs_store ?s) (now H ?s)" "waits_ok C"
    and jobs: "\<And>k. k < length (cn_jobs C) \<Longrightarrow> job_ok (h_net H) (cn_jobs C ! k)"
    by (simp_all add: conc_ok_def)
  have "genuine (h_net H) k v" if "fst (cache_Get H k ?s) = Some v" for k v
    using that assms(1) get_sound [OF ok(1)] ok(2) by (auto simp: cache_Get_sel entries_genuine_def)
  with job_step_ok [OF jobs [OF assms(4)], of ?s] step have job: "job_ok (h_net H) job" by auto
  have "job_ok (h_net H) (cn_jobs (run_step H i C) ! k)" if k: "k < length (cn_jobs C)" for k
  proof (cases "k = i")
    case True
    with job run_step_jobs [OF assms(4) k step] show ?thesis by simp
  next
    case False
    have "flown_ok (h_net H) (ca_key c') fl" if "job = Flown c fl" "cn_jobs C ! k = Waiting c' i" for c c' fl
    proof -
      from ok(3) k that(2) obtain d where "in_flight (cn_jobs C ! i) = Some d" "ca_key d = ca_key c'"
        unfolding waits_ok_def by blast
      moreover from step_in_flight [OF this(1) step] that(1) have "c = d" by auto
      ultimately show ?thesis using job that(1) by simp
    qed
    with job_ok_wake [OF jobs [OF k], of job i] False run_step_jobs [OF assms(4) k step]
    show ?thesis by auto
  qed
  then have "\<forall>j \<in> set (cn_jobs (run_step H i C)). job_ok (h_net H) j"
    by (auto simp: in_set_conv_nth run_step_sel(2))
  with genuine_job_step [OF assms(1,2) ok(1,2) jobs [OF assms(4)] step] waits_ok_run [OF ok(3) assms(4,5)]
  show ?thesis
    using step by (simp add: conc_ok_def run_step_sel(1))
qed

lemma conc_ok_act:
  assumes "h_cache H = store" and "clock_mono (h_net H)"
    and bg: "\<And>st t st'. wf st \<Longrightarrow> bg st t st' \<Longrightarrow> wf st' \<and> shrinks view t st st'"
    and "conc_ok H C" and "act H bg a C = Some C'"
  shows "conc_ok H C'"
proof -
  from assms(4) have ok: "wf (hs_store (cn_state C))"
      "entries_genuine view H (hs_store (cn_state C)) (now H (cn_state C))"
      "\<forall>j \<in> set (cn_jobs C). job_ok (h_net H) j"
    by (simp_all add: conc_ok_def)
  have waits: "waits_ok C'"
    using waits_ok_act [OF _ assms(5)] assms(4) by (simp add: conc_ok_def)
  show ?thesis
  proof (cases a)
    case (Run i)
    with assms conc_ok_run show ?thesis by (auto split: if_splits)
  next
    case (Join i j)
    with assms(5) have "act H bg (Join i j) C = Some C'" by simp
    then show ?thesis
    proof (cases rule: act_JoinE)
      case (1 c c')
      then have "cacheable_call c" using ok(3) nth_mem [of i "cn_jobs C"] by fastforce
      with 1(6) ok waits show ?thesis
        using set_update_subset_insert [of "cn_jobs C" i "Waiting c j"] by (auto simp: conc_ok_def)
    qed
  next
    case (Passes w)
    with assms(5) ok waits entries_genuine_later [OF ok(2)] show ?thesis
      by (auto simp: conc_ok_def split: if_splits)
  next
    case (Cleans st)
    with assms(5) ok waits bg [OF ok(1), of "now H (cn_state C)" st] entries_genuine_shrinks [OF ok(2), of st]
    show ?thesis by (auto simp: conc_ok_def split: if_splits)
  qed (use assms(5) ok waits in \<open>auto simp: conc_ok_def now_def split: if_splits\<close>)
qed

lemma conc_reach_ok:
  assumes "h_cache H = store" and "clock_mono (h_net H)"
    and "wf (hs_store s0)" and "\<And>t. view (hs_store s0) t = (\<lambda>_. None)"
    and "\<And>st t st'. wf st \<Longrightarrow> bg st t st' \<Longrightarrow> wf st' \<and> shrinks view t st st'"
    and "acts H bg as (conc_start s0) = Some C"
  shows "conc_ok H C"
proof -
  have "conc_ok H (conc_start s0)"
    using assms(3,4) by (simp add: conc_ok_def conc_start_def waits_ok_def entries_genuine_def)
  then show ?thesis
    by (rule acts_invariant [where I = "conc_ok H", OF assms(6)])
      (rule conc_ok_act [OF assms(1,2,5)])
qed

lemma conc_answer_ok:
  assumes "conc_ok H C" and "Served c (Some resp) status \<in> set (cn_jobs C)"
  shows "answer_ok (h_net H) (ca_r c) resp status"
  using assms by (fastforce simp: conc_ok_def)

end

text \<open>
  Property C2.  However requests are interleaved, coalesced and overtaken by health checks, the clock
  and the clean-up of the cache: a client answered from the cache or by a flight, its own or one it
  joined, receives a node's successful answer to a request with the same method and the same canonical
  parameters as its own, rendered with its own id; a client answered on the direct path receives a
  node's successful reply to its own body unchanged; and every other answer is an HTTP error.
\<close>

theorem concurrent_answers_genuine:
  assumes "h_cache H = cache_Store" and "clock_mono (h_net H)" and "hs_store s0 = NewCache ms"
    and "\<forall>c t c'. bg c t c' \<longrightarrow> janitor c t c'"
    and "acts H bg as (conc_start s0) = Some C"
    and "Served c (Some resp) status \<in> set (cn_jobs C)"
  shows "if status = ''cache_hit'' \<or> status = ''ok'' then
           \<exists>body req body' b. read_body (ca_r c) = Some body \<and> Unmarshal_RPCRequest body = Some req \<and>
             request_for body' (rq_Method req) (CacheKey (rq_Method req) (rq_Params req)) \<and>
             answers (h_net H) body' b \<and> render (rq_ID req) b = Some (rp_body resp) \<and>
             rp_status resp = 200
         else if status = ''uncacheable'' then
           \<exists>w q. read_body (ca_r c) = Some (cq_Body q) \<and> ok_status (rp_status resp) \<and>
             fst (nt_send (h_net H) w q) = Reply (rp_status resp) (rp_header resp) (rp_body resp)
         else 400 \<le> rp_status resp"
proof -
  have bg: "cache_wf st' \<and> shrinks cache_view t st st'" if "cache_wf st" "bg st t st'" for st t st'
    using janitor_shrinks that assms(4) by blast
  have "lru_cache.conc_ok H C"
    by (rule lru_cache.conc_reach_ok [OF assms(1,2) _ _ bg assms(5)])
      (simp_all add: assms(3) NewCache_wf NewCache_view)
  from lru_cache.conc_answer_ok [OF this assms(6)] show ?thesis
    by (simp only: answer_ok_def)
qed

theorem concurrent_answers_genuine_witness:
  "\<exists>body' b. request_for body' ''eth_gasPrice'' ''eth_gasPrice:'' \<and>
     answers (h_net (gas_proxy gas_reply)) body' b \<and>
     render ''7'' b = Some ''{\"jsonrpc\":\"2.0\",\"result\":\"0x3b\",\"id\":7}''"
proof -
  let ?H = "gas_proxy gas_reply" and ?out = "''{\"jsonrpc\":\"2.0\",\"result\":\"0x3b\",\"id\":7}''"
  obtain C where C: "gas_end = Some C" using gas_end_served by (cases gas_end) simp_all
  have "last (map served_as (cn_jobs C)) = Some (gas_body ''7'', ?out, ''ok'')"
    and "map served_as (cn_jobs C) \<noteq> []"
    using gas_end_served [unfolded C] by simp_all
  then have "\<exists>j \<in> set (cn_jobs C). served_as j = Some (gas_body ''7'', ?out, ''ok'')"
    by (metis last_in_set last_map map_is_Nil_conv)
  then obtain c resp where job: "Served c (Some resp) ''ok'' \<in> set (cn_jobs C)"
      and c: "cq_Body (ca_r c) = gas_body ''7''" "rp_body resp = ?out"
    by (auto simp: served_as_Some)
  have "hs_store gas_start = NewCache [2]"
    by (simp add: gas_start_def demo_state_def)
  from concurrent_answers_genuine [OF gas_proxy_sel this _ C [unfolded gas_end_def] job]
  obtain body req body' b where ans: "read_body (ca_r c) = Some body" "Unmarshal_RPCRequest body = Some req"
      "request_for body' (rq_Method req) (CacheKey (rq_Method req) (rq_Params req))"
      "answers (h_net ?H) body' b" "render (rq_ID req) b = Some (rp_body resp)"
    by auto
  have "body = gas_body ''7''"
    using ans(1) c(1) by (auto simp: read_body_def split: if_splits)
  moreover have "Unmarshal_RPCRequest (gas_body ''7'') =
      Some \<lparr>rq_JSONRPC = [], rq_Method = ''eth_gasPrice'', rq_Params = [], rq_ID = ''7''\<rparr>"
    and "CacheKey ''eth_gasPrice'' [] = ''eth_gasPrice:''"
    by code_simp+
  ultimately show ?thesis
    using ans(2-5) c(2) by (intro exI [of _ body'] exI [of _ b]) auto
qed

text \<open>
  Property C23.  Over Redis, whatever commands fail, time out or take effect all the same, whatever entries
  the server drops on its own, and however requests are interleaved: a client answered from the cache or
  by a flight receives a node's successful answer to a request with the same method and canonical
  parameters, rendered with its own id; one answered on the direct path receives a node's reply to its
  own body unchanged; every other answer is an HTTP error.  As the pool and the finalised head may be
  other ones at every step, the requests may also be those of several instances, with as many nodes
  each, that share one server.
\<close>

theorem redis_concurrent_answers:
  assumes "redis_contract C view" and "\<forall>t. view (rd_client (hs_store s0)) t = (\<lambda>_. None)"
    and "h_cache H = redis_Store C" and "clock_mono (h_net H)"
    and "\<forall>st t st'. bg st t st' \<longrightarrow> shrinks (\<lambda>s. view (rd_client s)) t st st'"
    and "acts H bg as (conc_start s0) = Some D"
    and "Served c (Some resp) status \<in> set (cn_jobs D)"
  shows "answer_ok (h_net H) (ca_r c) resp status"
proof -
  note store = redis_written_store [OF assms(1)]
  show ?thesis
    by (rule written_store.conc_answer_ok [OF store written_store.conc_reach_ok [OF store assms(3,4) _ _ _ assms(6)] assms(7)])
      (use assms(2,5) in simp_all)
qed

definition redis_end :: "(redis_db RedisStore, unit) conc option" where
  "redis_end = acts redis_proxy (\<lambda>_ _ _. False) gas_schedule (conc_start redis_start)"

theorem redis_concurrent_answers_witness:
  "\<exists>(c :: call) (resp :: response). rp_body resp = ''{\"jsonrpc\":\"2.0\",\"result\":\"0x3b\",\"id\":7}'' \<and>
     cq_Body (ca_r c) = gas_body ''7'' \<and> answer_ok (h_net redis_proxy) (ca_r c) resp ''ok''"
proof -
  let ?out = "''{\"jsonrpc\":\"2.0\",\"result\":\"0x3b\",\"id\":7}''"
  have ends: "map_option (\<lambda>C. served_as (last (cn_jobs C))) redis_end = Some (Some (gas_body ''7'', ?out, ''ok''))"
    and jobs: "map_option (\<lambda>C. length (cn_jobs C)) redis_end = Some 2"
    by code_simp+
  then obtain D where D: "redis_end = Some D" by (cases redis_end) simp_all
  have "served_as (last (cn_jobs D)) = Some (gas_body ''7'', ?out, ''ok'')" and "cn_jobs D \<noteq> []"
    using ends [unfolded D] jobs [unfolded D] by auto
  then obtain c resp where last: "last (cn_jobs D) = Served c (Some resp) ''ok''"
    and c: "cq_Body (ca_r c) = gas_body ''7''" "rp_body resp = ?out"
    by (auto simp: served_as_Some)
  have job: "Served c (Some resp) ''ok'' \<in> set (cn_jobs D)"
    using last last_in_set [OF \<open>cn_jobs D \<noteq> []\<close>] by simp
  have "\<forall>t. db_view (rd_client (hs_store redis_start)) t = (\<lambda>_. None)"
    by (simp add: redis_start_def demo_state_def NewRedisStore_def live_redis_def db_view_def fun_eq_iff)
  moreover have "h_cache redis_proxy = redis_Store live_redis" "clock_mono (h_net redis_proxy)"
    by (simp_all add: redis_proxy_def clock_mono_def)
  ultimately have "answer_ok (h_net redis_proxy) (ca_r c) resp ''ok''"
    using redis_concurrent_answers [OF live_redis_contract _ _ _ _ D [unfolded redis_end_def] job] by simp
  with c show ?thesis by blast
qed

section \<open>Metrics\<close>

text \<open>The pair of labels under which a request has been counted.\<close>

fun counted :: "job \<Rightarrow> (string \<times> string) list" where
  "counted (Served c resp status) = [(NormalizeMethod (ca_method c), status)]"
| "counted _ = []"

fun started_by :: "instant \<Rightarrow> job \<Rightarrow> bool" where
  "started_by t (Arrived r) = True"
| "started_by t (Started r start) = (start \<le> t)"
| "started_by t (NegLookup c) = (ca_start c \<le> t)"
| "started_by t (Lookup c) = (ca_start c \<le> t)"
| "started_by t (AtGroup c) = (ca_start c \<le> t)"
| "started_by t (Waiting c j) = (ca_start c \<le> t)"
| "started_by t (FetchRoute c k) = (ca_start c \<le> t)"
| "started_by t (FetchSend c k node) = (ca_start c \<le> t)"
| "started_by t (Write c wr fl) = (ca_start c \<le> t)"
| "started_by t (Flown c fl) = (ca_start c \<le> t)"
| "started_by t (DirectRoute c k) = (ca_start c \<le> t)"
| "started_by t (DirectSend c k node) = (ca_start c \<le> t)"
| "started_by t (Replying c resp status) = (ca_start c \<le> t)"
| "started_by t (Served c resp status) = (ca_start c \<le> t)"

lemma started_by_mono: "started_by t j \<Longrightarrow> t \<le> t' \<Longrightarrow> started_by t' j"
  by (cases j) auto

lemma started_by_wake: "started_by t j \<Longrightarrow> started_by t (wake i x j)"
  by (cases rule: wake_cases [of i x j]) auto

lemma started_after_fetch [simp]: "started_by t (after_fetch H c res) \<longleftrightarrow> ca_start c \<le> t"
  using after_fetch_cases [of H c res] by auto

lemma counted_after_fetch [simp]: "counted (after_fetch H c res) = []"
  using after_fetch_cases [of H c res] by auto

lemma started_dispatch: "start \<le> t \<Longrightarrow> started_by t (dispatch s r start)"
  by (simp add: dispatch_def new_call_def Let_def split: option.split)

lemma counted_dispatch [simp]: "counted (dispatch s r start) = []"
  by (simp add: dispatch_def Let_def split: option.split)

lemma job_step_now:
  assumes "clock_mono (h_net H)"
  shows "now H s \<le> now H (snd (job_step H j s))"
proof -
  have "now H s \<le> now H (snd (send_to H node r body s))" for node r body
    using assms by (simp add: send_to_world now_def clock_mono_def)
  then show ?thesis
    by (cases "(H, j, s)" rule: job_step.cases)
      (auto simp: FetchRoute_Suc DirectRoute_Suc Let_def cache_Get_sel(3) case_prod_unfold
        split: option.split)
qed

lemma job_step_started:
  assumes "clock_mono (h_net H)" and "started_by (now H s) j"
  shows "started_by (now H (snd (job_step H j s))) (fst (job_step H j s))"
proof -
  have "started_by (now H s) (fst (job_step H j s))"
    by (cases "(H, j, s)" rule: job_step.cases)
      (use assms(2) started_dispatch in \<open>auto simp: FetchRoute_Suc DirectRoute_Suc Let_def case_prod_unfold
        split: option.split\<close>)
  with job_step_now [OF assms(1)] started_by_mono show ?thesis by blast
qed

text \<open>Which labels and times a step adds.\<close>

lemma job_step_counts:
  assumes "runnable j" and "started_by (now H s) j"
  shows "\<exists>ds. hs_requests (snd (job_step H j s)) = hs_requests s @ counted (fst (job_step H j s)) \<and>
              hs_durations (snd (job_step H j s)) = hs_durations s @ ds \<and>
              map fst ds = map fst (counted (fst (job_step H j s))) \<and> (\<forall>d \<in> set ds. 0 \<le> snd d) \<and>
              counted j = []"
  by (cases "(H, j, s)" rule: job_step.cases)
    (use assms in \<open>auto simp: FetchRoute_Suc DirectRoute_Suc Let_def case_prod_unfold send_to_world
      cache_Get_def cache_Set_def note_lookup_def split: option.split\<close>)

lemma mset_concat_update:
  assumes "i < length xs" and "xs ! i = []"
  shows "mset (concat (xs[i := y])) = mset (concat xs) + mset y"
proof -
  have "mset (concat (xs[i := y])) = mset (concat (take i xs @ y # drop (Suc i) xs))"
    using assms(1) by (simp add: upd_conv_take_nth_drop)
  moreover have "mset (concat xs) = mset (concat (take i xs @ [] # drop (Suc i) xs))"
    using id_take_nth_drop [OF assms(1)] assms(2) by metis
  ultimately show ?thesis by simp
qed

lemma counted_wake [simp]: "counted (wake i x j) = counted j"
  by (cases rule: wake_cases [of i x j]) auto

definition accounts :: "('s, 'w) Handler \<Rightarrow> ('s, 'w) hstate \<Rightarrow> ('s, 'w) conc \<Rightarrow> bool" where
  "accounts H s0 C \<longleftrightarrow>
     (\<forall>j \<in> set (cn_jobs C). started_by (now H (cn_state C)) j) \<and>
     mset (hs_requests (cn_state C)) = mset (hs_requests s0) + mset (concat (map counted (cn_jobs C))) \<and>
     (\<exists>ds. hs_durations (cn_state C) = hs_durations s0 @ ds \<and> (\<forall>d \<in> set ds. 0 \<le> snd d) \<and>
        mset (map fst ds) = mset (map fst (concat (map counted (cn_jobs C)))))"

lemma accounts_run:
  assumes "clock_mono (h_net H)" and "accounts H s0 C"
    and "i < length (cn_jobs C)" and "runnable (cn_jobs C ! i)"
  shows "accounts H s0 (run_step H i C)"
proof -
  obtain job s where step: "job_step H (cn_jobs C ! i) (cn_state C) = (job, s)" by fastforce
  let ?n = "concat (map counted (cn_jobs C))" and ?n' = "concat (map counted (cn_jobs (run_step H i C)))"
  from assms(2) obtain ds where acc: "\<And>k. k < length (cn_jobs C) \<Longrightarrow> started_by (now H (cn_state C)) (cn_jobs C ! k)"
      "mset (hs_requests (cn_state C)) = mset (hs_requests s0) + mset ?n"
      "hs_durations (cn_state C) = hs_durations s0 @ ds" "\<forall>d \<in> set ds. 0 \<le> snd d"
      "mset (map fst ds) = mset (map fst ?n)"
    by (auto simp: accounts_def)
  from job_step_counts [OF assms(4) acc(1) [OF assms(3)]] step obtain ds'
    where new: "hs_requests s = hs_requests (cn_state C) @ counted job"
      "hs_durations s = hs_durations (cn_state C) @ ds'" "map fst ds' = map fst (counted job)"
      "\<forall>d \<in> set ds'. 0 \<le> snd d" "counted (cn_jobs C ! i) = []"
    by auto
  have "map counted (cn_jobs (run_step H i C)) = (map counted (cn_jobs C))[i := counted job]"
    using step by (simp add: run_step_def map_update comp_def flip: map_update)
  with mset_concat_update [of i "map counted (cn_jobs C)" "counted job"] assms(3) new(5)
  have n': "mset ?n' = mset ?n + mset (counted job)" by simp
  then have "mset (map fst ?n') = mset (map fst ?n) + mset (map fst (counted job))"
    by (simp flip: image_mset_union)
  moreover have "now H (cn_state C) \<le> now H s"
    using job_step_now [OF assms(1), of "cn_state C" "cn_jobs C ! i"] step by simp
  moreover have "started_by (now H s) job"
    using job_step_started [OF assms(1) acc(1) [OF assms(3)]] step by simp
  ultimately have "\<forall>k < length (cn_jobs C). started_by (now H s) (cn_jobs (run_step H i C) ! k)"
    using run_step_jobs [OF assms(3) _ step] acc(1) started_by_mono started_by_wake by metis
  then have "\<forall>j \<in> set (cn_jobs (run_step H i C)). started_by (now H s) j"
    by (auto simp: in_set_conv_nth run_step_sel(2))
  moreover have "mset (map fst (ds @ ds')) = mset (map fst ?n')"
    using acc(5) new(3) \<open>mset (map fst ?n') = _\<close> by (metis map_append mset_append)
  ultimately show ?thesis
    unfolding accounts_def using step acc new(1,2,4) n'
    by (auto simp: run_step_sel(1) intro!: exI [of _ "ds @ ds'"])
qed

lemma accounts_act:
  assumes "clock_mono (h_net H)" and "accounts H s0 C" and "act H bg a C = Some C'"
  shows "accounts H s0 C'"
proof (cases a)
  case (Run i)
  with assms accounts_run show ?thesis by (auto split: if_splits)
next
  case (Join i j)
  with assms(3) have "act H bg (Join i j) C = Some C'" by simp
  then show ?thesis
  proof (cases rule: act_JoinE)
    case (1 c c')
    have "map counted (cn_jobs C') = map counted (cn_jobs C)"
      using 1 by (auto intro!: nth_equalityI simp: nth_list_update)
    moreover have "\<forall>j \<in> set (cn_jobs C'). started_by (now H (cn_state C)) j"
    proof -
      have "started_by (now H (cn_state C)) (Waiting c j)"
        using 1 assms(2) nth_mem [of i "cn_jobs C"] by (fastforce simp: accounts_def)
      with 1(6) assms(2) show ?thesis
        using set_update_subset_insert [of "cn_jobs C" i "Waiting c j"] by (auto simp: accounts_def)
    qed
    moreover have "cn_state C' = cn_state C" using 1(6) by simp
    ultimately show ?thesis using assms(2) by (simp add: accounts_def)
  qed
next
  case (Passes w)
  with assms(2,3) started_by_mono show ?thesis by (fastforce simp: accounts_def split: if_splits)
qed (use assms(2,3) in \<open>auto simp: accounts_def now_def split: if_splits\<close>)

text \<open>
  Property C34.  However requests are interleaved, every request that was served is counted exactly
  once, under the label of its method and the status it ended with, and no other is counted; as many
  times are recorded, under the same method labels, and none of them is negative if the clock does not
  go back.
\<close>

theorem concurrent_requests_accounted:
  assumes "clock_mono (h_net H)" and "acts H bg as (conc_start s0) = Some C"
  shows "mset (hs_requests (cn_state C)) =
           mset (hs_requests s0) + mset (concat (map counted (cn_jobs C))) \<and>
         (\<exists>ds. hs_durations (cn_state C) = hs_durations s0 @ ds \<and> (\<forall>d \<in> set ds. 0 \<le> snd d) \<and>
            mset (map fst ds) = mset (map fst (concat (map counted (cn_jobs C)))))"
proof -
  have "accounts H s0 (conc_start s0)"
    by (simp add: accounts_def conc_start_def)
  then have "accounts H s0 C"
    by (rule acts_invariant [where I = "accounts H s0", OF assms(2)]) (rule accounts_act [OF assms(1)])
  then show ?thesis by (simp add: accounts_def)
qed

theorem concurrent_requests_accounted_witness:
  "\<exists>C. gas_end = Some C \<and>
     mset (hs_requests (cn_state C)) = mset (concat (map counted (cn_jobs C)))"
proof -
  obtain C where C: "gas_end = Some C" using gas_end_served by (cases gas_end) simp_all
  with concurrent_requests_accounted [OF gas_proxy_sel(2) C [unfolded gas_end_def]] show ?thesis
    by (intro exI [of _ C]) (simp add: gas_start_def demo_state_def)
qed

end
