(* ===== verification/Spec2Isabelle.thy ===== *)
theory Spec2Isabelle
  imports LocalDemo WsHeartbeat EthProber MainProgram ProxyAnswers
begin

text \<open>
  Verification of AegisRPC, a caching and load-balancing reverse proxy for Ethereum JSON-RPC nodes.

  \<^bold>\<open>The program.\<close>  A client's HTTP request goes through the routes of the HTTP server to the JSON-RPC
  handler.  The handler decodes the envelope, classifies the method by finality into an immutable, a
  mutable and an uncacheable layer, looks the key up in the cache, and otherwise asks the router for a
  node with the capability the method needs, trying the nodes of the pool in turn; concurrent requests
  for one key share one flight.  A background loop probes the nodes, takes lagging ones out of service
  and moves the head of the finality checker.  WebSocket clients get a session of their own, which
  survives the loss of its upstream by replaying the subscriptions on another node and translating
  their ids.  The configuration is layered from defaults, a file, the environment and flags.

  \<^bold>\<open>The theories.\<close>  State is passed explicitly, errors are values, Go maps are functions or association
  lists with distinct keys, byte strings are lists of characters, and 64-bit counters and block numbers
  are words.
  \<^item> \<open>Prelude\<close>: names of Go's types, collections of rewrite rules, slots of a wrapping counter.
  \<^item> \<open>GoStrings\<close>, \<open>GoFloat\<close>, \<open>GoJson\<close>, \<open>GoUrl\<close>, \<open>GoCase\<close>, \<open>GoTime\<close>, \<open>GoFlag\<close>: what the program uses of the
    standard library, on bytes: strings and strconv, float64 as far as JSON numbers and durations need it,
    the JSON scanner, decoder and encoder, net/url, lower case, durations, command-line flags.
  \<^item> \<open>GoJsonText\<close>: compact JSON texts as a data type, and the round trip of printing and parsing, by which
    messages with arbitrary parts are decoded.
  \<^item> \<open>Store\<close>, \<open>Cache\<close>, \<open>Redis\<close> (internal/cache): the interface of a cache as locales \<open>written_store\<close>,
    \<open>lossy_store\<close> and \<open>kv_store\<close>; the LRU cache with its map, linked list and heap of entries, an
    interpretation of \<open>kv_store\<close>, refined to a list in order of use; the Redis store over a client that
    is a parameter with a contract, an instance of \<open>written_store\<close>.
  \<^item> \<open>Finality\<close> (finality.go, layer.go, \<open>CacheKey\<close>), \<open>Capability\<close>, \<open>Upstream\<close> (upstream.go), \<open>Router\<close>
    (router.go), \<open>Health\<close> (health.go), \<open>EthProber\<close> (eth/prober.go), \<open>Metrics\<close> (metrics.go),
    \<open>Models\<close> (models/rpc.go).
  \<^item> \<open>Handler\<close> and \<open>ProxyCache\<close> (proxy/handler.go): the request handler, generic in the cache, and the
    runs of the proxy with health rounds, time and clean-up.
  \<^item> \<open>ProxyConcurrent\<close> and \<open>ProxyAnswers\<close>: the same handler as a process that makes one access to the
    shared state in a step, any number of which run at the same time under any schedule; what their
    clients are sent and how they are counted.
  \<^item> \<open>WsSession\<close>, \<open>WsRun\<close>, \<open>WsFrames\<close>, \<open>WsHeartbeat\<close>, \<open>WsOrigin\<close> (proxy/ws.go): the session state and the
    handlers of frames, the life of a session as a step relation, what happens to single frames, the
    read deadline of an upstream, the origin check.
  \<^item> \<open>Config\<close> (config.go), \<open>HttpApi\<close> (httpapi/server.go), \<open>MainProgram\<close> (cmd/aegis-rpc/main.go).
  \<^item> \<open>WsClient\<close> (examples/ws-client), \<open>LocalDemo\<close> (examples/local-demo): the example client, and the
    demonstration with two fake upstreams, composed with the session handlers of the proxy.

  \<^bold>\<open>What is shown.\<close>
  \<^item> Cache: it implements a list of entries in order of use; its cap holds in every reachable state; a
    hit is the last value written and not expired.  A hit of the proxy carries a result a node gave to a
    request of the same method and canonical parameters, over the LRU cache and over Redis; exactly what
    a flight writes; back-off after total failure.
  \<^item> Nodes: selection finds a usable node whenever there is one; the retry loops and the dialling of a
    session try every healthy node; the lag check is exact and free of underflow; a round of concurrent
    probes always ends and does not depend on the schedule; a block counts as final only on the report of
    a node; a successful capability probe says exactly what the replies said.
  \<^item> Requests, under every interleaving: an answer is a node's answer to the same method and canonical
    parameters with the caller's own id, also for callers that joined a flight; all steps together are
    bounded, callers that wait never wait for each other, and all can be served; each is counted and
    timed once.  A request that is left alone does what the sequential handler does.  Malformed requests
    are rejected without effect; which requests reach the handler at all.
  \<^item> Sessions: an invariant of every reachable state with the bounds on unanswered requests and on frames
    held back, also when frames of a connection given up arrive between the answers to a replay; subscriptions survive a replay under the ids the client knows, if the new upstream's ids
    are fresh; the life of a subscription; translating a notification changes its subscription id only;
    the two critical sections of an answer may be taken as one; how long an upstream may be silent;
    accepted origins are exactly those of the allowlist in the sense of RFC 6454.
  \<^item> Examples: for any ids and block numbers, the failover of the demonstration is invisible to its
    client; the proxy understands every frame of the example client.
  \<^item> Start: every field of an accepted configuration comes from the first layer that has it, it is well
    formed, the early logger is the final one, and a program that starts can serve.
  \<^item> Flaws the model exposes, each a theorem on a concrete run: retries that miss a healthy node because
    another request took its turn, null receipts cached for ever, a missed node at counter wrap-around,
    an envelope without result and error, a rate-limited node taken out of service, subscriptions
    swapped by a replay, lost in a failover or replaced by one with the same id, a panic on a malformed
    notification, an allowlist that fails open, an endless reconnect, a prober that does not look at the
    status, a panic counted as a success, a fake upstream that pushes to nobody.

  \<^bold>\<open>Loops and fuel.\<close>  Loops over the pool are bounded by the number of nodes, as in the code.  The JSON
  parser takes fuel twice the length of its input, and more fuel never changes the result
  (\<open>pval_fuel\<close>).  All other recursions have termination proofs.

  \<^bold>\<open>Parameters.\<close>  The network behind the reverse proxy and the HTTP clients, the clock, the choices of
  the singleflight group, the Redis client, the YAML decoder with the file system, the environment, the Unicode
  lower-case table outside ASCII, the metrics registry, the rest of the WebSocket handshake, the blanks
  after a message written with \<open>WriteJSON\<close>, and the outcomes of listening and shutting down.  Hypotheses on them are stated where they are used, with witnesses.

  \<^bold>\<open>Not modelled.\<close>  Logging other than the lines a property is about; the storage of metrics in the
  Prometheus library; tickers and contexts, which appear only as the choice of when a round runs or a
  connection ends, and deadlines other than that of the heartbeat; scripts and deployment files.
\<close>

end
